(* ===== verification/Prelude.thy ===== *)
theory Prelude
  imports Main "HOL-Library.Word"
begin

text \<open>
  Vocabulary shared by the theories of the TS-3100 emulator: the machine integers of the C++
  sources, the ways in which an operation can fail, the bytes of a 16 bit register, the
  little-endian view of a data buffer, and the generic interface of a register file.
\<close>

unbundle bit_operations_syntax

section \<open>Machine integers\<close>

type_synonym u8 = "8 word"
type_synonym u16 = "16 word"
type_synonym u32 = "32 word"
type_synonym u64 = "64 word"

named_theorems byte_simps \<open>bytes of 16 bit registers\<close>
named_theorems buffer_simps \<open>little-endian buffers\<close>
named_theorems result_simps \<open>sequencing of operations that may fail\<close>

lemma unat_bound: "unat (w :: 'a::len word) < 2 ^ LENGTH('a)"
  by (rule unsigned_less)

section \<open>Failures as values\<close>

text \<open>
  \<open>ThrowRuntimeError\<close> is an uncaught \<open>std::runtime_error\<close>; \<open>AssertionFailed\<close> a failed
  \<open>assert\<close>; \<open>DivideByZero\<close> the integer division trap; \<open>OutOfBounds\<close> an access outside the
  object it starts in, where the C++ behaviour is undefined; \<open>DanglingHandler\<close> a call through a
  pointer to a handler that was destroyed; \<open>ExitFailure\<close> a \<open>return EXIT_FAILURE\<close> of the main loop.
\<close>

datatype cpp_error =
    ThrowRuntimeError string
  | AssertionFailed
  | DivideByZero
  | OutOfBounds
  | DanglingHandler
  | ExitFailure

type_synonym 'a result = "cpp_error + 'a"

definition and_then :: "'a result \<Rightarrow> ('a \<Rightarrow> 'b result) \<Rightarrow> 'b result" where
  "and_then r f = (case r of Inl e \<Rightarrow> Inl e | Inr x \<Rightarrow> f x)"

lemma and_then_Inl [simp, result_simps]: "and_then (Inl e) f = Inl e"
  by (simp add: and_then_def)

lemma and_then_Inr [simp, result_simps]: "and_then (Inr x) f = f x"
  by (simp add: and_then_def)

lemma and_then_eq_Inr [result_simps]:
  "and_then r f = Inr y \<longleftrightarrow> (\<exists>x. r = Inr x \<and> f x = Inr y)"
  by (cases r) auto

lemma and_then_eq_Inl [result_simps]:
  "and_then r f = Inl e \<longleftrightarrow> r = Inl e \<or> (\<exists>x. r = Inr x \<and> f x = Inl e)"
  by (cases r) auto

lemma and_then_assoc: "and_then (and_then r f) g = and_then r (\<lambda>x. and_then (f x) g)"
  by (cases r) auto

text \<open>
  \<open>assert(c)\<close> of the C library: with \<open>NDEBUG\<close> it is compiled away, otherwise it aborts when the
  condition is false.
\<close>

definition c_assert :: "bool \<Rightarrow> bool \<Rightarrow> unit result" where
  "c_assert ndebug c = (if ndebug \<or> c then Inr () else Inl AssertionFailed)"

lemma c_assert_True [simp]: "c_assert ndebug True = Inr ()"
  by (simp add: c_assert_def)

lemma c_assert_ndebug [simp]: "c_assert True c = Inr ()"
  by (simp add: c_assert_def)

lemma c_assert_eq_Inr [result_simps]: "c_assert ndebug c = Inr x \<longleftrightarrow> ndebug \<or> c"
  by (cases x) (simp add: c_assert_def)

text \<open>A loop that applies a failing operation to every element of an array, in order.\<close>

fun map_result :: "('a \<Rightarrow> 'b result) \<Rightarrow> 'a list \<Rightarrow> 'b list result" where
  "map_result f [] = Inr []"
| "map_result f (x # xs) = and_then (f x) (\<lambda>y. and_then (map_result f xs) (\<lambda>ys. Inr (y # ys)))"

lemma map_result_length: "map_result f xs = Inr ys \<Longrightarrow> length ys = length xs"
  by (induction xs arbitrary: ys) (auto simp: result_simps)

lemma map_result_nth:
  "map_result f xs = Inr ys \<Longrightarrow> i < length xs \<Longrightarrow> f (xs ! i) = Inr (ys ! i)"
proof (induction xs arbitrary: ys i)
  case (Cons x xs)
  then show ?case by (cases i) (auto simp: result_simps)
qed simp

lemma map_result_all:
  assumes "map_result f xs = Inr ys" and "\<And>x y. x \<in> set xs \<Longrightarrow> f x = Inr y \<Longrightarrow> P y" and "y \<in> set ys"
  shows "P y"
proof -
  from assms(3) obtain i where "i < length ys" and "y = ys ! i" by (auto simp: in_set_conv_nth)
  with assms(1) have "f (xs ! i) = Inr y" and "xs ! i \<in> set xs"
    by (simp_all add: map_result_length map_result_nth)
  with assms(2) show ?thesis by blast
qed

lemma map_result_list_all:
  assumes "map_result f xs = Inr ys" and "list_all P xs" and "\<And>x y. P x \<Longrightarrow> f x = Inr y \<Longrightarrow> P y"
  shows "list_all P ys"
  unfolding list_all_iff
proof
  fix y assume "y \<in> set ys"
  then show "P y"
    by (rule map_result_all [OF assms(1), rotated]) (use assms(2,3) in \<open>auto simp: list_all_iff\<close>)
qed

lemma list_all_update: "list_all P xs \<Longrightarrow> P y \<Longrightarrow> list_all P (xs[i := y])"
  by (cases "i < length xs") (simp_all add: list_all_length nth_list_update)

lemma list_all_nth: "list_all P xs \<Longrightarrow> i < length xs \<Longrightarrow> P (xs ! i)"
  by (simp add: list_all_length)

lemma map_result_Inl:
  assumes "\<exists>x \<in> set xs. f x = Inl e" and "\<And>x. f x = Inl e \<or> (\<exists>y. f x = Inr y)"
  shows "map_result f xs = Inl e"
  using assms(1)
proof (induction xs)
  case (Cons x xs)
  show ?case
  proof (cases "f x = Inl e")
    case False
    with assms(2) [of x] Cons show ?thesis by auto
  qed simp
qed simp

lemma map_result_total: "(\<And>x. x \<in> set xs \<Longrightarrow> \<exists>y. f x = Inr y) \<Longrightarrow> \<exists>ys. map_result f xs = Inr ys"
proof (induction xs)
  case (Cons x xs)
  then obtain y ys where "f x = Inr y" and "map_result f xs = Inr ys" by fastforce
  then show ?case by simp
qed simp

lemma find_SomeD: "find P xs = Some x \<Longrightarrow> P x \<and> x \<in> set xs"
  by (auto simp: find_Some_iff)

lemma map_result_Inr: "map_result (\<lambda>x. Inr (f x)) xs = Inr (map f xs)"
  by (induction xs) simp_all

section \<open>Bytes of a 16 bit register\<close>

definition lo8 :: "u16 \<Rightarrow> u8" where "lo8 w = ucast w"
definition hi8 :: "u16 \<Rightarrow> u8" where "hi8 w = ucast (drop_bit 8 w)"
definition set_lo8 :: "u16 \<Rightarrow> u8 \<Rightarrow> u16" where "set_lo8 w b = (w AND 0xFF00) OR ucast b"
definition set_hi8 :: "u16 \<Rightarrow> u8 \<Rightarrow> u16" where "set_hi8 w b = (w AND 0x00FF) OR push_bit 8 (ucast b)"

lemma u16_low_mask: "(0x00FF :: u16) = mask 8"
  by (simp add: mask_numeral)

lemma u16_high_mask: "(0xFF00 :: u16) = NOT (mask 8)"
  by (simp add: mask_numeral)

lemma lo8_set_lo8 [simp, byte_simps]: "lo8 (set_lo8 w b) = b"
  unfolding lo8_def set_lo8_def u16_high_mask by (rule bit_word_eqI) (auto simp: bit_simps)

lemma hi8_set_lo8 [simp, byte_simps]: "hi8 (set_lo8 w b) = hi8 w"
  unfolding hi8_def set_lo8_def u16_high_mask
  by (rule bit_word_eqI) (auto simp: bit_simps dest: bit_imp_le_length)

lemma lo8_set_hi8 [simp, byte_simps]: "lo8 (set_hi8 w b) = lo8 w"
  unfolding lo8_def set_hi8_def u16_low_mask by (rule bit_word_eqI) (auto simp: bit_simps)

lemma hi8_set_hi8 [simp, byte_simps]: "hi8 (set_hi8 w b) = b"
  unfolding hi8_def set_hi8_def u16_low_mask by (rule bit_word_eqI) (auto simp: bit_simps)

lemma set_both_bytes [simp, byte_simps]: "set_hi8 (set_lo8 w (lo8 v)) (hi8 v) = v"
  unfolding lo8_def hi8_def set_lo8_def set_hi8_def u16_low_mask u16_high_mask
  by (rule bit_word_eqI) (auto simp: bit_simps)

lemma u16_eq_by_bytes: "v = w \<longleftrightarrow> lo8 v = lo8 w \<and> hi8 v = hi8 w"
  by (metis set_both_bytes)

lemma bit0_cases: "(w :: 'a::len word) AND 1 = (if bit w 0 then 1 else 0)"
  by (rule bit_word_eqI) (auto simp: bit_simps bit_1_iff intro: gr0I)

section \<open>Half words of a 32 bit register\<close>

definition lo16 :: "u32 \<Rightarrow> u16" where "lo16 w = ucast w"
definition hi16 :: "u32 \<Rightarrow> u16" where "hi16 w = ucast (drop_bit 16 w)"
definition set_lo16 :: "u32 \<Rightarrow> u16 \<Rightarrow> u32" where "set_lo16 w h = (w AND NOT (mask 16)) OR ucast h"
definition set_hi16 :: "u32 \<Rightarrow> u16 \<Rightarrow> u32" where "set_hi16 w h = (w AND mask 16) OR push_bit 16 (ucast h)"

lemma lo16_set_lo16 [simp, byte_simps]: "lo16 (set_lo16 w h) = h"
  unfolding lo16_def set_lo16_def by (rule bit_word_eqI) (auto simp: bit_simps)

lemma hi16_set_lo16 [simp, byte_simps]: "hi16 (set_lo16 w h) = hi16 w"
  unfolding hi16_def set_lo16_def
  by (rule bit_word_eqI) (auto simp: bit_simps dest: bit_imp_le_length)

lemma lo16_set_hi16 [simp, byte_simps]: "lo16 (set_hi16 w h) = lo16 w"
  unfolding lo16_def set_hi16_def by (rule bit_word_eqI) (auto simp: bit_simps)

lemma hi16_set_hi16 [simp, byte_simps]: "hi16 (set_hi16 w h) = h"
  unfolding hi16_def set_hi16_def by (rule bit_word_eqI) (auto simp: bit_simps)

section \<open>Little-endian buffers\<close>

text \<open>
  A register access of \<open>n\<close> bytes through \<open>void* data\<close> reads or writes the first \<open>n\<close> bytes of
  the buffer, low byte first.
\<close>

fun le_val :: "u8 list \<Rightarrow> nat" where
  "le_val [] = 0"
| "le_val (b # bs) = unat b + 256 * le_val bs"

fun le_bytes :: "nat \<Rightarrow> nat \<Rightarrow> u8 list" where
  "le_bytes 0 v = []"
| "le_bytes (Suc n) v = word_of_nat v # le_bytes n (v div 256)"

definition le_get :: "nat \<Rightarrow> u8 list \<Rightarrow> 'a::len word" where
  "le_get n buf = word_of_nat (le_val (take n buf))"

definition le_put :: "nat \<Rightarrow> 'a::len word \<Rightarrow> u8 list \<Rightarrow> u8 list" where
  "le_put n v buf = le_bytes n (unat v) @ drop n buf"

lemma length_le_bytes [simp, buffer_simps]: "length (le_bytes n v) = n"
  by (induction n arbitrary: v) auto

lemma le_val_le_bytes [simp, buffer_simps]: "le_val (le_bytes n v) = v mod 256 ^ n"
proof (induction n arbitrary: v)
  case (Suc n)
  have "unat (word_of_nat v :: u8) = v mod 256" by (simp add: unat_of_nat)
  then show ?case by (simp add: Suc mod_mult2_eq)
qed simp

lemma le_val_bound: "le_val bs < 256 ^ length bs"
proof (induction bs)
  case (Cons b bs)
  have "unat b < 256" using unsigned_less [of b] by simp
  with Cons show ?case by simp
qed simp

lemma length_le_put [simp, buffer_simps]: "n \<le> length buf \<Longrightarrow> length (le_put n v buf) = length buf"
  by (simp add: le_put_def)

lemma le_get_le_put:
  assumes "LENGTH('a) \<le> 8 * n"
  shows "le_get n (le_put n (v :: 'a::len word) buf) = v"
proof -
  have "(256::nat) ^ n = 2 ^ (8 * n)" by (simp add: power_mult)
  moreover have "(2::nat) ^ LENGTH('a) \<le> 2 ^ (8 * n)" using assms by simp
  ultimately have "unat v < 256 ^ n" using unsigned_less [of v] by (metis order_less_le_trans)
  then show ?thesis by (simp add: le_get_def le_put_def)
qed

lemma drop_le_put [simp, buffer_simps]: "drop n (le_put n v buf) = drop n buf"
  by (simp add: le_put_def)

section \<open>Register files\<close>

text \<open>
  Several devices are, in part, a file of independent registers: what was written last to a
  register is what a read returns, and no write disturbs another register. The contract is
  stated once; the lemma about arbitrary sequences of writes is proved once and instantiated
  by every device that keeps the contract.
\<close>

locale register_file =
  fixes rd :: "'d \<Rightarrow> 'a \<Rightarrow> 'v"
    and wr :: "'a \<Rightarrow> 'v \<Rightarrow> 'd \<Rightarrow> 'd"
    and inv :: "'d \<Rightarrow> bool"
    and valid :: "'a \<Rightarrow> bool"
    and same :: "'a \<Rightarrow> 'a \<Rightarrow> bool"
  assumes wr_inv: "inv d \<Longrightarrow> inv (wr b v d)"
    and rd_wr_same: "inv d \<Longrightarrow> valid a \<Longrightarrow> same b a \<Longrightarrow> rd (wr b v d) a = v"
    and rd_wr_other: "inv d \<Longrightarrow> valid a \<Longrightarrow> \<not> same b a \<Longrightarrow> rd (wr b v d) a = rd d a"
begin

lemma fold_wr_inv: "inv d \<Longrightarrow> inv (fold (\<lambda>(b, v). wr b v) ws d)"
  by (induction ws arbitrary: d) (auto simp: wr_inv)

lemma rd_fold_wr:
  assumes "inv d" and "valid a"
  shows "rd (fold (\<lambda>(b, v). wr b v) ws d) a =
    (case find (\<lambda>(b, v). same b a) (rev ws) of Some (b, v) \<Rightarrow> v | None \<Rightarrow> rd d a)"
proof (induction ws rule: rev_induct)
  case (snoc w ws)
  obtain b v where w: "w = (b, v)" by (cases w)
  have "inv (fold (\<lambda>(b, v). wr b v) ws d)" using assms(1) by (rule fold_wr_inv)
  then show ?case
    using assms(2) w snoc by (cases "same b a") (simp_all add: rd_wr_same rd_wr_other)
qed simp

end

end
