(* ===== verification/Device_Pio.thy ===== *)
theory Device_Pio
  imports Prelude
begin

text \<open>
  The port-mapped device interface \<open>DevicePio\<close> (src/hardware/DevicePio.hpp). A device class is
  its table of eight virtual functions, a record of functions over the device's state; the base
  class throws from each of them and a device overrides some (a record update of the base
  table). \<open>performKVMExitOperation\<close> selects the function by the width of the access.
\<close>

section \<open>The table of virtual functions\<close>

record 'd pio_ops =
  vt_iowrite8 :: "'d \<Rightarrow> u16 \<Rightarrow> u8 \<Rightarrow> 'd result"
  vt_iowrite16 :: "'d \<Rightarrow> u16 \<Rightarrow> u16 \<Rightarrow> 'd result"
  vt_iowrite32 :: "'d \<Rightarrow> u16 \<Rightarrow> u32 \<Rightarrow> 'd result"
  vt_iowrite64 :: "'d \<Rightarrow> u16 \<Rightarrow> u64 \<Rightarrow> 'd result"
  vt_ioread8 :: "'d \<Rightarrow> u16 \<Rightarrow> ('d \<times> u8) result"
  vt_ioread16 :: "'d \<Rightarrow> u16 \<Rightarrow> ('d \<times> u16) result"
  vt_ioread32 :: "'d \<Rightarrow> u16 \<Rightarrow> ('d \<times> u32) result"
  vt_ioread64 :: "'d \<Rightarrow> u16 \<Rightarrow> ('d \<times> u64) result"

definition DevicePio :: "'d pio_ops" where
  "DevicePio = \<lparr>
     vt_iowrite8 = (\<lambda>d address data. Inl (ThrowRuntimeError ''iowrite8 is unimplemented for this device'')),
     vt_iowrite16 = (\<lambda>d address data. Inl (ThrowRuntimeError ''iowrite16 is unimplemented for this device'')),
     vt_iowrite32 = (\<lambda>d address data. Inl (ThrowRuntimeError ''iowrite32 is unimplemented for this device'')),
     vt_iowrite64 = (\<lambda>d address data. Inl (ThrowRuntimeError ''iowrite64 is unimplemented for this device'')),
     vt_ioread8 = (\<lambda>d address. Inl (ThrowRuntimeError ''ioread8 is unimplemented for this device'')),
     vt_ioread16 = (\<lambda>d address. Inl (ThrowRuntimeError ''ioread16 is unimplemented for this device'')),
     vt_ioread32 = (\<lambda>d address. Inl (ThrowRuntimeError ''ioread32 is unimplemented for this device'')),
     vt_ioread64 = (\<lambda>d address. Inl (ThrowRuntimeError ''ioread64 is unimplemented for this device''))\<rparr>"

section \<open>Dispatch of a port access\<close>

text \<open>
  The buffer is the part of the KVM run page the exit refers to; an access wider than the buffer
  would leave it.
\<close>

definition pio_write :: "nat \<Rightarrow> ('d \<Rightarrow> u16 \<Rightarrow> 'a::len word \<Rightarrow> 'd result) \<Rightarrow> 'd \<Rightarrow> u16 \<Rightarrow> u8 list \<Rightarrow>
    ('d \<times> u8 list) result" where
  "pio_write n f d address buf =
     (if length buf < n then Inl OutOfBounds
      else and_then (f d address (le_get n buf)) (\<lambda>d'. Inr (d', buf)))"

definition pio_read :: "nat \<Rightarrow> ('d \<Rightarrow> u16 \<Rightarrow> ('d \<times> 'a::len word) result) \<Rightarrow> 'd \<Rightarrow> u16 \<Rightarrow> u8 list \<Rightarrow>
    ('d \<times> u8 list) result" where
  "pio_read n f d address buf =
     (if length buf < n then Inl OutOfBounds
      else and_then (f d address) (\<lambda>(d', v). Inr (d', le_put n v buf)))"

definition performKVMExitOperation ::
    "'d pio_ops \<Rightarrow> 'd \<Rightarrow> bool \<Rightarrow> u16 \<Rightarrow> u8 list \<Rightarrow> nat \<Rightarrow> ('d \<times> u8 list) result" where
  "performKVMExitOperation ops d is_write address buf len =
     (if len = 1 then
        if is_write then pio_write 1 (vt_iowrite8 ops) d address buf
        else pio_read 1 (vt_ioread8 ops) d address buf
      else if len = 2 then
        if is_write then pio_write 2 (vt_iowrite16 ops) d address buf
        else pio_read 2 (vt_ioread16 ops) d address buf
      else if len = 4 then
        if is_write then pio_write 4 (vt_iowrite32 ops) d address buf
        else pio_read 4 (vt_ioread32 ops) d address buf
      else if len = 8 then
        if is_write then pio_write 8 (vt_iowrite64 ops) d address buf
        else pio_read 8 (vt_ioread64 ops) d address buf
      else Inl (ThrowRuntimeError ''oddly sized operation length.''))"

lemma perform_odd_length:
  "len \<notin> {1, 2, 4, 8} \<Longrightarrow> performKVMExitOperation ops d is_write address buf len =
     Inl (ThrowRuntimeError ''oddly sized operation length.'')"
  by (simp add: performKVMExitOperation_def)

lemma pio_write_buffer: "pio_write n f d address buf = Inr (d', buf') \<Longrightarrow> buf' = buf"
  by (auto simp: pio_write_def result_simps split: if_splits)

lemma pio_read_buffer:
  "pio_read n f d address buf = Inr (d', buf') \<Longrightarrow> length buf' = length buf \<and> drop n buf' = drop n buf"
  by (auto simp: pio_read_def result_simps split: if_splits)

text \<open>A sequence of accesses, each with its own buffer, up to the first failure.\<close>

fun pio_run :: "'d pio_ops \<Rightarrow> 'd \<Rightarrow> (bool \<times> u16 \<times> u8 list \<times> nat) list \<Rightarrow> ('d \<times> u8 list list) result" where
  "pio_run ops d [] = Inr (d, [])"
| "pio_run ops d ((w, a, b, n) # accs) =
     and_then (performKVMExitOperation ops d w a b n) (\<lambda>(d', b').
     and_then (pio_run ops d' accs) (\<lambda>(d'', bs). Inr (d'', b' # bs)))"

section \<open>The contract of a device\<close>

text \<open>
  What the dispatcher needs of a device: every virtual function that returns keeps the device's
  invariant. Then every port access keeps it, and only the addressed bytes of the buffer change.
\<close>

locale pio_device =
  fixes ops :: "'d pio_ops"
    and inv :: "'d \<Rightarrow> bool"
  assumes w8: "inv d \<Longrightarrow> vt_iowrite8 ops d a b8 = Inr d' \<Longrightarrow> inv d'"
    and w16: "inv d \<Longrightarrow> vt_iowrite16 ops d a b16 = Inr d' \<Longrightarrow> inv d'"
    and w32: "inv d \<Longrightarrow> vt_iowrite32 ops d a b32 = Inr d' \<Longrightarrow> inv d'"
    and w64: "inv d \<Longrightarrow> vt_iowrite64 ops d a b64 = Inr d' \<Longrightarrow> inv d'"
    and r8: "inv d \<Longrightarrow> vt_ioread8 ops d a = Inr (d', v8) \<Longrightarrow> inv d'"
    and r16: "inv d \<Longrightarrow> vt_ioread16 ops d a = Inr (d', v16) \<Longrightarrow> inv d'"
    and r32: "inv d \<Longrightarrow> vt_ioread32 ops d a = Inr (d', v32) \<Longrightarrow> inv d'"
    and r64: "inv d \<Longrightarrow> vt_ioread64 ops d a = Inr (d', v64) \<Longrightarrow> inv d'"
begin

lemma perform_inv:
  assumes "inv d" and "performKVMExitOperation ops d is_write address buf len = Inr (d', buf')"
  shows "inv d'"
  using assms
  by (auto simp: performKVMExitOperation_def pio_write_def pio_read_def result_simps split: if_splits
      dest: w8 w16 w32 w64 r8 r16 r32 r64)

lemma perform_buffer:
  assumes "performKVMExitOperation ops d is_write address buf len = Inr (d', buf')"
  shows "length buf' = length buf \<and> (if is_write then buf' = buf else drop len buf' = drop len buf)"
  using assms
  by (auto simp: performKVMExitOperation_def split: if_splits dest: pio_write_buffer pio_read_buffer)

lemma pio_run_inv: "inv d \<Longrightarrow> pio_run ops d accesses = Inr (d', bufs) \<Longrightarrow> inv d'"
proof (induction accesses arbitrary: d bufs)
  case (Cons acc accesses)
  obtain w a b n where acc: "acc = (w, a, b, n)" by (metis prod_cases4)
  from Cons.prems obtain d1 b1 bs where "performKVMExitOperation ops d w a b n = Inr (d1, b1)"
    and rest: "pio_run ops d1 accesses = Inr (d', bs)"
    by (auto simp: acc result_simps)
  with Cons.prems(1) have "inv d1" by (blast intro: perform_inv)
  then show ?case using rest by (rule Cons.IH)
qed simp

end

end
