(* ===== verification/Clock_Prescaler.thy ===== *)
theory Clock_Prescaler
  imports Device_Pio
begin

text \<open>
  The 386EX clock prescaler (src/hardware/i386EXClockPrescaler.hpp and .cpp) and the interface
  \<open>Prescalable\<close> (src/hardware/Prescalable.hpp) of the devices behind it. The register holds
  "divisor - 2"; every write hands the devices the divisor itself, a 16 bit sum that wraps.
  A prescaled device is an element of the list the unit keeps; \<open>setPrescaler\<close> is the virtual
  function, an argument of the write operations.
\<close>

section \<open>State and operations\<close>

record 'p clock_prescaler =
  cp_devices :: "'p list"
  cp_prescaler :: u16

definition prescaler_init :: "'p list \<Rightarrow> 'p clock_prescaler" where
  "prescaler_init ds = \<lparr>cp_devices = ds, cp_prescaler = 0\<rparr>"

definition set_prescalers :: "('p \<Rightarrow> u16 \<Rightarrow> 'p result) \<Rightarrow> 'p clock_prescaler \<Rightarrow> 'p clock_prescaler result" where
  "set_prescalers setPrescaler c =
     and_then (map_result (\<lambda>d. setPrescaler d (cp_prescaler c + 2)) (cp_devices c))
       (\<lambda>ds. Inr (c\<lparr>cp_devices := ds\<rparr>))"

definition prescaler_iowrite8 ::
    "('p \<Rightarrow> u16 \<Rightarrow> 'p result) \<Rightarrow> 'p clock_prescaler \<Rightarrow> u16 \<Rightarrow> u8 \<Rightarrow> 'p clock_prescaler result" where
  "prescaler_iowrite8 setPrescaler c address v =
     set_prescalers setPrescaler
       (c\<lparr>cp_prescaler := (if address AND 1 = 0 then set_lo8 (cp_prescaler c) v
                          else set_hi8 (cp_prescaler c) v)\<rparr>)"

definition prescaler_iowrite16 ::
    "('p \<Rightarrow> u16 \<Rightarrow> 'p result) \<Rightarrow> 'p clock_prescaler \<Rightarrow> u16 \<Rightarrow> u16 \<Rightarrow> 'p clock_prescaler result" where
  "prescaler_iowrite16 setPrescaler c address v = set_prescalers setPrescaler (c\<lparr>cp_prescaler := v\<rparr>)"

definition prescaler_ioread8 :: "'p clock_prescaler \<Rightarrow> u16 \<Rightarrow> u8" where
  "prescaler_ioread8 c address =
     (if address AND 1 = 0 then lo8 (cp_prescaler c) else hi8 (cp_prescaler c))"

definition prescaler_ioread16 :: "'p clock_prescaler \<Rightarrow> u16 \<Rightarrow> u16" where
  "prescaler_ioread16 c address = cp_prescaler c"

definition prescaler_ops :: "('p \<Rightarrow> u16 \<Rightarrow> 'p result) \<Rightarrow> 'p clock_prescaler pio_ops" where
  "prescaler_ops setPrescaler = DevicePio\<lparr>
     vt_iowrite8 := prescaler_iowrite8 setPrescaler,
     vt_iowrite16 := prescaler_iowrite16 setPrescaler,
     vt_ioread8 := (\<lambda>c address. Inr (c, prescaler_ioread8 c address)),
     vt_ioread16 := (\<lambda>c address. Inr (c, prescaler_ioread16 c address))\<rparr>"

section \<open>The contract of a prescaled device\<close>

text \<open>
  A \<open>Prescalable\<close> device has a current divisor (\<open>current\<close>) and an invariant; \<open>setPrescaler\<close> makes
  the argument current and keeps the invariant. From that the unit keeps all its devices at the
  divisor its register stands for.
\<close>

locale prescalable =
  fixes setPrescaler :: "'p \<Rightarrow> u16 \<Rightarrow> 'p result"
    and current :: "'p \<Rightarrow> u16"
    and dev_inv :: "'p \<Rightarrow> bool"
  assumes set_current: "setPrescaler d v = Inr d' \<Longrightarrow> current d' = v"
    and set_inv: "dev_inv d \<Longrightarrow> setPrescaler d v = Inr d' \<Longrightarrow> dev_inv d'"
begin

definition in_step :: "'p clock_prescaler \<Rightarrow> bool" where
  "in_step c \<longleftrightarrow> (\<forall>d \<in> set (cp_devices c). current d = cp_prescaler c + 2 \<and> dev_inv d)"

lemma set_prescalers_in_step:
  assumes "\<forall>d \<in> set (cp_devices c). dev_inv d" and "set_prescalers setPrescaler c = Inr c'"
  shows "in_step c' \<and> cp_prescaler c' = cp_prescaler c \<and> length (cp_devices c') = length (cp_devices c)"
proof -
  from assms(2) obtain ds where ds: "map_result (\<lambda>d. setPrescaler d (cp_prescaler c + 2)) (cp_devices c) = Inr ds"
    and c': "c' = c\<lparr>cp_devices := ds\<rparr>" by (auto simp: set_prescalers_def result_simps)
  have "\<forall>d \<in> set ds. current d = cp_prescaler c + 2 \<and> dev_inv d"
    using map_result_all [OF ds, of "\<lambda>d. current d = cp_prescaler c + 2 \<and> dev_inv d"] assms(1)
    by (blast dest: set_current set_inv)
  then show ?thesis using c' map_result_length [OF ds] by (simp add: in_step_def)
qed

lemma iowrite8_in_step:
  assumes "\<forall>d \<in> set (cp_devices c). dev_inv d" and "prescaler_iowrite8 setPrescaler c address v = Inr c'"
  shows "in_step c' \<and> prescaler_ioread8 c' address = v"
proof -
  from set_prescalers_in_step [OF _ assms(2) [unfolded prescaler_iowrite8_def]] assms(1)
  show ?thesis by (simp add: prescaler_ioread8_def)
qed

lemma iowrite16_in_step:
  assumes "\<forall>d \<in> set (cp_devices c). dev_inv d" and "prescaler_iowrite16 setPrescaler c address v = Inr c'"
  shows "in_step c' \<and> prescaler_ioread16 c' address = v"
proof -
  from set_prescalers_in_step [OF _ assms(2) [unfolded prescaler_iowrite16_def]] assms(1)
  show ?thesis by (simp add: prescaler_ioread16_def)
qed

end

sublocale prescalable \<subseteq> prescaler_device: pio_device "prescaler_ops setPrescaler" "\<lambda>c. in_step c"
  by unfold_locales
    (auto simp: prescaler_ops_def DevicePio_def in_step_def
      dest!: iowrite8_in_step [rotated] iowrite16_in_step [rotated])

end
