(* ===== verification/Interval_Timer.thy ===== *)
theory Interval_Timer
  imports Clock_Prescaler
begin

text \<open>
  The programmable interval timer (src/hardware/Timer.hpp and .cpp): three channels that count
  down from a reload value, a command register and one data register per channel. The code keeps
  no running thread: every access first brings the counters up to date (\<open>resolveTimers\<close>) from the
  time that has passed. The clock is an argument: \<open>now\<close> is the nanosecond count that
  \<open>high_resolution_clock::now()\<close> returns during the call, kept as its 64 bits.
\<close>

section \<open>State\<close>

datatype operating_mode =
    InterruptOnTerminalCount | HardwareRetriggerableOneShot | RateGenerator | SquareWaveGenerator
  | SoftwareTriggeredStrobe | HardwareTriggeredStrobe | RateGenerator_2 | SquareWaveGenerator_2

datatype access_mode = LatchCountValue | LowByteOnly | HighByteOnly | LowByteHighByte

datatype number_format = Binary | BinaryCodedDecimal

datatype byte_select = LowByte | HighByte | StatusByte

record pit_channel =
  lastRecord :: u64
  ch_value :: u16
  ch_latch :: u16
  ch_reload :: u16
  pendingLoad :: bool
  waitingForLoad :: bool
  outputState :: bool
  accessMode :: access_mode
  operatingMode :: operating_mode
  numberFormat :: number_format
  writeByte :: byte_select
  accessByte :: byte_select
  latched :: bool

record pit =
  timerPrescaler :: u16
  pit_state :: "pit_channel list"

definition SourceClockPeriod :: u64 where
  "SourceClockPeriod = 40"

definition pit_channel_init :: "u64 \<Rightarrow> pit_channel" where
  "pit_channel_init now = \<lparr>lastRecord = now, ch_value = 0, ch_latch = 0, ch_reload = 0,
     pendingLoad = False, waitingForLoad = True, outputState = False,
     accessMode = LowByteHighByte, operatingMode = InterruptOnTerminalCount, numberFormat = Binary,
     writeByte = LowByte, accessByte = LowByte, latched = False\<rparr>"

definition pit_init :: "u64 \<Rightarrow> pit" where
  "pit_init now = \<lparr>timerPrescaler = 2, pit_state = replicate 3 (pit_channel_init now)\<rparr>"

section \<open>The command and status bytes\<close>

text \<open>The bit fields of the unions \<open>ChannelCommand\<close> and \<open>ReadBackCommandResult\<close>, low bit first.\<close>

definition operating_modes :: "operating_mode list" where
  "operating_modes = [InterruptOnTerminalCount, HardwareRetriggerableOneShot, RateGenerator,
     SquareWaveGenerator, SoftwareTriggeredStrobe, HardwareTriggeredStrobe, RateGenerator_2,
     SquareWaveGenerator_2]"

definition access_modes :: "access_mode list" where
  "access_modes = [LatchCountValue, LowByteOnly, HighByteOnly, LowByteHighByte]"

definition cmd_numberFormat :: "u8 \<Rightarrow> number_format" where
  "cmd_numberFormat cmd = (if bit cmd 0 then BinaryCodedDecimal else Binary)"

definition cmd_operatingMode :: "u8 \<Rightarrow> operating_mode" where
  "cmd_operatingMode cmd = operating_modes ! unat (drop_bit 1 cmd AND 7)"

definition cmd_accessMode :: "u8 \<Rightarrow> access_mode" where
  "cmd_accessMode cmd = access_modes ! unat (drop_bit 4 cmd AND 3)"

definition cmd_channel :: "u8 \<Rightarrow> nat" where
  "cmd_channel cmd = unat (drop_bit 6 cmd AND 3)"

definition rb_readChannel :: "u8 \<Rightarrow> nat \<Rightarrow> bool" where
  "rb_readChannel cmd i = bit cmd (i + 1)"

definition rb_latchStatus :: "u8 \<Rightarrow> bool" where "rb_latchStatus cmd = bit cmd 4"
definition rb_latchCount :: "u8 \<Rightarrow> bool" where "rb_latchCount cmd = bit cmd 5"

fun number_format_bits :: "number_format \<Rightarrow> u8" where
  "number_format_bits Binary = 0"
| "number_format_bits BinaryCodedDecimal = 1"

fun operating_mode_bits :: "operating_mode \<Rightarrow> u8" where
  "operating_mode_bits InterruptOnTerminalCount = 0"
| "operating_mode_bits HardwareRetriggerableOneShot = 1"
| "operating_mode_bits RateGenerator = 2"
| "operating_mode_bits SquareWaveGenerator = 3"
| "operating_mode_bits SoftwareTriggeredStrobe = 4"
| "operating_mode_bits HardwareTriggeredStrobe = 5"
| "operating_mode_bits RateGenerator_2 = 6"
| "operating_mode_bits SquareWaveGenerator_2 = 7"

fun access_mode_bits :: "access_mode \<Rightarrow> u8" where
  "access_mode_bits LatchCountValue = 0"
| "access_mode_bits LowByteOnly = 1"
| "access_mode_bits HighByteOnly = 2"
| "access_mode_bits LowByteHighByte = 3"

definition status_byte :: "pit_channel \<Rightarrow> u8" where
  "status_byte c =
     number_format_bits (numberFormat c) OR push_bit 1 (operating_mode_bits (operatingMode c))
       OR push_bit 4 (access_mode_bits (accessMode c))
       OR push_bit 6 (of_bool (pendingLoad c \<or> waitingForLoad c))
       OR push_bit 7 (of_bool (outputState c))"

section \<open>Bringing the counters up to date\<close>

definition resolve_ticks :: "u64 \<Rightarrow> pit_channel \<Rightarrow> pit_channel" where
  "resolve_ticks ticks c =
     (if ucast (ch_value c) < ticks then
        let ticks1 = ticks - ucast (ch_value c);
            ticks2 = ticks1 mod (ucast (ch_reload c) + 1)
        in c\<lparr>ch_value := ucast (ucast (ch_reload c) - ticks2), pendingLoad := False\<rparr>
      else c\<lparr>ch_value := ucast (ucast (ch_value c) - ticks)\<rparr>)"

definition resolve_channel :: "u16 \<Rightarrow> u64 \<Rightarrow> pit_channel \<Rightarrow> pit_channel result" where
  "resolve_channel prescale now c =
     (if waitingForLoad c then Inr c
      else let elapsed = now - lastRecord c;
               period = SourceClockPeriod * ucast prescale
           in if period = 0 then Inl DivideByZero
              else Inr (resolve_ticks (elapsed div period) (c\<lparr>lastRecord := now\<rparr>)))"

definition resolveTimers :: "u64 \<Rightarrow> pit \<Rightarrow> pit result" where
  "resolveTimers now p =
     and_then (map_result (resolve_channel (timerPrescaler p) now) (pit_state p))
       (\<lambda>cs. Inr (p\<lparr>pit_state := cs\<rparr>))"

definition pit_setPrescaler :: "u64 \<Rightarrow> pit \<Rightarrow> u16 \<Rightarrow> pit result" where
  "pit_setPrescaler now p v = and_then (resolveTimers now p) (\<lambda>p'. Inr (p'\<lparr>timerPrescaler := v\<rparr>))"

section \<open>The command register\<close>

definition latch_count :: "pit_channel \<Rightarrow> pit_channel" where
  "latch_count c = c\<lparr>ch_latch := ch_value c, latched := True\<rparr>"

definition readback_channel :: "u8 \<Rightarrow> pit_channel \<Rightarrow> pit_channel" where
  "readback_channel cmd c =
     (let c1 = c\<lparr>accessByte :=
                   (if \<not> rb_latchStatus cmd then StatusByte
                    else if accessMode c = HighByteOnly then HighByte else LowByte)\<rparr>
      in if \<not> rb_latchCount cmd then latch_count c1 else c1)"

definition configure_channel :: "u8 \<Rightarrow> pit_channel \<Rightarrow> pit_channel" where
  "configure_channel cmd c =
     (let c1 = c\<lparr>accessMode := cmd_accessMode cmd, operatingMode := cmd_operatingMode cmd,
                 numberFormat := cmd_numberFormat cmd, waitingForLoad := True\<rparr>
      in case cmd_accessMode cmd of
           LowByteHighByte \<Rightarrow> c1\<lparr>accessByte := LowByte, writeByte := LowByte\<rparr>
         | LowByteOnly \<Rightarrow> c1\<lparr>accessByte := LowByte, writeByte := LowByte\<rparr>
         | HighByteOnly \<Rightarrow> c1\<lparr>accessByte := HighByte, writeByte := HighByte\<rparr>
         | LatchCountValue \<Rightarrow> c1)"

definition command_channels :: "u8 \<Rightarrow> pit_channel list \<Rightarrow> pit_channel list" where
  "command_channels cmd cs =
     (if cmd_channel cmd = 3 then
        map (\<lambda>(i, c). if rb_readChannel cmd i then readback_channel cmd c else c) (enumerate 0 cs)
      else if cmd_accessMode cmd = LatchCountValue then
        cs[cmd_channel cmd := latch_count (cs ! cmd_channel cmd)]
      else cs[cmd_channel cmd := configure_channel cmd (cs ! cmd_channel cmd)])"

definition writeCommand :: "u64 \<Rightarrow> pit \<Rightarrow> u8 \<Rightarrow> pit result" where
  "writeCommand now p cmd =
     and_then (resolveTimers now p) (\<lambda>p'. Inr (p'\<lparr>pit_state := command_channels cmd (pit_state p')\<rparr>))"

section \<open>The data registers\<close>

definition finish_load :: "u64 \<Rightarrow> pit_channel \<Rightarrow> pit_channel" where
  "finish_load now c =
     (if waitingForLoad c
      then c\<lparr>waitingForLoad := False, pendingLoad := False, ch_value := ch_reload c, lastRecord := now\<rparr>
      else c)"

definition write_channel :: "u64 \<Rightarrow> u8 \<Rightarrow> pit_channel \<Rightarrow> pit_channel" where
  "write_channel now v c =
     (let c0 = c\<lparr>pendingLoad := True\<rparr>; currentReload = ch_reload c
      in case writeByte c of
           LowByte \<Rightarrow>
             (let c1 = c0\<lparr>ch_reload :=
                  (if numberFormat c = Binary then set_lo8 currentReload v
                   else (currentReload - currentReload mod 100) + ucast v)\<rparr>
              in if accessMode c = LowByteHighByte then c1\<lparr>writeByte := HighByte\<rparr>
                 else finish_load now c1)
         | HighByte \<Rightarrow>
             (let c1 = c0\<lparr>ch_reload :=
                  (if numberFormat c = Binary then set_hi8 currentReload v
                   else 100 * ucast v + currentReload mod 100)\<rparr>;
                  c2 = (if accessMode c = LowByteHighByte then c1\<lparr>writeByte := LowByte\<rparr> else c1)
              in finish_load now c2)
         | StatusByte \<Rightarrow> c0)"

definition writeRegister :: "bool \<Rightarrow> u64 \<Rightarrow> pit \<Rightarrow> nat \<Rightarrow> u8 \<Rightarrow> pit result" where
  "writeRegister ndebug now p timer v =
     and_then (c_assert ndebug (timer < 3)) (\<lambda>_.
       if 3 \<le> timer then Inl OutOfBounds
       else Inr (p\<lparr>pit_state := (pit_state p)[timer := write_channel now v (pit_state p ! timer)]\<rparr>))"

definition read_result :: "u16 \<Rightarrow> pit_channel \<Rightarrow> u8" where
  "read_result v c =
     (case accessByte c of
        LowByte \<Rightarrow> if numberFormat c = Binary then lo8 v else ucast (v mod 100)
      | HighByte \<Rightarrow> if numberFormat c = Binary then hi8 v else ucast (v div 100)
      | StatusByte \<Rightarrow> status_byte c)"

definition read_advance :: "pit_channel \<Rightarrow> pit_channel" where
  "read_advance c =
     (case accessByte c of
        LowByte \<Rightarrow> if accessMode c = LowByteOnly then c\<lparr>latched := False\<rparr> else c\<lparr>accessByte := HighByte\<rparr>
      | HighByte \<Rightarrow>
          (let c1 = c\<lparr>latched := False\<rparr>
           in if accessMode c \<noteq> HighByteOnly then c1\<lparr>accessByte := LowByte\<rparr> else c1)
      | StatusByte \<Rightarrow>
          if accessMode c = HighByteOnly then c\<lparr>accessByte := HighByte\<rparr> else c\<lparr>accessByte := LowByte\<rparr>)"

text \<open>The value is sampled before the counters are brought up to date, as in the code.\<close>

definition readRegister :: "bool \<Rightarrow> u64 \<Rightarrow> pit \<Rightarrow> nat \<Rightarrow> (pit \<times> u8) result" where
  "readRegister ndebug now p timer =
     and_then (c_assert ndebug (timer < 3)) (\<lambda>_.
       if 3 \<le> timer then Inl OutOfBounds
       else let c = pit_state p ! timer; v = (if latched c then ch_latch c else ch_value c)
            in and_then (resolveTimers now p) (\<lambda>p'.
                 let c' = pit_state p' ! timer
                 in Inr (p'\<lparr>pit_state := (pit_state p')[timer := read_advance c']\<rparr>, read_result v c')))"

definition pit_iowrite8 :: "bool \<Rightarrow> u64 \<Rightarrow> pit \<Rightarrow> u16 \<Rightarrow> u8 \<Rightarrow> pit result" where
  "pit_iowrite8 ndebug now p address v =
     (if address AND 3 = 3 then writeCommand now p v
      else writeRegister ndebug now p (unat (address AND 3)) v)"

definition pit_ioread8 :: "bool \<Rightarrow> u64 \<Rightarrow> pit \<Rightarrow> u16 \<Rightarrow> (pit \<times> u8) result" where
  "pit_ioread8 ndebug now p address =
     (if address AND 3 \<noteq> 3 then readRegister ndebug now p (unat (address AND 3)) else Inr (p, 0))"

definition pit_ops :: "bool \<Rightarrow> u64 \<Rightarrow> pit pio_ops" where
  "pit_ops ndebug now = DevicePio\<lparr>
     vt_iowrite8 := pit_iowrite8 ndebug now,
     vt_ioread8 := pit_ioread8 ndebug now\<rparr>"


section \<open>The invariant\<close>

text \<open>
  The byte selectors stay within what the access mode allows, and no channel is ever in the
  pseudo mode \<open>LatchCountValue\<close>.
\<close>

definition channel_inv :: "pit_channel \<Rightarrow> bool" where
  "channel_inv c \<longleftrightarrow> accessMode c \<noteq> LatchCountValue \<and> writeByte c \<noteq> StatusByte \<and>
     (accessMode c = LowByteOnly \<longrightarrow> writeByte c = LowByte \<and> accessByte c \<noteq> HighByte) \<and>
     (accessMode c = HighByteOnly \<longrightarrow> writeByte c = HighByte \<and> accessByte c \<noteq> LowByte)"

definition pit_inv :: "pit \<Rightarrow> bool" where
  "pit_inv p \<longleftrightarrow> length (pit_state p) = 3 \<and> list_all channel_inv (pit_state p)"

text \<open>What a resolution leaves alone: everything but the count, its time stamp and the load flag.\<close>

definition same_setup :: "pit_channel \<Rightarrow> pit_channel \<Rightarrow> bool" where
  "same_setup c c' \<longleftrightarrow> ch_latch c' = ch_latch c \<and> ch_reload c' = ch_reload c \<and>
     waitingForLoad c' = waitingForLoad c \<and> outputState c' = outputState c \<and>
     accessMode c' = accessMode c \<and> operatingMode c' = operatingMode c \<and>
     numberFormat c' = numberFormat c \<and> writeByte c' = writeByte c \<and>
     accessByte c' = accessByte c \<and> latched c' = latched c"

lemma resolve_channel_setup: "resolve_channel ps now c = Inr c' \<Longrightarrow> same_setup c c'"
  by (auto simp: resolve_channel_def resolve_ticks_def same_setup_def Let_def split: if_splits)

lemma same_setup_inv: "same_setup c c' \<Longrightarrow> channel_inv c' = channel_inv c"
  by (simp add: same_setup_def channel_inv_def)

lemma resolveTimers_Inr:
  assumes "resolveTimers now p = Inr p'"
  shows "timerPrescaler p' = timerPrescaler p \<and> length (pit_state p') = length (pit_state p) \<and>
    (\<forall>i < length (pit_state p). resolve_channel (timerPrescaler p) now (pit_state p ! i) = Inr (pit_state p' ! i))"
  using assms by (auto simp: resolveTimers_def result_simps map_result_length map_result_nth)

lemma resolveTimers_inv: "pit_inv p \<Longrightarrow> resolveTimers now p = Inr p' \<Longrightarrow> pit_inv p'"
  by (auto simp: resolveTimers_def result_simps pit_inv_def map_result_length
      elim!: map_result_list_all dest!: resolve_channel_setup simp: same_setup_inv)

lemma readback_channel_inv: "channel_inv c \<Longrightarrow> channel_inv (readback_channel cmd c)"
  by (auto simp: readback_channel_def latch_count_def channel_inv_def Let_def)

lemma configure_channel_inv: "cmd_accessMode cmd \<noteq> LatchCountValue \<Longrightarrow> channel_inv (configure_channel cmd c)"
  by (auto simp: configure_channel_def channel_inv_def Let_def split: access_mode.splits)

lemma latch_count_inv: "channel_inv c \<Longrightarrow> channel_inv (latch_count c)"
  by (simp add: latch_count_def channel_inv_def)

lemma write_channel_inv: "channel_inv c \<Longrightarrow> channel_inv (write_channel now v c)"
  by (auto simp: write_channel_def finish_load_def channel_inv_def Let_def split: byte_select.splits)

lemma read_advance_inv: "channel_inv c \<Longrightarrow> channel_inv (read_advance c)"
  by (cases "accessByte c"; cases "accessMode c") (auto simp: read_advance_def channel_inv_def Let_def)

lemma cmd_channel_less: "cmd_channel cmd < 4"
proof -
  have "drop_bit 6 cmd AND 3 = take_bit 2 (drop_bit 6 cmd)"
    by (simp add: take_bit_eq_mask mask_numeral)
  then show ?thesis by (simp add: cmd_channel_def unsigned_take_bit_eq take_bit_nat_less_exp
      [of 2, simplified])
qed

lemma command_channels_length: "length (command_channels cmd cs) = length cs"
  by (simp add: command_channels_def)

lemma command_channels_nth:
  assumes "i < length cs"
  shows "command_channels cmd cs ! i =
    (if cmd_channel cmd = 3 then if rb_readChannel cmd i then readback_channel cmd (cs ! i) else cs ! i
     else if i \<noteq> cmd_channel cmd then cs ! i
     else if cmd_accessMode cmd = LatchCountValue then latch_count (cs ! i)
     else configure_channel cmd (cs ! i))"
  using assms by (simp add: command_channels_def nth_enumerate_eq nth_list_update)

lemma command_channels_inv: "list_all channel_inv cs \<Longrightarrow> list_all channel_inv (command_channels cmd cs)"
  by (simp add: list_all_length command_channels_nth command_channels_length
      readback_channel_inv latch_count_inv configure_channel_inv)

lemma pit_inv_update:
  "pit_inv p \<Longrightarrow> length cs = length (pit_state p) \<Longrightarrow> list_all channel_inv cs \<Longrightarrow> pit_inv (p\<lparr>pit_state := cs\<rparr>)"
  by (simp add: pit_inv_def)

lemma pit_inv_list: "pit_inv p \<Longrightarrow> list_all channel_inv (pit_state p)"
  by (simp add: pit_inv_def)

lemma pit_inv_length: "pit_inv p \<Longrightarrow> length (pit_state p) = 3"
  by (simp add: pit_inv_def)

lemma pit_inv_nth: "pit_inv p \<Longrightarrow> i < 3 \<Longrightarrow> channel_inv (pit_state p ! i)"
  by (simp add: pit_inv_def list_all_nth)

lemmas pit_inv_intros = pit_inv_update list_all_update command_channels_inv pit_inv_list
  write_channel_inv read_advance_inv pit_inv_nth

lemma writeCommand_inv: "pit_inv p \<Longrightarrow> writeCommand now p cmd = Inr p' \<Longrightarrow> pit_inv p'"
  by (auto simp: writeCommand_def result_simps command_channels_length
      intro!: pit_inv_intros dest: resolveTimers_inv)

lemma writeRegister_inv: "pit_inv p \<Longrightarrow> writeRegister nd now p timer v = Inr p' \<Longrightarrow> pit_inv p'"
  by (auto simp: writeRegister_def result_simps intro!: pit_inv_intros split: if_splits)

lemma readRegister_inv: "pit_inv p \<Longrightarrow> readRegister nd now p timer = Inr (p', b) \<Longrightarrow> pit_inv p'"
  by (auto simp: readRegister_def result_simps Let_def intro!: pit_inv_intros split: if_splits
      dest: resolveTimers_inv)

lemma pit_init_inv: "pit_inv (pit_init now)"
  by (simp add: pit_inv_def pit_init_def pit_channel_init_def channel_inv_def list_all_iff)

interpretation pit_device: pio_device "pit_ops ndebug now" pit_inv for ndebug now
  by unfold_locales
    (auto simp: pit_ops_def DevicePio_def pit_iowrite8_def pit_ioread8_def split: if_splits
      dest: writeCommand_inv writeRegister_inv readRegister_inv)

interpretation pit_prescalable: prescalable "pit_setPrescaler now" timerPrescaler pit_inv for now
proof unfold_locales
  fix d v d'
  assume set: "pit_setPrescaler now d v = Inr d'"
  then obtain d1 where d1: "resolveTimers now d = Inr d1" and d': "d' = d1\<lparr>timerPrescaler := v\<rparr>"
    by (auto simp: pit_setPrescaler_def result_simps)
  then show "timerPrescaler d' = v" by simp
  assume "pit_inv d"
  with d1 have "pit_inv d1" by (rule resolveTimers_inv [rotated])
  with d' show "pit_inv d'" by (simp add: pit_inv_def)
qed

section \<open>Counts as natural numbers\<close>

lemma unat_u16_less: "unat (v :: u16) < 65536"
  using unat_bound [of v] by simp

lemma unat_ucast_u64 [simp]: "unat (ucast (v :: u16) :: u64) = unat v"
  using unat_u16_less [of v] by (simp add: unsigned_ucast_eq take_bit_nat_eq_self_iff)

lemma unat_reload_plus_1: "unat (ucast (v :: u16) + 1 :: u64) = unat v + 1"
  using unat_u16_less [of v] by (simp add: unat_word_ariths)

lemma unat_ucast_u16: "unat (x :: u64) < 65536 \<Longrightarrow> unat (ucast x :: u16) = unat x"
  by (simp add: unsigned_ucast_eq take_bit_nat_eq_self_iff)

lemma resolve_ticks_value:
  "unat (ch_value (resolve_ticks t c)) =
     (if unat t \<le> unat (ch_value c) then unat (ch_value c) - unat t
      else unat (ch_reload c) - (unat t - unat (ch_value c)) mod (unat (ch_reload c) + 1))"
proof (cases "unat t \<le> unat (ch_value c)")
  case True
  then have "t \<le> ucast (ch_value c)" by (simp add: word_le_nat_alt)
  then have "unat (ucast (ch_value c) - t) = unat (ch_value c) - unat t" by (simp add: unat_sub)
  then show ?thesis using True unat_u16_less [of "ch_value c"]
    by (simp add: resolve_ticks_def word_less_nat_alt unat_ucast_u16)
next
  case False
  let ?m = "(unat t - unat (ch_value c)) mod (unat (ch_reload c) + 1)"
  let ?w = "(t - ucast (ch_value c)) mod (ucast (ch_reload c) + 1)"
  have "unat (t - ucast (ch_value c)) = unat t - unat (ch_value c)"
    using False by (subst unat_sub) (simp_all add: word_le_nat_alt)
  then have w: "unat ?w = ?m" by (simp add: unat_mod unat_reload_plus_1)
  have "?m \<le> unat (ch_reload c)" by (simp add: less_Suc_eq_le [symmetric])
  then have "unat (ucast (ch_reload c) - ?w) = unat (ch_reload c) - ?m"
    using w by (subst unat_sub) (simp_all add: word_le_nat_alt)
  then show ?thesis using False unat_u16_less [of "ch_reload c"]
    by (simp add: resolve_ticks_def Let_def word_less_nat_alt unat_ucast_u16)
qed
lemma unat_period: "unat (SourceClockPeriod * ucast (ps :: u16)) = 40 * unat ps"
  using unat_u16_less [of ps] by (simp add: SourceClockPeriod_def unat_word_ariths)
lemma period_zero: "SourceClockPeriod * ucast (ps :: u16) = 0 \<longleftrightarrow> ps = 0"
  using unat_period [of ps] by (metis mult_is_0 unat_eq_0 zero_neq_numeral)

section \<open>Counting\<close>

definition elapsed_ticks :: "u16 \<Rightarrow> u64 \<Rightarrow> u64 \<Rightarrow> nat" where
  "elapsed_ticks ps t0 now = unat (now - t0) div (40 * unat ps)"

lemma resolve_channel_running:
  assumes "\<not> waitingForLoad c" and "ps \<noteq> 0"
  shows "resolve_channel ps now c =
    Inr (resolve_ticks (word_of_nat (elapsed_ticks ps (lastRecord c) now)) (c\<lparr>lastRecord := now\<rparr>))"
proof -
  have "(now - lastRecord c) div (SourceClockPeriod * ucast ps) =
      word_of_nat (unat ((now - lastRecord c) div (SourceClockPeriod * ucast ps)))" by simp
  also have "\<dots> = word_of_nat (elapsed_ticks ps (lastRecord c) now)"
    by (simp only: unat_div unat_period elapsed_ticks_def)
  finally show ?thesis using assms by (simp add: resolve_channel_def Let_def period_zero)
qed

lemma unat_elapsed_ticks: "unat (word_of_nat (elapsed_ticks ps a b) :: u64) = elapsed_ticks ps a b"
proof -
  have "elapsed_ticks ps a b \<le> unat (b - a)" by (simp add: elapsed_ticks_def)
  then have "elapsed_ticks ps a b < 2 ^ 64" using unat_bound [of "b - a"] by simp
  then show ?thesis by (simp add: unat_of_nat)
qed

lemma resolve_ticks_lastRecord [simp]: "lastRecord (resolve_ticks t c) = lastRecord c"
  by (simp add: resolve_ticks_def Let_def)

text \<open>
  C25. The 16-bit and 64-bit arithmetic of resolveTimers computes the reference count: n elapsed ticks
  from value v with reload r give v - n, or r - (n - v) mod (r + 1) after an overflow, and an overflow
  clears the pending load.
\<close>

theorem resolve_counts:
  assumes "\<not> waitingForLoad c" and "ps \<noteq> 0"
  shows "\<exists>c'. resolve_channel ps now c = Inr c' \<and> lastRecord c' = now \<and> same_setup c c' \<and>
    (let n = elapsed_ticks ps (lastRecord c) now; v = unat (ch_value c); r = unat (ch_reload c)
     in unat (ch_value c') = (if n \<le> v then v - n else r - (n - v) mod (r + 1)) \<and>
        pendingLoad c' = (pendingLoad c \<and> n \<le> v))"
proof -
  let ?n = "elapsed_ticks ps (lastRecord c) now"
  let ?c' = "resolve_ticks (word_of_nat ?n) (c\<lparr>lastRecord := now\<rparr>)"
  have eq: "resolve_channel ps now c = Inr ?c'" using assms by (rule resolve_channel_running)
  moreover have "same_setup c ?c'" using eq by (rule resolve_channel_setup)
  moreover have "pendingLoad ?c' = (pendingLoad c \<and> ?n \<le> unat (ch_value c))"
    by (simp add: resolve_ticks_def Let_def word_less_nat_alt unat_elapsed_ticks)
  ultimately show ?thesis by (simp add: Let_def resolve_ticks_value unat_elapsed_ticks)
qed

text \<open>A sequence of accesses, each of which resolves the channel at its own time.\<close>

fun resolve_polls :: "u16 \<Rightarrow> u64 list \<Rightarrow> pit_channel \<Rightarrow> pit_channel result" where
  "resolve_polls ps [] c = Inr c"
| "resolve_polls ps (t # ts) c = and_then (resolve_channel ps t c) (resolve_polls ps ts)"

fun polls_closer_than :: "nat \<Rightarrow> u64 \<Rightarrow> u64 list \<Rightarrow> bool" where
  "polls_closer_than d t0 [] = True"
| "polls_closer_than d t0 (t # ts) = (unat (t - t0) < d \<and> polls_closer_than d t ts)"

lemma ucast_u64_u16 [simp]: "ucast (ucast (v :: u16) :: u64) = v"
  by (rule bit_word_eqI) (simp add: bit_simps)

lemma resolve_ticks_zero: "resolve_ticks 0 c = c"
  by (simp add: resolve_ticks_def)

text \<open>
  C28. Polls closer together than one timer tick leave the count where it is forever: the remainder of
  each elapsed time is dropped when lastRecord is moved.
\<close>

theorem frequent_polling_stops_the_count:
  assumes "\<not> waitingForLoad c" and "ps \<noteq> 0" and "polls_closer_than (40 * unat ps) (lastRecord c) ts"
  shows "resolve_polls ps ts c = Inr (c\<lparr>lastRecord := last (lastRecord c # ts)\<rparr>)"
  using assms
proof (induction ts arbitrary: c)
  case (Cons t ts)
  then have "elapsed_ticks ps (lastRecord c) t = 0" by (simp add: elapsed_ticks_def)
  with Cons.prems have "resolve_channel ps t c = Inr (c\<lparr>lastRecord := t\<rparr>)"
    by (simp add: resolve_channel_running resolve_ticks_zero)
  then show ?case using Cons.IH [of "c\<lparr>lastRecord := t\<rparr>"] Cons.prems by simp
qed simp

theorem frequent_polling_stops_the_count_witness:
  "let c = (pit_channel_init 1000)\<lparr>waitingForLoad := False, ch_value := 9, ch_reload := 9\<rparr>
   in resolve_polls 2 [1079, 1158, 1237] c = Inr (c\<lparr>lastRecord := 1237\<rparr>) \<and>
      map_sum id ch_value (resolve_channel 2 1237 c) = Inr 7"
proof -
  let ?c = "(pit_channel_init 1000)\<lparr>waitingForLoad := False, ch_value := 9, ch_reload := 9\<rparr>"
  have "resolve_polls 2 [1079, 1158, 1237] ?c = Inr (?c\<lparr>lastRecord := 1237\<rparr>)"
    by (subst frequent_polling_stops_the_count) (simp_all add: pit_channel_init_def)
  moreover have "map_sum id ch_value (resolve_channel 2 1237 ?c) = Inr 7"
    by (simp add: resolve_channel_def SourceClockPeriod_def resolve_ticks_def pit_channel_init_def)
  ultimately show ?thesis by (simp add: Let_def)
qed

lemma resolve_one_tick:
  "unat (ch_value (resolve_ticks 1 c)) =
     (if 0 < unat (ch_value c) then unat (ch_value c) - 1 else unat (ch_reload c) - 1 mod (unat (ch_reload c) + 1))"
  by (simp add: resolve_ticks_value)

lemma resolve_ticks_reload [simp]: "ch_reload (resolve_ticks t c) = ch_reload c"
  by (simp add: resolve_ticks_def Let_def)

lemma resolve_ticks_power_reload [simp]: "ch_reload ((resolve_ticks 1 ^^ n) c) = ch_reload c"
  by (induction n) simp_all

lemma resolve_single_ticks:
  assumes "n \<le> unat (ch_value c)"
  shows "unat (ch_value ((resolve_ticks 1 ^^ n) c)) = unat (ch_value c) - n"
  using assms by (induction n) (simp_all add: resolve_ticks_value)

theorem terminal_count_depends_on_polling:
  assumes "ch_value c = 0" and "0 < ch_reload c"
  shows "unat (ch_value (resolve_ticks (ucast (ch_reload c) + 1) c)) = unat (ch_reload c) \<and>
    unat (ch_value ((resolve_ticks 1 ^^ (unat (ch_reload c) + 1)) c)) = unat (ch_reload c) - 1"
proof
  let ?r = "unat (ch_reload c)"
  have r: "0 < ?r" using assms(2) by (simp add: word_less_nat_alt)
  show "unat (ch_value (resolve_ticks (ucast (ch_reload c) + 1) c)) = ?r"
    using assms(1) by (simp add: resolve_ticks_value unat_reload_plus_1)
  let ?c1 = "resolve_ticks 1 c"
  have c1: "unat (ch_value ?c1) = ?r - 1" using assms(1) r by (simp add: resolve_ticks_value)
  have "(resolve_ticks 1 ^^ (?r + 1)) c = (resolve_ticks 1 ^^ Suc (?r - 1)) ?c1"
    using r by (simp add: funpow_Suc_right del: funpow.simps)
  also have "\<dots> = resolve_ticks 1 ((resolve_ticks 1 ^^ (?r - 1)) ?c1)" by simp
  also have "unat (ch_value \<dots>) = ?r - 1"
    using r resolve_single_ticks [of "?r - 1" ?c1] c1 by (simp add: resolve_ticks_value)
  finally show "unat (ch_value ((resolve_ticks 1 ^^ (?r + 1)) c)) = ?r - 1" .
qed

theorem terminal_count_depends_on_polling_witness:
  "let c = (pit_channel_init 0)\<lparr>ch_reload := 10\<rparr> in
     unat (ch_value (resolve_ticks 11 c)) = 10 \<and> unat (ch_value ((resolve_ticks 1 ^^ 11) c)) = 9"
  using terminal_count_depends_on_polling [of "(pit_channel_init 0)\<lparr>ch_reload := 10\<rparr>"]
  by (simp add: pit_channel_init_def Let_def)

lemma resolveTimers_nth_setup:
  "resolveTimers now p = Inr q \<Longrightarrow> pit_inv p \<Longrightarrow> i < 3 \<Longrightarrow> same_setup (pit_state p ! i) (pit_state q ! i)"
  by (auto dest!: resolveTimers_Inr simp: pit_inv_length intro: resolve_channel_setup)

lemma readRegister_Inr:
  assumes "readRegister nd now p timer = Inr (p', b)" and "pit_inv p"
  obtains q where "timer < 3" and "resolveTimers now p = Inr q" and "pit_inv q"
    and "same_setup (pit_state p ! timer) (pit_state q ! timer)"
    and "pit_state p' = (pit_state q)[timer := read_advance (pit_state q ! timer)]"
    and "b = read_result (let c = pit_state p ! timer in if latched c then ch_latch c else ch_value c)
              (pit_state q ! timer)"
proof -
  from assms(1) obtain q where "timer < 3" and "resolveTimers now p = Inr q"
    and "pit_state p' = (pit_state q)[timer := read_advance (pit_state q ! timer)]"
    and "b = read_result (let c = pit_state p ! timer in if latched c then ch_latch c else ch_value c)
              (pit_state q ! timer)"
    by (auto simp: readRegister_def result_simps Let_def split: if_splits)
  then show ?thesis
    using that [of q] resolveTimers_inv [OF assms(2)] resolveTimers_nth_setup [OF _ assms(2)] by blast
qed

theorem read_returns_the_sampled_count:
  assumes "readRegister nd now p timer = Inr (p', b)" and "pit_inv p"
    and "accessByte (pit_state p ! timer) \<noteq> StatusByte"
  shows "b = (let c = pit_state p ! timer in read_result (if latched c then ch_latch c else ch_value c) c)"
proof (rule readRegister_Inr [OF assms(1,2)])
  fix q assume "same_setup (pit_state p ! timer) (pit_state q ! timer)"
    and "b = read_result (let c = pit_state p ! timer in if latched c then ch_latch c else ch_value c)
              (pit_state q ! timer)"
  with assms(3) show ?thesis
    by (cases "accessByte (pit_state p ! timer)") (simp_all add: read_result_def same_setup_def Let_def)
qed

text \<open>One byte of a count, in the channel's format: the decimal one splits it at a hundred.\<close>

fun count_byte :: "number_format \<Rightarrow> byte_select \<Rightarrow> u16 \<Rightarrow> u8" where
  "count_byte Binary LowByte v = lo8 v"
| "count_byte Binary HighByte v = hi8 v"
| "count_byte BinaryCodedDecimal LowByte v = ucast (v mod 100)"
| "count_byte BinaryCodedDecimal HighByte v = ucast (v div 100)"
| "count_byte f StatusByte v = 0"

lemma read_result_count: "accessByte c \<noteq> StatusByte \<Longrightarrow> read_result v c = count_byte (numberFormat c) (accessByte c) v"
  by (cases "accessByte c"; cases "numberFormat c") (simp_all add: read_result_def)

text \<open>A latched channel that is read: the byte returned, and the channel afterwards up to its running count.\<close>

lemma read_latched:
  assumes "readRegister nd t p ch = Inr (p', b)" and "pit_inv p" and "latched (pit_state p ! ch)"
    and "accessByte (pit_state p ! ch) \<noteq> StatusByte"
  shows "b = count_byte (numberFormat (pit_state p ! ch)) (accessByte (pit_state p ! ch)) (ch_latch (pit_state p ! ch)) \<and>
    same_setup (read_advance (pit_state p ! ch)) (pit_state p' ! ch)"
proof (rule readRegister_Inr [OF assms(1,2)])
  fix q
  assume ch: "ch < 3" and q: "pit_inv q" "same_setup (pit_state p ! ch) (pit_state q ! ch)"
    and p': "pit_state p' = (pit_state q)[ch := read_advance (pit_state q ! ch)]"
    and b: "b = read_result (let c = pit_state p ! ch in if latched c then ch_latch c else ch_value c) (pit_state q ! ch)"
  have "same_setup (read_advance (pit_state p ! ch)) (read_advance (pit_state q ! ch))"
    using q(2) by (cases "accessByte (pit_state p ! ch)") (auto simp: read_advance_def same_setup_def Let_def)
  then show ?thesis
    using ch q b assms(3,4) by (simp add: p' pit_inv_length read_result_count same_setup_def Let_def)
qed

text \<open>
  C26. After a counter latch command for a channel with no status byte waiting, the next read returns
  the byte of the count at the time of the command that the channel's byte selector points to, in the
  channel's number format (the decimal one splits the count at 100) and however much later it comes. A
  channel in low-then-high mode with its selector at the low byte returns the high byte of the same
  count to the second read, which releases the latch; every other channel releases it with the first
  read.
\<close>

theorem latched_count_survives:
  assumes inv: "pit_inv p" and ch: "ch < 3"
    and cmd: "cmd_channel cmd = ch" "cmd_accessMode cmd = LatchCountValue"
    and c: "c = pit_state p ! ch" "accessByte c \<noteq> StatusByte"
    and q: "resolveTimers t0 p = Inr q" and v: "v = ch_value (pit_state q ! ch)"
    and run: "writeCommand t0 p cmd = Inr p0" "readRegister nd t1 p0 ch = Inr (p1, b1)"
      "readRegister nd t2 p1 ch = Inr (p2, b2)"
  shows "b1 = count_byte (numberFormat c) (accessByte c) v \<and>
    (if accessMode c = LowByteHighByte \<and> accessByte c = LowByte
     then b2 = count_byte (numberFormat c) HighByte v \<and> latched (pit_state p1 ! ch) \<and>
       \<not> latched (pit_state p2 ! ch) \<and> accessByte (pit_state p2 ! ch) = LowByte
     else \<not> latched (pit_state p1 ! ch))"
proof -
  have p0: "pit_state p0 ! ch = latch_count (pit_state q ! ch)"
    using run(1) q ch cmd pit_inv_length [OF resolveTimers_inv [OF inv q]]
    by (auto simp: writeCommand_def result_simps command_channels_nth)
  have same: "same_setup c (pit_state q ! ch)" unfolding c(1) using q inv ch by (rule resolveTimers_nth_setup)
  have mode: "channel_inv c" using inv ch by (simp add: c(1) pit_inv_def list_all_length)
  have inv0: "pit_inv p0" using inv run(1) by (rule writeCommand_inv)
  have first: "b1 = count_byte (numberFormat c) (accessByte c) v"
      "same_setup (read_advance (latch_count (pit_state q ! ch))) (pit_state p1 ! ch)"
    using read_latched [OF run(2) inv0] same c(2) by (simp_all add: p0 v latch_count_def same_setup_def)
  show ?thesis
  proof (cases "accessMode c = LowByteHighByte \<and> accessByte c = LowByte")
    case True
    then have p1: "latched (pit_state p1 ! ch)" "accessByte (pit_state p1 ! ch) = HighByte" "ch_latch (pit_state p1 ! ch) = v"
        "numberFormat (pit_state p1 ! ch) = numberFormat c" "accessMode (pit_state p1 ! ch) = LowByteHighByte"
      using first(2) same by (simp_all add: latch_count_def read_advance_def same_setup_def v)
    have "pit_inv p1" using inv0 run(2) by (rule readRegister_inv)
    from read_latched [OF run(3) this p1(1)] p1 first(1) True show ?thesis
      by (simp add: read_advance_def same_setup_def)
  next
    case False
    then have "\<not> latched (read_advance (latch_count (pit_state q ! ch)))"
      using same c(2) mode
      by (cases "accessByte c"; cases "accessMode c") (auto simp: latch_count_def read_advance_def same_setup_def channel_inv_def Let_def)
    then show ?thesis using first False by (simp add: same_setup_def)
  qed
qed

lemma resolveTimers_total: "timerPrescaler p \<noteq> 0 \<Longrightarrow> \<exists>q. resolveTimers now p = Inr q"
proof -
  assume ps: "timerPrescaler p \<noteq> 0"
  have "\<exists>c'. resolve_channel (timerPrescaler p) now c = Inr c'" for c
    using ps by (simp add: resolve_channel_def period_zero Let_def)
  then have "\<exists>cs. map_result (resolve_channel (timerPrescaler p) now) (pit_state p) = Inr cs"
    by (intro map_result_total) blast
  then show ?thesis by (auto simp: resolveTimers_def)
qed

lemma data_register_index: "address AND 3 \<noteq> 3 \<Longrightarrow> unat (address AND 3 :: u16) < 3"
proof -
  assume "address AND 3 \<noteq> 3"
  moreover have "address AND 3 \<le> 3" by (rule word_and_le1)
  ultimately have "address AND 3 < 3" by simp
  then show ?thesis by (simp add: word_less_nat_alt)
qed

lemma writeCommand_total:
  assumes "timerPrescaler p \<noteq> 0"
  shows "\<exists>p'. writeCommand now p cmd = Inr p' \<and> timerPrescaler p' = timerPrescaler p"
  using resolveTimers_total [OF assms, of now] resolveTimers_Inr
  by (fastforce simp: writeCommand_def)

lemma writeRegister_total:
  "timer < 3 \<Longrightarrow> \<exists>p'. writeRegister nd now p timer v = Inr p' \<and> timerPrescaler p' = timerPrescaler p"
  by (simp add: writeRegister_def)

lemma readRegister_total:
  assumes "timerPrescaler p \<noteq> 0" and "timer < 3"
  shows "\<exists>p' b. readRegister nd now p timer = Inr (p', b) \<and> timerPrescaler p' = timerPrescaler p"
  using resolveTimers_total [OF assms(1), of now] resolveTimers_Inr assms(2)
  by (fastforce simp: readRegister_def Let_def)

lemma pit_bytes_return:
  assumes "pit_inv p" and "timerPrescaler p \<noteq> 0"
  shows "(\<exists>p'. pit_iowrite8 nd now p address v = Inr p' \<and> timerPrescaler p' = timerPrescaler p) \<and>
    (\<exists>p' b. pit_ioread8 nd now p address = Inr (p', b) \<and> timerPrescaler p' = timerPrescaler p)"
proof (cases "address AND 3 = 3")
  case True
  then show ?thesis
    using assms writeCommand_total [OF assms(2), of now v] by (fastforce simp: pit_iowrite8_def pit_ioread8_def)
next
  case False
  note i = data_register_index [OF this]
  from False show ?thesis
    using writeRegister_total [OF i, of nd now p v] readRegister_total [OF assms(2) i, of nd now]
    by (fastforce simp: pit_iowrite8_def pit_ioread8_def)
qed

text \<open>
  C30. With a non-zero divisor every port access to the timer that is one byte wide returns a result,
  keeps the channels well formed and leaves the divisor; an access of any other width throws the
  runtime_error of DevicePio.
\<close>

theorem pit_accesses_return:
  assumes "pit_inv p" and "timerPrescaler p \<noteq> 0" and "n \<le> length buf"
  shows "if n = 1
    then \<exists>p' buf'. performKVMExitOperation (pit_ops nd now) p is_write address buf n = Inr (p', buf') \<and> pit_inv p' \<and>
      timerPrescaler p' = timerPrescaler p \<and> length buf' = length buf
    else \<exists>msg. performKVMExitOperation (pit_ops nd now) p is_write address buf n = Inl (ThrowRuntimeError msg)"
proof (cases "n = 1")
  case True
  have "\<exists>p' buf'. performKVMExitOperation (pit_ops nd now) p is_write address buf n = Inr (p', buf') \<and>
      timerPrescaler p' = timerPrescaler p"
    using pit_bytes_return [OF assms(1,2), of nd now address "le_get 1 buf"] assms(3) True
    by (auto simp: performKVMExitOperation_def pio_write_def pio_read_def pit_ops_def)
  then show ?thesis using True pit_device.perform_inv [OF assms(1)] pit_device.perform_buffer by fastforce
next
  case False
  then show ?thesis
    using assms(3) by (simp add: performKVMExitOperation_def pio_write_def pio_read_def pit_ops_def DevicePio_def)
qed

lemma resolve_with_zero_divisor:
  assumes "timerPrescaler p = 0" and "\<exists>c \<in> set (pit_state p). \<not> waitingForLoad c"
  shows "resolveTimers now p = Inl DivideByZero"
proof -
  have "map_result (resolve_channel 0 now) (pit_state p) = Inl DivideByZero"
  proof (rule map_result_Inl)
    show "\<exists>c \<in> set (pit_state p). resolve_channel 0 now c = Inl DivideByZero"
      using assms(2) by (auto simp: resolve_channel_def Let_def)
    show "resolve_channel 0 now c = Inl DivideByZero \<or> (\<exists>c'. resolve_channel 0 now c = Inr c')" for c
      by (simp add: resolve_channel_def Let_def)
  qed
  then show ?thesis by (simp add: resolveTimers_def assms(1))
qed

text \<open>
  C29. Writing 0xFFFE to the prescaler makes the divisor wrap to zero, and the next resolution of a
  running channel divides by zero.
\<close>

theorem zero_divisor_traps:
  assumes "prescaler_iowrite16 (pit_setPrescaler now) c address 0xFFFE = Inr c'"
    and "\<forall>p \<in> set (cp_devices c). pit_inv p"
    and "p \<in> set (cp_devices c')" and "\<exists>ch \<in> set (pit_state p). \<not> waitingForLoad ch"
  shows "resolveTimers now' p = Inl DivideByZero"
proof -
  have "timerPrescaler p = 0xFFFE + 2"
    using pit_prescalable.iowrite16_in_step [OF assms(2,1)] assms(3) assms(1)
    by (auto simp: pit_prescalable.in_step_def prescaler_iowrite16_def set_prescalers_def result_simps)
  with assms(4) show ?thesis by (simp add: resolve_with_zero_divisor)
qed

section \<open>Loading\<close>

lemma writeRegister_Inr:
  assumes "writeRegister nd now p timer v = Inr p'"
  shows "timer < 3 \<and> pit_state p' = (pit_state p)[timer := write_channel now v (pit_state p ! timer)]"
  using assms by (auto simp: writeRegister_def result_simps split: if_splits)

lemma configured_channel:
  assumes "pit_inv p" and "writeCommand t0 p cmd = Inr p0" and "cmd_channel cmd = ch" and "ch < 3"
    and "cmd_accessMode cmd \<noteq> LatchCountValue"
  shows "\<exists>c. pit_state p0 ! ch = configure_channel cmd c"
proof -
  obtain q where "resolveTimers t0 p = Inr q" and "pit_state p0 = command_channels cmd (pit_state q)"
    using assms(2) by (auto simp: writeCommand_def result_simps)
  then show ?thesis
    using assms(3-5) pit_inv_length [OF resolveTimers_inv [OF assms(1)]] by (auto simp: command_channels_nth)
qed

theorem two_byte_load_starts_the_channel:
  assumes inv: "pit_inv p" and cfg: "writeCommand t0 p cmd = Inr p0" "cmd_channel cmd = ch" "ch < 3"
      "cmd_accessMode cmd = LowByteHighByte" "cmd_numberFormat cmd = Binary"
    and lo: "writeRegister nd t1 p0 ch (lo8 v) = Inr p1"
    and hi: "writeRegister nd t2 p1 ch (hi8 v) = Inr p2"
  shows "waitingForLoad (pit_state p1 ! ch) \<and>
    (let c = pit_state p2 ! ch in ch_reload c = v \<and> ch_value c = v \<and> lastRecord c = t2 \<and>
       \<not> waitingForLoad c \<and> \<not> pendingLoad c \<and> operatingMode c = cmd_operatingMode cmd)"
proof -
  obtain c where c: "pit_state p0 ! ch = configure_channel cmd c"
    using configured_channel [OF inv cfg(1-3)] cfg(4) by auto
  have len: "length (pit_state p0) = 3" using writeCommand_inv [OF inv cfg(1)] by (rule pit_inv_length)
  have p1: "pit_state p1 = (pit_state p0)[ch := write_channel t1 (lo8 v) (configure_channel cmd c)]"
    using writeRegister_Inr [OF lo] c by simp
  have p2: "pit_state p2 = (pit_state p1)[ch := write_channel t2 (hi8 v) (pit_state p1 ! ch)]"
    using writeRegister_Inr [OF hi] by simp
  show ?thesis
    using len cfg by (simp add: p2 p1 configure_channel_def write_channel_def finish_load_def Let_def)
qed

theorem bcd_byte_taken_as_binary:
  "let c = configure_channel 0x11 (pit_channel_init 0) in
     numberFormat c = BinaryCodedDecimal \<and> accessMode c = LowByteOnly \<and>
     ch_reload (write_channel now 0x12 c) = 18"
  by (simp add: configure_channel_def write_channel_def finish_load_def pit_channel_init_def Let_def
      cmd_accessMode_def cmd_numberFormat_def access_modes_def)

section \<open>Status\<close>

lemma operating_mode_bits_nth: "n < 8 \<Longrightarrow> operating_mode_bits (operating_modes ! n) = word_of_nat n"
proof -
  assume "n < 8"
  then have "n \<in> {0,1,2,3,4,5,6,7}" by auto
  then show ?thesis by (auto simp: operating_modes_def)
qed

lemma access_mode_bits_nth: "n < 4 \<Longrightarrow> access_mode_bits (access_modes ! n) = word_of_nat n"
proof -
  assume "n < 4"
  then have "n \<in> {0,1,2,3}" by auto
  then show ?thesis by (auto simp: access_modes_def)
qed

lemma adjacent_fields:
  "((a :: 'a::len word) AND mask j) OR push_bit j (drop_bit j a AND mask k) = a AND mask (j + k)"
  by (rule bit_word_eqI) (auto simp: bit_simps)

lemma mode_bits_of_cmd:
  "number_format_bits (cmd_numberFormat cmd) OR push_bit 1 (operating_mode_bits (cmd_operatingMode cmd))
     OR push_bit 4 (access_mode_bits (cmd_accessMode cmd)) = cmd AND 0x3F"
proof -
  have m: "(7 :: u8) = mask 3" "(3 :: u8) = mask 2" "(0x3F :: u8) = mask 6" by (simp_all add: mask_numeral)
  have "unat (drop_bit 1 cmd AND 7) < 8" "unat (drop_bit 4 cmd AND 3) < 4"
    using word_and_le1 [of "drop_bit 1 cmd" 7] word_and_le1 [of "drop_bit 4 cmd" 3]
    by (simp_all add: word_le_nat_alt)
  then have "operating_mode_bits (cmd_operatingMode cmd) = drop_bit 1 cmd AND mask 3"
    and "access_mode_bits (cmd_accessMode cmd) = drop_bit 4 cmd AND mask 2"
    by (simp_all add: cmd_operatingMode_def cmd_accessMode_def operating_mode_bits_nth access_mode_bits_nth m(1,2))
  moreover have "number_format_bits (cmd_numberFormat cmd) = cmd AND mask 1"
    by (simp add: cmd_numberFormat_def bit0_cases)
  ultimately have "number_format_bits (cmd_numberFormat cmd) OR push_bit 1 (operating_mode_bits (cmd_operatingMode cmd))
      OR push_bit 4 (access_mode_bits (cmd_accessMode cmd)) =
    (cmd AND mask 1) OR push_bit 1 (drop_bit 1 cmd AND mask 3) OR push_bit 4 (drop_bit 4 cmd AND mask 2)"
    by (simp only:)
  also have "\<dots> = cmd AND mask (1 + 3 + 2)"
    using adjacent_fields [of cmd 1 3] adjacent_fields [of cmd "1 + 3" 2] by (simp only: or.assoc [symmetric]) simp
  finally show ?thesis by (simp add: m)
qed

lemma status_byte_low_bits:
  "status_byte c AND 0x3F = number_format_bits (numberFormat c) OR push_bit 1 (operating_mode_bits (operatingMode c))
     OR push_bit 4 (access_mode_bits (accessMode c))"
  by (cases "numberFormat c"; cases "operatingMode c"; cases "accessMode c"; cases "outputState c";
      cases "pendingLoad c \<or> waitingForLoad c"; simp only: status_byte_def operating_mode_bits.simps
      access_mode_bits.simps number_format_bits.simps of_bool_eq; simp)

lemma status_byte_of_command:
  "numberFormat c = cmd_numberFormat cmd \<Longrightarrow> operatingMode c = cmd_operatingMode cmd \<Longrightarrow>
     accessMode c = cmd_accessMode cmd \<Longrightarrow> status_byte c AND 0x3F = cmd AND 0x3F"
  by (simp only: status_byte_low_bits mode_bits_of_cmd)

lemma status_byte_load_bit: "bit (status_byte c) 6 \<longleftrightarrow> pendingLoad c \<or> waitingForLoad c"
  by (cases "numberFormat c"; cases "operatingMode c"; cases "accessMode c"; cases "outputState c";
      cases "pendingLoad c \<or> waitingForLoad c"; simp only: status_byte_def operating_mode_bits.simps
      access_mode_bits.simps number_format_bits.simps of_bool_eq; simp)

text \<open>
  C27. The status byte latched by a read-back command returns the six mode, access and format bits of
  the channel's configure command, with the null-count bit set before a load.
\<close>

theorem status_reads_back_the_command:
  assumes inv: "pit_inv p" and cfg: "writeCommand t0 p cmd = Inr p0" "cmd_channel cmd = ch" "ch < 3"
      "cmd_accessMode cmd \<noteq> LatchCountValue"
    and rb: "writeCommand t1 p0 rb = Inr p1" "cmd_channel rb = 3" "rb_readChannel rb ch" "\<not> rb_latchStatus rb"
    and rd: "readRegister nd t2 p1 ch = Inr (p2, b)"
  shows "b AND 0x3F = cmd AND 0x3F \<and> bit b 6"
proof -
  obtain c where c: "pit_state p0 ! ch = configure_channel cmd c"
    using configured_channel [OF inv cfg] by blast
  have inv0: "pit_inv p0" using inv cfg(1) by (rule writeCommand_inv)
  have inv1: "pit_inv p1" using inv0 rb(1) by (rule writeCommand_inv)
  obtain q where q: "resolveTimers t1 p0 = Inr q" and p1: "pit_state p1 = command_channels rb (pit_state q)"
    using rb(1) by (auto simp: writeCommand_def result_simps)
  have s0: "same_setup (configure_channel cmd c) (pit_state q ! ch)"
    using resolveTimers_nth_setup [OF q inv0 cfg(3)] c by simp
  have p1': "pit_state p1 ! ch = readback_channel rb (pit_state q ! ch)"
    using p1 rb cfg(3) pit_inv_length [OF resolveTimers_inv [OF inv0 q]] by (simp add: command_channels_nth)
  show ?thesis
  proof (rule readRegister_Inr [OF rd inv1])
    fix r assume "same_setup (pit_state p1 ! ch) (pit_state r ! ch)"
      and "b = read_result (let c = pit_state p1 ! ch in if latched c then ch_latch c else ch_value c)
              (pit_state r ! ch)"
    moreover from this(1) have "accessByte (pit_state r ! ch) = StatusByte"
        "accessMode (pit_state r ! ch) = cmd_accessMode cmd" "waitingForLoad (pit_state r ! ch)"
        "operatingMode (pit_state r ! ch) = cmd_operatingMode cmd"
        "numberFormat (pit_state r ! ch) = cmd_numberFormat cmd"
      using s0 cfg(4) rb(4)
      by (auto simp: p1' same_setup_def readback_channel_def latch_count_def configure_channel_def Let_def
          split: access_mode.splits)
    ultimately show ?thesis
      by (simp add: read_result_def status_byte_load_bit status_byte_of_command)
  qed
qed

section \<open>The theorems at concrete inputs\<close>


definition example_channel :: pit_channel where
  "example_channel = (pit_channel_init 0)\<lparr>waitingForLoad := False, ch_value := 0x1234, ch_reload := 0x1234\<rparr>"

definition example_pit :: pit where
  "example_pit = \<lparr>timerPrescaler = 2, pit_state = [example_channel, pit_channel_init 0, pit_channel_init 0]\<rparr>"

lemma example_pit_inv: "pit_inv example_pit"
  by (simp add: example_pit_def example_channel_def pit_inv_def channel_inv_def pit_channel_init_def)

lemma example_pit_prescaler: "timerPrescaler example_pit = 2"
  by (simp add: example_pit_def)

lemma example_pit_resolved:
  "resolveTimers 800 example_pit =
     Inr (example_pit\<lparr>pit_state := [example_channel\<lparr>ch_value := 0x122A, lastRecord := 800\<rparr>,
       pit_channel_init 0, pit_channel_init 0]\<rparr>)"
  by (simp add: resolveTimers_def resolve_channel_def resolve_ticks_def example_pit_def example_channel_def
      pit_channel_init_def SourceClockPeriod_def)

theorem resolve_counts_witness:
  "\<exists>c'. resolve_channel 2 800 example_channel = Inr c' \<and> unat (ch_value c') = 0x122A \<and> lastRecord c' = 800"
  using resolve_counts [of example_channel 2 800]
  by (auto simp: example_channel_def pit_channel_init_def elapsed_ticks_def Let_def)

theorem read_returns_the_sampled_count_witness:
  "\<exists>p'. readRegister False 800 example_pit 0 = Inr (p', 0x34)"
proof -
  obtain p' b where r: "readRegister False 800 example_pit 0 = Inr (p', b)"
    by (simp add: readRegister_def example_pit_resolved Let_def)
  have "b = 0x34"
    using read_returns_the_sampled_count [OF r example_pit_inv]
    by (simp add: example_pit_def example_channel_def pit_channel_init_def read_result_def lo8_def)
  with r show ?thesis by blast
qed

theorem latched_count_survives_witness:
  "\<exists>p0 p1 p2. writeCommand 800 example_pit 0x00 = Inr p0 \<and>
     readRegister False 5000 p0 0 = Inr (p1, 0x2A) \<and> readRegister False 9000 p1 0 = Inr (p2, 0x12)"
proof -
  have cmd: "cmd_channel 0 = 0" "cmd_accessMode 0 = LatchCountValue"
    by (simp_all add: cmd_channel_def cmd_accessMode_def access_modes_def)
  have start: "accessMode (pit_state example_pit ! 0) = LowByteHighByte"
    "numberFormat (pit_state example_pit ! 0) = Binary" "accessByte (pit_state example_pit ! 0) = LowByte"
    by (simp_all add: example_pit_def example_channel_def pit_channel_init_def)
  obtain p0 where p0: "writeCommand 800 example_pit 0 = Inr p0" and ps0: "timerPrescaler p0 = 2"
    using writeCommand_total [of example_pit 800 0] by (auto simp: example_pit_prescaler)
  have inv0: "pit_inv p0" using example_pit_inv p0 by (rule writeCommand_inv)
  obtain p1 lo where p1: "readRegister False 5000 p0 0 = Inr (p1, lo)" and ps1: "timerPrescaler p1 = 2"
    using readRegister_total [of p0 0] ps0 by fastforce
  obtain p2 hi where p2: "readRegister False 9000 p1 0 = Inr (p2, hi)"
    using readRegister_total [of p1 0] ps1 by fastforce
  have "lo = 0x2A \<and> hi = 0x12"
    using latched_count_survives [OF example_pit_inv _ cmd refl _ example_pit_resolved refl p0 p1 p2] start
    by (simp add: example_pit_def lo8_def hi8_def)
  with p0 p1 p2 show ?thesis by blast
qed

theorem pit_accesses_return_witness:
  "(\<exists>p' buf. performKVMExitOperation (pit_ops False 800) example_pit True 0x43 [0x34] 1 = Inr (p', buf) \<and> pit_inv p') \<and>
   (\<exists>msg. performKVMExitOperation (pit_ops False 800) example_pit False 0x40 [0, 0] 2 = Inl (ThrowRuntimeError msg))"
proof -
  have ps: "timerPrescaler example_pit \<noteq> 0" by (simp add: example_pit_prescaler)
  note access = pit_accesses_return [OF example_pit_inv ps, where nd = False and now = 800]
  show ?thesis
    using access [of 1 "[0x34]" True "0x43"] access [of 2 "[0, 0]" False "0x40"] by auto
qed

theorem zero_divisor_traps_witness:
  "\<exists>c'. prescaler_iowrite16 (pit_setPrescaler 800) (prescaler_init [example_pit]) 0xF804 0xFFFE = Inr c' \<and>
     (\<forall>p \<in> set (cp_devices c'). resolveTimers 1600 p = Inl DivideByZero)"
proof -
  obtain p where p: "pit_setPrescaler 800 example_pit (0xFFFE + 2) = Inr p"
    and run: "\<exists>ch \<in> set (pit_state p). \<not> waitingForLoad ch"
    by (simp add: pit_setPrescaler_def example_pit_resolved example_channel_def)
  have c': "prescaler_iowrite16 (pit_setPrescaler 800) (prescaler_init [example_pit]) 0xF804 0xFFFE =
      Inr \<lparr>cp_devices = [p], cp_prescaler = 0xFFFE\<rparr>"
    using p by (simp add: prescaler_iowrite16_def set_prescalers_def prescaler_init_def)
  show ?thesis
    using c' zero_divisor_traps [OF c', of p 1600] run example_pit_inv by (simp add: prescaler_init_def)
qed

theorem two_byte_load_starts_the_channel_witness:
  "\<exists>p0 p1 p2. writeCommand 800 example_pit 0x74 = Inr p0 \<and> writeRegister False 900 p0 1 0xCD = Inr p1 \<and>
     writeRegister False 1000 p1 1 0xAB = Inr p2 \<and> waitingForLoad (pit_state p1 ! 1) \<and>
     ch_value (pit_state p2 ! 1) = 0xABCD \<and> \<not> waitingForLoad (pit_state p2 ! 1)"
proof -
  have cmd: "cmd_channel 0x74 = 1" "cmd_accessMode 0x74 = LowByteHighByte" "cmd_numberFormat 0x74 = Binary"
    by (simp_all add: cmd_channel_def cmd_accessMode_def access_modes_def cmd_numberFormat_def)
  have b: "lo8 0xABCD = 0xCD" "hi8 0xABCD = 0xAB" by (simp_all add: lo8_def hi8_def)
  obtain p0 where p0: "writeCommand 800 example_pit 0x74 = Inr p0"
    by (simp add: writeCommand_def example_pit_resolved)
  obtain p1 where p1: "writeRegister False 900 p0 1 (lo8 0xABCD) = Inr p1"
    by (simp add: writeRegister_def)
  obtain p2 where p2: "writeRegister False 1000 p1 1 (hi8 0xABCD) = Inr p2"
    by (simp add: writeRegister_def)
  show ?thesis
    using two_byte_load_starts_the_channel [OF example_pit_inv p0 cmd(1) _ cmd(2,3) p1 p2] p0 p1 p2
    by (simp add: b Let_def)
qed

theorem status_reads_back_the_command_witness:
  "\<exists>p0 p1 p2 b. writeCommand 800 example_pit 0x34 = Inr p0 \<and> writeCommand 900 p0 0xE2 = Inr p1 \<and>
     readRegister False 1000 p1 0 = Inr (p2, b) \<and> b AND 0x3F = 0x34 \<and> bit b 6"
proof -
  have cmd: "cmd_channel 0x34 = 0" "cmd_accessMode 0x34 \<noteq> LatchCountValue" "cmd_channel 0xE2 = 3"
    "rb_readChannel 0xE2 0" "\<not> rb_latchStatus 0xE2"
    by (simp_all add: cmd_channel_def cmd_accessMode_def access_modes_def rb_readChannel_def rb_latchStatus_def)
  obtain p0 where p0: "writeCommand 800 example_pit 0x34 = Inr p0" and ps0: "timerPrescaler p0 = 2"
    using writeCommand_total [of example_pit 800 "0x34"] by (auto simp: example_pit_prescaler)
  have inv0: "pit_inv p0" using example_pit_inv p0 by (rule writeCommand_inv)
  obtain p1 where p1: "writeCommand 900 p0 0xE2 = Inr p1" and ps1: "timerPrescaler p1 = 2"
    using writeCommand_total [of p0] ps0 by fastforce
  obtain p2 b where p2: "readRegister False 1000 p1 0 = Inr (p2, b)"
    using readRegister_total [of p1 0] ps1 by fastforce
  show ?thesis
    using status_reads_back_the_command [OF example_pit_inv p0 cmd(1) _ cmd(2) p1 cmd(3,4,5) p2] p0 p1 p2
    by auto
qed

end
