(* ===== verification/Chip_Select_Unit.thy ===== *)
theory Chip_Select_Unit
  imports Device_Pio
begin

text \<open>
  The 386EX chip select unit (src/hardware/ChipSelectUnit.hpp and .cpp): two 32 bit registers
  that the C++ code overlays with half words and bit fields, the two address comparators, and the
  16 bit register interface. The bit fields are read off the registers by bit number, in the
  little-endian layout of the unions. What \<open>Debug\<close> prints is a list of values.
\<close>

section \<open>State\<close>

record csu =
  addressRegister :: u32
  maskRegister :: u32

datatype cycle_type = Memory | IO

datatype csu_register = AddressLowWord | AddressHighWord | AddressMaskLowWord | AddressMaskHighWord

definition HardwareMask :: u32 where
  "HardwareMask = 0x03FFF800"

definition csu_cycleType :: "csu \<Rightarrow> cycle_type" where
  "csu_cycleType c = (if bit (addressRegister c) 8 then Memory else IO)"

definition csu_enable :: "csu \<Rightarrow> bool" where
  "csu_enable c = bit (maskRegister c) 0"

definition csu_waitStates :: "csu \<Rightarrow> u32" where
  "csu_waitStates c = addressRegister c AND 0x1F"

definition csu_default :: csu where
  "csu_default = \<lparr>addressRegister = 0, maskRegister = 0\<rparr>"

definition csu_init :: "u16 \<Rightarrow> u16 \<Rightarrow> u16 \<Rightarrow> u16 \<Rightarrow> csu" where
  "csu_init addressHigh addressLow maskHigh maskLow =
     \<lparr>addressRegister = set_hi16 (set_lo16 0 addressLow) addressHigh,
      maskRegister = set_hi16 (set_lo16 0 maskLow) maskHigh\<rparr>"

section \<open>Operations\<close>

definition selectsMemoryAddress :: "csu \<Rightarrow> u32 \<Rightarrow> bool" where
  "selectsMemoryAddress c address =
     (if csu_cycleType c \<noteq> Memory then False
      else let m = NOT (maskRegister c) AND HardwareMask
           in address AND m = addressRegister c AND m)"

definition selectsIOAddress :: "csu \<Rightarrow> u16 \<Rightarrow> bool" where
  "selectsIOAddress c address =
     (if csu_cycleType c \<noteq> IO then False
      else let m = (ucast (drop_bit 10 (NOT (maskRegister c) AND HardwareMask)) :: u16);
               csuAddress = (ucast (drop_bit 10 (addressRegister c AND HardwareMask)) :: u16)
           in address AND m = csuAddress AND m)"

text \<open>
  The switch on \<open>address & 0x7\<close> has no label for the odd offsets: a write there is ignored and a
  read returns all ones.
\<close>

definition csu_register_of :: "u16 \<Rightarrow> csu_register option" where
  "csu_register_of address =
     (let r = address AND 0x7 in
      if r = 0 then Some AddressLowWord
      else if r = 2 then Some AddressHighWord
      else if r = 4 then Some AddressMaskLowWord
      else if r = 6 then Some AddressMaskHighWord
      else None)"

fun csu_set :: "csu_register \<Rightarrow> u16 \<Rightarrow> csu \<Rightarrow> csu" where
  "csu_set AddressLowWord v c = c\<lparr>addressRegister := set_lo16 (addressRegister c) v\<rparr>"
| "csu_set AddressHighWord v c = c\<lparr>addressRegister := set_hi16 (addressRegister c) v\<rparr>"
| "csu_set AddressMaskLowWord v c = c\<lparr>maskRegister := set_lo16 (maskRegister c) v\<rparr>"
| "csu_set AddressMaskHighWord v c = c\<lparr>maskRegister := set_hi16 (maskRegister c) v\<rparr>"

fun csu_get :: "csu_register \<Rightarrow> csu \<Rightarrow> u16" where
  "csu_get AddressLowWord c = lo16 (addressRegister c)"
| "csu_get AddressHighWord c = hi16 (addressRegister c)"
| "csu_get AddressMaskLowWord c = lo16 (maskRegister c)"
| "csu_get AddressMaskHighWord c = hi16 (maskRegister c)"

definition csu_iowrite16 :: "csu \<Rightarrow> u16 \<Rightarrow> u16 \<Rightarrow> csu" where
  "csu_iowrite16 c address v = (case csu_register_of address of Some r \<Rightarrow> csu_set r v c | None \<Rightarrow> c)"

definition csu_ioread16 :: "csu \<Rightarrow> u16 \<Rightarrow> u16" where
  "csu_ioread16 c address = (case csu_register_of address of Some r \<Rightarrow> csu_get r c | None \<Rightarrow> 0xFFFF)"

definition csu_ops :: "csu pio_ops" where
  "csu_ops = DevicePio\<lparr>
     vt_iowrite16 := (\<lambda>c address v. Inr (csu_iowrite16 c address v)),
     vt_ioread16 := (\<lambda>c address. Inr (c, csu_ioread16 c address))\<rparr>"

section \<open>The listing of a unit\<close>

text \<open>A build with assertions lists the unit after every write, under the number that the address selects.\<close>

datatype csu_line = DeviceName string | AddressRegister u32 | MaskRegister u32 | MatchesMemory bool | Enabled bool
  | WaitStates u32 | AddressComponent u32 | MaskComponent u32

definition csu_Debug :: "string \<Rightarrow> csu \<Rightarrow> csu_line list" where
  "csu_Debug deviceName c =
     [DeviceName deviceName, AddressRegister (addressRegister c), MaskRegister (maskRegister c),
      MatchesMemory (csu_cycleType c = Memory), Enabled (csu_enable c), WaitStates (csu_waitStates c)] @
     (if csu_cycleType c = Memory
      then [AddressComponent (addressRegister c AND HardwareMask), MaskComponent (NOT (maskRegister c) AND HardwareMask)]
      else [AddressComponent (drop_bit 10 (addressRegister c AND HardwareMask)),
            MaskComponent (drop_bit 10 (NOT (maskRegister c) AND HardwareMask))])"

fun decimal :: "nat \<Rightarrow> string" where
  "decimal n = (if n < 10 then [char_of (48 + n)] else decimal (n div 10) @ [char_of (48 + n mod 10)])"

declare decimal.simps [simp del]

definition csu_write_listing :: "bool \<Rightarrow> csu \<Rightarrow> u16 \<Rightarrow> u16 \<Rightarrow> csu_line list" where
  "csu_write_listing ndebug c address v =
     (if ndebug then []
      else csu_Debug (decimal (unat (drop_bit 3 (address AND 0x78)))) (csu_iowrite16 c address v))"

section \<open>The registers\<close>

lemma csu_get_set: "csu_get r (csu_set r' v c) = (if r = r' then v else csu_get r c)"
  by (cases r; cases r'; simp)

definition same_csu_register :: "u16 \<Rightarrow> u16 \<Rightarrow> bool" where
  "same_csu_register a b = (csu_register_of a = csu_register_of b)"

interpretation csu_registers: register_file csu_ioread16 "\<lambda>a v c. csu_iowrite16 c a v" "\<lambda>c. True"
    "\<lambda>a. csu_register_of a \<noteq> None" same_csu_register
  by unfold_locales
    (auto simp: csu_iowrite16_def csu_ioread16_def same_csu_register_def csu_get_set split: option.splits)

interpretation csu_device: pio_device csu_ops "\<lambda>c. True"
  by unfold_locales auto


section \<open>The comparators, bit by bit\<close>

lemma HardwareMask_bit: "bit HardwareMask n \<longleftrightarrow> 11 \<le> n \<and> n < 26"
proof -
  have "HardwareMask = mask 26 AND NOT (mask 11)" by (simp add: HardwareMask_def mask_numeral)
  then have "bit HardwareMask n \<longleftrightarrow> bit (mask 26 AND NOT (mask 11) :: u32) n" by simp
  also have "\<dots> \<longleftrightarrow> 11 \<le> n \<and> n < 26" by (auto simp: bit_simps)
  finally show ?thesis .
qed

lemma masked_eq_iff:
  "(a :: 'a::len word) AND m = b AND m \<longleftrightarrow> (\<forall>n. bit m n \<longrightarrow> bit a n = bit b n)"
  by (auto simp: bit_eq_iff bit_simps dest: bit_imp_le_length)

lemma memory_select_iff:
  "selectsMemoryAddress c address \<longleftrightarrow> csu_cycleType c = Memory \<and>
     (\<forall>n. 11 \<le> n \<and> n < 26 \<and> \<not> bit (maskRegister c) n \<longrightarrow> bit address n = bit (addressRegister c) n)"
  by (auto simp: selectsMemoryAddress_def Let_def masked_eq_iff bit_simps HardwareMask_bit)

lemma io_select_iff:
  "selectsIOAddress c address \<longleftrightarrow> csu_cycleType c = IO \<and>
     (\<forall>n. 1 \<le> n \<and> n < 16 \<and> \<not> bit (maskRegister c) (n + 10) \<longrightarrow>
        bit address n = bit (addressRegister c) (n + 10))"
  by (auto simp: selectsIOAddress_def Let_def masked_eq_iff bit_simps HardwareMask_bit add.commute)

section \<open>What a unit selects\<close>

text \<open>
  C40. A unit selects a memory address when it is in memory mode and bits 11 to 25 that are not masked
  agree with its address register, and an I/O address likewise over bits 1 to 15.
\<close>

theorem chip_select_compares_unmasked_bits:
  "(selectsMemoryAddress c a \<longleftrightarrow> csu_cycleType c = Memory \<and>
      (\<forall>n. 11 \<le> n \<and> n < 26 \<and> \<not> bit (maskRegister c) n \<longrightarrow> bit a n = bit (addressRegister c) n)) \<and>
   (selectsIOAddress c p \<longleftrightarrow> csu_cycleType c = IO \<and>
      (\<forall>n. 1 \<le> n \<and> n < 16 \<and> \<not> bit (maskRegister c) (n + 10) \<longrightarrow> bit p n = bit (addressRegister c) (n + 10)))"
  by (simp only: memory_select_iff io_select_iff simp_thms)

theorem chip_select_compares_unmasked_bits_witness:
  "selectsMemoryAddress (csu_init 0x0340 0x0100 0x0007 0xFC01) 0x3400800 \<longleftrightarrow>
     (\<forall>n. 11 \<le> n \<and> n < 26 \<and> \<not> bit (maskRegister (csu_init 0x0340 0x0100 0x0007 0xFC01)) n \<longrightarrow>
        bit (0x3400800 :: u32) n = bit (addressRegister (csu_init 0x0340 0x0100 0x0007 0xFC01)) n)"
proof -
  have "bit (0x3400100 :: u32) 8"
  proof -
    have "(0x3400100 :: u32) AND 2 ^ 8 \<noteq> 0" by simp
    then show ?thesis using and_exp_eq_0_iff_not_bit by blast
  qed
  moreover have "addressRegister (csu_init 0x0340 0x0100 0x0007 0xFC01) = 0x3400100"
    by (simp add: csu_init_def set_hi16_def set_lo16_def mask_numeral)
  ultimately have "csu_cycleType (csu_init 0x0340 0x0100 0x0007 0xFC01) = Memory" by (simp add: csu_cycleType_def)
  then show ?thesis
    using chip_select_compares_unmasked_bits [of "csu_init 0x0340 0x0100 0x0007 0xFC01" "0x3400800" 0] by simp
qed

text \<open>The two components that the listing shows are what the comparators use.\<close>

theorem listing_shows_the_comparison:
  assumes "AddressComponent x \<in> set (csu_Debug nm c)" and "MaskComponent m \<in> set (csu_Debug nm c)"
  shows "(csu_cycleType c = Memory \<longrightarrow> selectsMemoryAddress c a = (a AND m = x AND m)) \<and>
    (csu_cycleType c = IO \<longrightarrow> selectsIOAddress c p = (ucast p AND m = x AND m))"
proof (cases "csu_cycleType c")
  case Memory
  then have "x = addressRegister c AND HardwareMask" "m = NOT (maskRegister c) AND HardwareMask"
    using assms by (auto simp: csu_Debug_def)
  then show ?thesis using Memory by (auto simp: memory_select_iff masked_eq_iff bit_simps HardwareMask_bit)
next
  case IO
  then have "x = drop_bit 10 (addressRegister c AND HardwareMask)" "m = drop_bit 10 (NOT (maskRegister c) AND HardwareMask)"
    using assms by (auto simp: csu_Debug_def)
  then show ?thesis using IO by (auto simp: io_select_iff masked_eq_iff bit_simps HardwareMask_bit add.commute)
qed

theorem listing_shows_the_comparison_witness:
  "selectsIOAddress (csu_init 0x0008 0x0000 0x0000 0x0001) 0x200 =
     ((ucast (0x200 :: u16) :: u32) AND 0xFFFE = 0x200 AND 0xFFFE)"
proof -
  let ?c = "csu_init 0x0008 0x0000 0x0000 0x0001"
  have r: "addressRegister ?c = 0x80000" "maskRegister ?c = 1"
    by (simp_all add: csu_init_def set_hi16_def set_lo16_def mask_numeral)
  have "(0x80000 :: u32) AND 2 ^ 8 = 0" by simp
  then have "\<not> bit (0x80000 :: u32) 8" using and_exp_eq_0_iff_not_bit by blast
  then have io: "csu_cycleType ?c = IO" by (simp add: csu_cycleType_def r)
  have "drop_bit 10 (0x80000 AND 0x03FFF800 :: u32) = 0x200" "drop_bit 10 (NOT 1 AND 0x03FFF800 :: u32) = 0xFFFE"
    by code_simp+
  then have "AddressComponent 0x200 \<in> set (csu_Debug [] ?c)" "MaskComponent 0xFFFE \<in> set (csu_Debug [] ?c)"
    unfolding csu_Debug_def io r HardwareMask_def by simp_all
  from listing_shows_the_comparison [OF this] io show ?thesis by blast
qed

text \<open>The number in the heading is the unit's: the registers of unit \<open>i\<close> start at \<open>0xF400 + 8 * i\<close>.\<close>

theorem listing_names_the_unit:
  assumes "i < 8" and "off < 8"
  shows "hd (csu_write_listing False c (0xF400 + 8 * word_of_nat i + word_of_nat off) v) = DeviceName (decimal i)"
proof -
  have "list_all (\<lambda>i. list_all (\<lambda>off. unat (drop_bit 3 ((0xF400 + 8 * word_of_nat i + word_of_nat off :: u16) AND 0x78)) = i) [0..<8]) [0..<8]"
    by code_simp
  then have "unat (drop_bit 3 ((0xF400 + 8 * word_of_nat i + word_of_nat off :: u16) AND 0x78)) = i"
    using assms by (simp add: list_all_iff)
  then show ?thesis by (simp add: csu_write_listing_def csu_Debug_def)
qed

theorem listing_names_the_unit_witness:
  "hd (csu_write_listing False csu_default 0xF43A 0) = DeviceName (decimal 7)"
  using listing_names_the_unit [of 7 2 csu_default 0] by simp

text \<open>
  The comparators do not look at the enable bit: a unit selects the same addresses when it is
  disabled.
\<close>

theorem disabled_unit_selects_the_same:
  "\<not> csu_enable (c\<lparr>maskRegister := maskRegister c AND NOT 1\<rparr>) \<and>
   selectsMemoryAddress (c\<lparr>maskRegister := maskRegister c AND NOT 1\<rparr>) a = selectsMemoryAddress c a \<and>
   selectsIOAddress (c\<lparr>maskRegister := maskRegister c AND NOT 1\<rparr>) p = selectsIOAddress c p"
proof -
  have b: "bit (maskRegister c AND - 2) n = bit (maskRegister c) n" if "0 < n" for n
    using that by (auto simp: bit_and_iff bit_minus_2_iff dest: bit_imp_possible_bit)
  have "\<not> bit (maskRegister c AND NOT 1) 0" by (simp add: bit_simps)
  then show ?thesis by (simp add: csu_enable_def memory_select_iff io_select_iff csu_cycleType_def b cong: conj_cong imp_cong)
qed

text \<open>The upper chip select unit, with the values \<open>main\<close> gives it, selects every memory address.\<close>

theorem upper_chip_select_selects_all_memory:
  "selectsMemoryAddress (csu_init 0xFFFF 0xFF6F 0xFFFF 0xFFFF) a"
proof -
  have m: "maskRegister (csu_init 0xFFFF 0xFF6F 0xFFFF 0xFFFF) = 0xFFFFFFFF"
    and r: "addressRegister (csu_init 0xFFFF 0xFF6F 0xFFFF 0xFFFF) = 0xFFFFFF6F"
    by (simp_all add: csu_init_def set_hi16_def set_lo16_def mask_numeral)
  have "(0xFFFFFF6F :: u32) AND 2 ^ 8 \<noteq> 0" by simp
  then have "bit (0xFFFFFF6F :: u32) 8" using and_exp_eq_0_iff_not_bit by blast
  moreover have "NOT (0xFFFFFFFF :: u32) = 0" by code_simp
  ultimately show ?thesis
    by (simp only: selectsMemoryAddress_def csu_cycleType_def m r Let_def) simp
qed

theorem chip_select_registers_read_last_write:
  assumes "csu_register_of a \<noteq> None"
  shows "csu_ioread16 (fold (\<lambda>(b, v) c. csu_iowrite16 c b v) ws c) a =
    (case find (\<lambda>(b, v). same_csu_register b a) (rev ws) of Some (b, v) \<Rightarrow> v | None \<Rightarrow> csu_ioread16 c a)"
  using csu_registers.rd_fold_wr [where ws = ws and a = a] assms by simp

end
