(* ===== verification/Hex_Display.thy ===== *)
theory Hex_Display
  imports Device_Pio
begin

text \<open>
  The hex display (src/hardware/HexDisplay.hpp and .cpp) prints what is written to it. Its state
  is the list of the codes printed so far, each with the width of the access; reads are those of
  the base class, which throw.
\<close>

datatype hex_code = HexCode nat nat

type_synonym hex_display = "hex_code list"

definition hex_iowrite8 :: "hex_display \<Rightarrow> u16 \<Rightarrow> u8 \<Rightarrow> hex_display" where
  "hex_iowrite8 h address v = h @ [HexCode 1 (unat v)]"

definition hex_iowrite16 :: "hex_display \<Rightarrow> u16 \<Rightarrow> u16 \<Rightarrow> hex_display" where
  "hex_iowrite16 h address v = h @ [HexCode 2 (unat v)]"

definition hex_iowrite32 :: "hex_display \<Rightarrow> u16 \<Rightarrow> u32 \<Rightarrow> hex_display" where
  "hex_iowrite32 h address v = h @ [HexCode 4 (unat v)]"

definition hex_iowrite64 :: "hex_display \<Rightarrow> u16 \<Rightarrow> u64 \<Rightarrow> hex_display" where
  "hex_iowrite64 h address v = h @ [HexCode 8 (unat v)]"

definition hex_ops :: "hex_display pio_ops" where
  "hex_ops = DevicePio\<lparr>
     vt_iowrite8 := (\<lambda>h address v. Inr (hex_iowrite8 h address v)),
     vt_iowrite16 := (\<lambda>h address v. Inr (hex_iowrite16 h address v)),
     vt_iowrite32 := (\<lambda>h address v. Inr (hex_iowrite32 h address v)),
     vt_iowrite64 := (\<lambda>h address v. Inr (hex_iowrite64 h address v))\<rparr>"

text \<open>Every printed code fits the width it was printed with.\<close>

definition hex_inv :: "hex_display \<Rightarrow> bool" where
  "hex_inv h \<longleftrightarrow> (\<forall>c \<in> set h. case c of HexCode n v \<Rightarrow> n \<in> {1, 2, 4, 8} \<and> v < 256 ^ n)"

interpretation hex_device: pio_device hex_ops hex_inv
proof -
  have "unat (b :: u8) < 256" "unat (w :: u16) < 65536" "unat (d :: u32) < 4294967296"
    "unat (q :: u64) < 18446744073709551616" for b w d q
    using unat_bound [of b] unat_bound [of w] unat_bound [of d] unat_bound [of q] by simp_all
  then show "pio_device hex_ops hex_inv"
    by unfold_locales
      (auto simp: hex_ops_def DevicePio_def hex_inv_def hex_iowrite8_def hex_iowrite16_def
        hex_iowrite32_def hex_iowrite64_def)
qed

end
