(* ===== verification/Rtc_DS12887.thy ===== *)
theory Rtc_DS12887
  imports Device_Pio "HOL-Library.Signed_Division"
begin

text \<open>
  The real time clock DS12887 (src/hardware/DS12887.hpp and .cpp): an index register that selects
  one of 128 registers, of which the first fourteen and the century are the clock, its alarm and
  its control registers, and the others 114 bytes of battery backed RAM. The time is not kept by
  the device: every read asks the C library, so the broken-down local time is an argument. The
  fields of \<open>struct tm\<close> are C integers; what \<open>localtime\<close> documents of their ranges is the predicate
  \<open>tm_ok\<close>.
\<close>

section \<open>State\<close>

record rtc =
  secondsAlarm :: u8
  minutesAlarm :: u8
  hoursAlarm :: u8
  regA :: u8
  regB :: u8
  regC :: u8
  regD :: u8
  selectedRegister :: u8
  rtc_ram :: "u8 list"

datatype rtc_register =
    Seconds | SecondsAlarm | Minutes | MinutesAlarm | Hours | HoursAlarm | Weekday | Day | Month | Year
  | RegA | RegB | RegC | RegD | Century | Ram nat

text \<open>
  The labels of the two switches. The default label covers the RAM; its index is computed as in
  the code, from the selected register's number, and checked against the size of the array.
\<close>

definition rtc_register_of :: "u8 \<Rightarrow> rtc_register" where
  "rtc_register_of r =
     (if r = 0 then Seconds else if r = 1 then SecondsAlarm else if r = 2 then Minutes
      else if r = 3 then MinutesAlarm else if r = 4 then Hours else if r = 5 then HoursAlarm
      else if r = 6 then Weekday else if r = 7 then Day else if r = 8 then Month
      else if r = 9 then Year else if r = 10 then RegA else if r = 11 then RegB
      else if r = 12 then RegC else if r = 13 then RegD else if r = 0x32 then Century
      else Ram (unat (r - 14)))"

record tm =
  tm_sec :: int
  tm_min :: int
  tm_hour :: int
  tm_mday :: int
  tm_mon :: int
  tm_year :: int
  tm_wday :: int

text \<open>
  The ranges of a broken-down time, for the years 1900 to 9999: \<open>localtime\<close> goes further, but the century register
  has two decimal digits.
\<close>

definition tm_ok :: "tm \<Rightarrow> bool" where
  "tm_ok t \<longleftrightarrow> 0 \<le> tm_sec t \<and> tm_sec t \<le> 60 \<and> 0 \<le> tm_min t \<and> tm_min t \<le> 59 \<and>
     0 \<le> tm_hour t \<and> tm_hour t \<le> 23 \<and> 1 \<le> tm_mday t \<and> tm_mday t \<le> 31 \<and>
     0 \<le> tm_mon t \<and> tm_mon t \<le> 11 \<and> 0 \<le> tm_year t \<and> tm_year t < 8100 \<and>
     0 \<le> tm_wday t \<and> tm_wday t \<le> 6"

section \<open>Construction and destruction\<close>

text \<open>
  The constructor reads up to 114 bytes of \<open>roms/cmos.bin\<close> over a zeroed array; a missing file
  leaves it zero. The destructor writes the whole array back.
\<close>

definition rtc_init :: "u8 list option \<Rightarrow> rtc" where
  "rtc_init nvram = \<lparr>secondsAlarm = 0, minutesAlarm = 0, hoursAlarm = 0, regA = 0, regB = 0, regC = 0,
     regD = 0x80, selectedRegister = 0,
     rtc_ram = (case nvram of None \<Rightarrow> replicate 114 0
                | Some f \<Rightarrow> take 114 f @ replicate (114 - length f) 0)\<rparr>"

definition rtc_nvram :: "rtc \<Rightarrow> u8 list" where
  "rtc_nvram d = rtc_ram d"

section \<open>Operations\<close>

definition DataMode :: "rtc \<Rightarrow> bool" where "DataMode d = bit (regB d) 2"
definition twentyFourHourTime :: "rtc \<Rightarrow> bool" where "twentyFourHourTime d = bit (regB d) 1"

definition mapToBCD :: "u8 \<Rightarrow> u8" where
  "mapToBCD v = push_bit 4 (v div 10) + ((v mod 10) AND 0x0F)"

text \<open>What a write stores in an alarm register, for the mask of the tens digit of each field.\<close>

definition alarm_value :: "bool \<Rightarrow> u8 \<Rightarrow> u8 \<Rightarrow> u8 \<Rightarrow> u8" where
  "alarm_value data_mode tens binary v =
     (if \<not> data_mode then (v AND 0x0F) + 10 * (drop_bit 4 v AND tens) else v AND binary)"

definition rtc_iowrite8 :: "rtc \<Rightarrow> u16 \<Rightarrow> u8 \<Rightarrow> rtc result" where
  "rtc_iowrite8 d address v =
     (if \<not> bit address 0 then Inr (d\<lparr>selectedRegister := v AND 0x7F\<rparr>)
      else case rtc_register_of (selectedRegister d) of
        SecondsAlarm \<Rightarrow> Inr (d\<lparr>secondsAlarm := alarm_value (DataMode d) 0x07 0x3F v\<rparr>)
      | MinutesAlarm \<Rightarrow> Inr (d\<lparr>minutesAlarm := alarm_value (DataMode d) 0x07 0x3F v\<rparr>)
      | HoursAlarm \<Rightarrow>
          (let h = alarm_value (DataMode d) 0x03 0x1F v
           in Inr (d\<lparr>hoursAlarm := (if \<not> twentyFourHourTime d then h + (if v AND 0x80 \<noteq> 0 then 12 else 0) else h)\<rparr>))
      | RegA \<Rightarrow> Inr (d\<lparr>regA := v AND 0x7F\<rparr>)
      | RegB \<Rightarrow> Inr (d\<lparr>regB := v\<rparr>)
      | Ram i \<Rightarrow> if i < length (rtc_ram d) then Inr (d\<lparr>rtc_ram := (rtc_ram d)[i := v]\<rparr>) else Inl OutOfBounds
      | _ \<Rightarrow> Inr d)"

text \<open>
  \<open>coded\<close> is the choice between BCD and binary. The hour in twelve hour mode is the hour modulo
  twelve with bit 7 set from noon on.
\<close>

definition coded :: "rtc \<Rightarrow> u8 \<Rightarrow> u8" where
  "coded d v = (if \<not> DataMode d then mapToBCD v else v)"

definition coded_hour :: "rtc \<Rightarrow> int \<Rightarrow> u8" where
  "coded_hour d h =
     (if twentyFourHourTime d then coded d (word_of_int h)
      else coded d (word_of_int (h smod 12)) + (if h sdiv 12 \<noteq> 0 then 0x80 else 0))"

definition rtc_ioread8 :: "tm \<Rightarrow> rtc \<Rightarrow> u16 \<Rightarrow> u8 result" where
  "rtc_ioread8 t d address =
     (if \<not> bit address 0 then Inr 0
      else case rtc_register_of (selectedRegister d) of
        Seconds \<Rightarrow> Inr (coded d (word_of_int (tm_sec t)))
      | SecondsAlarm \<Rightarrow> Inr (coded d (secondsAlarm d))
      | Minutes \<Rightarrow> Inr (coded d (word_of_int (tm_min t)))
      | MinutesAlarm \<Rightarrow> Inr (coded d (minutesAlarm d))
      | Hours \<Rightarrow> Inr (coded_hour d (tm_hour t))
      | HoursAlarm \<Rightarrow> Inr (coded_hour d (uint (hoursAlarm d)))
      | Weekday \<Rightarrow> Inr (word_of_int (tm_wday t + 1))
      | Day \<Rightarrow> Inr (coded d (word_of_int (tm_mday t)))
      | Month \<Rightarrow> Inr (coded d (word_of_int (tm_mon t + 1)))
      | Year \<Rightarrow> Inr (coded d (word_of_int (tm_year t smod 100)))
      | Century \<Rightarrow> Inr (mapToBCD (word_of_int ((tm_year t + 1900) sdiv 100)))
      | RegA \<Rightarrow> Inr (regA d)
      | RegB \<Rightarrow> Inr (regB d)
      | RegC \<Rightarrow> Inr (regC d)
      | RegD \<Rightarrow> Inr (regD d)
      | Ram i \<Rightarrow> if i < length (rtc_ram d) then Inr (rtc_ram d ! i) else Inl OutOfBounds)"

definition rtc_ops :: "tm \<Rightarrow> rtc pio_ops" where
  "rtc_ops t = DevicePio\<lparr>
     vt_iowrite8 := rtc_iowrite8,
     vt_ioread8 := (\<lambda>d address. and_then (rtc_ioread8 t d address) (\<lambda>v. Inr (d, v)))\<rparr>"


section \<open>Every access stays in bounds\<close>

definition rtc_inv :: "rtc \<Rightarrow> bool" where
  "rtc_inv d \<longleftrightarrow> length (rtc_ram d) = 114 \<and> selectedRegister d < 0x80 \<and> regA d < 0x80 \<and>
     regC d = 0 \<and> regD d = 0x80"

lemma rtc_init_inv: "rtc_inv (rtc_init nvram)"
  by (cases nvram) (simp_all add: rtc_inv_def rtc_init_def)

lemma and_7F_less: "(v AND 0x7F :: u8) < 0x80"
proof -
  have "v AND 0x7F \<le> 0x7F" by (rule word_and_le1)
  then show ?thesis by (rule le_less_trans) simp
qed

lemma ram_index:
  assumes "rtc_register_of r = Ram i"
  shows "i = unat r - 14 \<and> 14 \<le> unat r"
proof -
  have "r \<notin> {0, 1, 2, 3, 4, 5, 6, 7, 8, 9, 10, 11, 12, 13}"
    using assms by (auto simp: rtc_register_of_def)
  then have r: "14 \<le> unat r"
  proof (rule contrapos_np)
    assume "\<not> 14 \<le> unat r"
    then show "r \<in> {0, 1, 2, 3, 4, 5, 6, 7, 8, 9, 10, 11, 12, 13}"
      by (simp add: word_unat_eq_iff) presburger
  qed
  then have "unat (r - 14) = unat r - 14" by (subst unat_sub) (simp_all add: word_le_nat_alt)
  moreover have "i = unat (r - 14)" using assms by (auto simp: rtc_register_of_def split: if_splits)
  ultimately show ?thesis using r by simp
qed

lemma ram_index_in_bounds: "rtc_inv d \<Longrightarrow> rtc_register_of (selectedRegister d) = Ram i \<Longrightarrow> i < length (rtc_ram d)"
  using ram_index [of "selectedRegister d" i] by (auto simp: rtc_inv_def word_less_nat_alt)

lemma rtc_iowrite8_inv: "rtc_inv d \<Longrightarrow> rtc_iowrite8 d address v = Inr d' \<Longrightarrow> rtc_inv d'"
  by (auto simp: rtc_iowrite8_def rtc_inv_def and_7F_less Let_def split: if_splits rtc_register.splits)

lemma rtc_accesses_return:
  assumes "rtc_inv d"
  shows "(\<exists>d'. rtc_iowrite8 d address v = Inr d' \<and> rtc_inv d') \<and> (\<exists>b. rtc_ioread8 t d address = Inr b)"
proof -
  have "\<exists>d'. rtc_iowrite8 d address v = Inr d'"
    using ram_index_in_bounds [OF assms]
    by (auto simp: rtc_iowrite8_def Let_def split: rtc_register.splits)
  moreover have "\<exists>b. rtc_ioread8 t d address = Inr b"
    using ram_index_in_bounds [OF assms] by (auto simp: rtc_ioread8_def split: rtc_register.splits)
  ultimately show ?thesis using rtc_iowrite8_inv [OF assms] by blast
qed

interpretation rtc_device: pio_device "rtc_ops t" rtc_inv for t
  by unfold_locales (auto simp: rtc_ops_def DevicePio_def result_simps dest: rtc_iowrite8_inv)

text \<open>
  C15. Every port access to the clock that is one byte wide returns, indexes the RAM array inside its
  114 bytes, and keeps the RAM size and the selected register in range; an access of any other width
  throws the runtime_error of DevicePio.
\<close>

theorem rtc_accesses_in_bounds:
  assumes "rtc_inv d" and "n \<le> length buf"
  shows "if n = 1
    then \<exists>d' buf'. performKVMExitOperation (rtc_ops t) d is_write address buf n = Inr (d', buf') \<and> rtc_inv d' \<and>
      length buf' = length buf
    else \<exists>msg. performKVMExitOperation (rtc_ops t) d is_write address buf n = Inl (ThrowRuntimeError msg)"
proof (cases "n = 1")
  case True
  have "\<exists>r. performKVMExitOperation (rtc_ops t) d is_write address buf n = Inr r"
    using rtc_accesses_return [OF assms(1), of address "le_get 1 buf" t] assms(2) True
    by (auto simp: performKVMExitOperation_def pio_write_def pio_read_def rtc_ops_def)
  then show ?thesis using True rtc_device.perform_inv [OF assms(1)] rtc_device.perform_buffer by fastforce
next
  case False
  then show ?thesis
    using assms(2) by (simp add: performKVMExitOperation_def pio_write_def pio_read_def rtc_ops_def DevicePio_def)
qed

section \<open>The RAM\<close>

text \<open>An indexed access: the index register at an even port, then the data at the odd one.\<close>

definition rtc_write_reg :: "u8 \<Rightarrow> u8 \<Rightarrow> rtc \<Rightarrow> rtc result" where
  "rtc_write_reg r v d = and_then (rtc_iowrite8 d 0x70 r) (\<lambda>d'. rtc_iowrite8 d' 0x71 v)"

definition rtc_read_reg :: "tm \<Rightarrow> u8 \<Rightarrow> rtc \<Rightarrow> u8 result" where
  "rtc_read_reg t r d = and_then (rtc_iowrite8 d 0x70 r) (\<lambda>d'. rtc_ioread8 t d' 0x71)"

lemma rtc_select: "rtc_iowrite8 d 0x70 r = Inr (d\<lparr>selectedRegister := r AND 0x7F\<rparr>)"
  by (simp add: rtc_iowrite8_def)

lemma rtc_select_inv: "rtc_inv d \<Longrightarrow> rtc_inv (d\<lparr>selectedRegister := r AND 0x7F\<rparr>)"
  by (simp add: rtc_inv_def and_7F_less)

definition rtc_peek :: "tm \<Rightarrow> rtc \<Rightarrow> u8 \<Rightarrow> u8" where
  "rtc_peek t d r = (case rtc_read_reg t r d of Inr v \<Rightarrow> v | Inl _ \<Rightarrow> 0)"

definition rtc_poke :: "u8 \<Rightarrow> u8 \<Rightarrow> rtc \<Rightarrow> rtc" where
  "rtc_poke r v d = (case rtc_write_reg r v d of Inr d' \<Rightarrow> d' | Inl _ \<Rightarrow> d)"

definition is_ram :: "u8 \<Rightarrow> bool" where
  "is_ram r = (case rtc_register_of (r AND 0x7F) of Ram i \<Rightarrow> True | _ \<Rightarrow> False)"

definition same_rtc_register :: "u8 \<Rightarrow> u8 \<Rightarrow> bool" where
  "same_rtc_register a b \<longleftrightarrow> a AND 0x7F = b AND 0x7F"

lemma is_ram_register:
  assumes "is_ram r"
  shows "rtc_register_of (r AND 0x7F) = Ram (unat (r AND 0x7F) - 14)"
    and "unat (r AND 0x7F) - 14 < 114" and "14 \<le> unat (r AND 0x7F)"
proof -
  obtain i where i: "rtc_register_of (r AND 0x7F) = Ram i"
    using assms by (auto simp: is_ram_def split: rtc_register.splits)
  have "unat (r AND 0x7F) < 0x80" using and_7F_less [of r] by (simp add: word_less_nat_alt)
  then show "rtc_register_of (r AND 0x7F) = Ram (unat (r AND 0x7F) - 14)"
    and "unat (r AND 0x7F) - 14 < 114" and "14 \<le> unat (r AND 0x7F)"
    using ram_index [OF i] i by simp_all
qed

lemma rtc_write_reg_total:
  assumes "rtc_inv d"
  shows "\<exists>d'. rtc_write_reg r v d = Inr d' \<and> rtc_inv d'"
proof -
  let ?d = "d\<lparr>selectedRegister := r AND 0x7F\<rparr>"
  have inv: "rtc_inv ?d" using assms by (rule rtc_select_inv)
  have "\<exists>d'. rtc_iowrite8 ?d 0x71 v = Inr d'"
    using ram_index_in_bounds [OF inv] by (auto simp: rtc_iowrite8_def Let_def split: rtc_register.splits)
  then show ?thesis
    using rtc_iowrite8_inv [OF inv] by (auto simp: rtc_write_reg_def rtc_select)
qed

lemma rtc_poke_ram:
  assumes "rtc_inv d" and "is_ram r"
  shows "rtc_ram (rtc_poke r v d) = (rtc_ram d)[unat (r AND 0x7F) - 14 := v]"
  using is_ram_register [OF assms(2)] assms(1)
  by (simp add: rtc_poke_def rtc_write_reg_def rtc_select rtc_iowrite8_def rtc_inv_def)

lemma rtc_poke_other: "\<not> is_ram r \<Longrightarrow> rtc_ram (rtc_poke r v d) = rtc_ram d"
  by (cases "rtc_register_of (r AND 0x7F)")
    (simp_all add: rtc_poke_def rtc_write_reg_def rtc_select rtc_iowrite8_def is_ram_def Let_def)

lemma rtc_peek_ram:
  assumes "rtc_inv d" and "is_ram r"
  shows "rtc_peek t d r = rtc_ram d ! (unat (r AND 0x7F) - 14)"
  using is_ram_register [OF assms(2)] assms(1)
  by (simp add: rtc_peek_def rtc_read_reg_def rtc_select rtc_ioread8_def rtc_inv_def)

lemma rtc_poke_inv: "rtc_inv d \<Longrightarrow> rtc_inv (rtc_poke r v d)"
  using rtc_write_reg_total [of d r v] by (auto simp: rtc_poke_def)

lemma ram_indices_differ:
  assumes "is_ram a" and "is_ram b" and "a AND 0x7F \<noteq> b AND 0x7F"
  shows "unat (a AND 0x7F) - 14 \<noteq> unat (b AND 0x7F) - 14"
proof -
  have "unat (a AND 0x7F) \<noteq> unat (b AND 0x7F)" using assms(3) by (simp add: word_unat_eq_iff)
  then show ?thesis using is_ram_register(3) [OF assms(1)] is_ram_register(3) [OF assms(2)] by linarith
qed

interpretation rtc_memory: register_file "rtc_peek t" rtc_poke rtc_inv is_ram same_rtc_register for t
proof unfold_locales
  fix d :: rtc and a b v :: u8
  assume d: "rtc_inv d"
  show "rtc_inv (rtc_poke b v d)" using d by (rule rtc_poke_inv)
  assume a: "is_ram a"
  note peek = rtc_peek_ram [OF rtc_poke_inv [OF d] a] rtc_peek_ram [OF d a]
  show "rtc_peek t (rtc_poke b v d) a = v" if same: "same_rtc_register b a"
  proof -
    have b: "is_ram b" using a same by (simp add: is_ram_def same_rtc_register_def)
    show ?thesis using same is_ram_register(2) [OF a] d
      by (simp add: peek rtc_poke_ram [OF d b] same_rtc_register_def rtc_inv_def)
  qed
  show "rtc_peek t (rtc_poke b v d) a = rtc_peek t d a" if other: "\<not> same_rtc_register b a"
  proof (cases "is_ram b")
    case True
    then show ?thesis
      using ram_indices_differ [OF True a] other by (simp add: peek rtc_poke_ram [OF d] same_rtc_register_def)
  next
    case False
    then show ?thesis by (simp add: peek rtc_poke_other)
  qed
qed

section \<open>BCD\<close>

definition bcd_digits :: "u8 \<Rightarrow> nat \<times> nat" where
  "bcd_digits v = (unat v div 16, unat v mod 16)"

lemma mapToBCD_digits:
  assumes "unat v < 100"
  shows "bcd_digits (mapToBCD v) = (unat v div 10, unat v mod 10)"
proof -
  have lo: "(v mod 10) AND 0x0F = v mod 10"
  proof -
    have small: "unat v mod 10 < 16" using mod_less_divisor [of 10 "unat v"] by linarith
    have "(v mod 10) AND 0x0F = take_bit 4 (v mod 10)" by (simp add: take_bit_eq_mask mask_numeral)
    also have "\<dots> = v mod 10"
      using small by (simp add: word_unat_eq_iff unsigned_take_bit_eq unat_mod take_bit_nat_eq_self_iff)
    finally show ?thesis .
  qed
  have hi: "unat (push_bit 4 (v div 10)) = 16 * (unat v div 10)"
  proof -
    have "push_bit 4 (v div 10) = 16 * (v div 10)" by (simp add: push_bit_eq_mult)
    moreover have "16 * (unat v div 10) < 256" using assms by simp
    ultimately show ?thesis by (simp add: unat_word_ariths unat_div)
  qed
  have "unat (mapToBCD v) = 16 * (unat v div 10) + unat v mod 10"
    unfolding mapToBCD_def lo using assms by (simp add: unat_word_ariths hi unat_mod)
  then show ?thesis by (simp add: bcd_digits_def)
qed

text \<open>The number a BCD byte stands for, and the condition that both its digits are decimal.\<close>

definition bcd_value :: "u8 \<Rightarrow> nat" where
  "bcd_value v = 10 * fst (bcd_digits v) + snd (bcd_digits v)"

definition bcd_ok :: "u8 \<Rightarrow> bool" where
  "bcd_ok v \<longleftrightarrow> fst (bcd_digits v) \<le> 9 \<and> snd (bcd_digits v) \<le> 9"

lemma mapToBCD_value: "unat v < 100 \<Longrightarrow> bcd_ok (mapToBCD v) \<and> bcd_value (mapToBCD v) = unat v"
  by (simp add: bcd_ok_def bcd_value_def mapToBCD_digits) arith

lemma unat_small_int: "0 \<le> i \<Longrightarrow> i < 256 \<Longrightarrow> unat (word_of_int i :: u8) = nat i"
  by (simp only: unat_eq_nat_uint) (simp add: unsigned_of_int take_bit_int_eq_self)

text \<open>The clock registers and the number each stands for.\<close>

fun time_field :: "tm \<Rightarrow> rtc_register \<Rightarrow> int option" where
  "time_field t Seconds = Some (tm_sec t)"
| "time_field t Minutes = Some (tm_min t)"
| "time_field t Hours = Some (tm_hour t)"
| "time_field t Weekday = Some (tm_wday t + 1)"
| "time_field t Day = Some (tm_mday t)"
| "time_field t Month = Some (tm_mon t + 1)"
| "time_field t Year = Some (tm_year t mod 100)"
| "time_field t Century = Some ((tm_year t + 1900) div 100)"
| "time_field t r = None"

text \<open>
  How a driver reads a register: in the data mode that is set, the century always in BCD, and in twelve hour
  mode the hour from the low seven bits, with twelve standing for zero, and bit 7 for the afternoon.
\<close>

definition driver_number :: "rtc \<Rightarrow> rtc_register \<Rightarrow> u8 \<Rightarrow> nat" where
  "driver_number d f v = (if DataMode d \<and> f \<noteq> Century then unat v else bcd_value v)"

definition driver_reads :: "rtc \<Rightarrow> rtc_register \<Rightarrow> u8 \<Rightarrow> nat" where
  "driver_reads d f v =
     (if f = Hours \<and> \<not> twentyFourHourTime d
      then driver_number d f (v AND 0x7F) mod 12 + (if bit v 7 then 12 else 0)
      else driver_number d f v)"

lemma smod_nonneg: "0 \<le> a \<Longrightarrow> 0 < b \<Longrightarrow> a smod b = (a :: int) mod b"
  by (simp add: signed_modulo_int_def signed_divide_int_def sgn_if minus_div_mult_eq_mod)

lemma sdiv_nonneg: "0 \<le> a \<Longrightarrow> 0 < b \<Longrightarrow> a sdiv b = (a :: int) div b"
  by (simp add: signed_divide_int_def sgn_if)

lemma rtc_read_selected:
  "rtc_read_reg t r d = rtc_ioread8 t (d\<lparr>selectedRegister := r AND 0x7F\<rparr>) 0x71"
  by (simp add: rtc_read_reg_def rtc_select)

lemma bcd_digits_inject: "bcd_digits a = bcd_digits b \<Longrightarrow> a = b"
proof -
  assume "bcd_digits a = bcd_digits b"
  then have "unat a div 16 = unat b div 16" and "unat a mod 16 = unat b mod 16"
    by (simp_all add: bcd_digits_def)
  then have "unat a = unat b" by (metis div_mult_mod_eq)
  then show "a = b" by (simp add: word_unat_eq_iff)
qed

lemma small_weekday: "0 \<le> i \<Longrightarrow> i < 10 \<Longrightarrow> mapToBCD (word_of_int i) = word_of_int i"
proof -
  assume i: "0 \<le> i" "i < 10"
  then have "unat (word_of_int i :: u8) = nat i" by (simp add: unat_small_int)
  then have "bcd_digits (mapToBCD (word_of_int i)) = bcd_digits (word_of_int i)"
    using i by (simp add: mapToBCD_digits) (simp add: bcd_digits_def)
  then show ?thesis by (rule bcd_digits_inject)
qed

text \<open>The twenty four hours of twelve hour mode, in both data modes.\<close>

lemma twelve_hour_reading:
  assumes "\<not> twentyFourHourTime d" and "0 \<le> h" and "h < 24"
  shows "driver_reads d Hours (coded_hour d h) = nat h"
proof -
  have all: "\<forall>n \<in> set [0 ..< 24].
      (let v = mapToBCD (word_of_int (int n smod 12)) + (if int n sdiv 12 \<noteq> 0 then 0x80 else 0);
           b = word_of_int (int n smod 12) + (if int n sdiv 12 \<noteq> 0 then 0x80 else 0 :: u8) in
       bcd_value (v AND 0x7F) mod 12 + (if bit v 7 then 12 else 0) = n \<and>
       unat (b AND 0x7F) mod 12 + (if bit b 7 then 12 else 0) = n)"
    by code_simp
  have "nat h \<in> set [0 ..< 24]" using assms(2,3) by simp
  from bspec [OF all this] show ?thesis
    using assms by (auto simp: driver_reads_def driver_number_def coded_hour_def coded_def Let_def split: if_splits)
qed

lemma direct_reading:
  assumes "0 \<le> i" and "i < 100"
  shows "driver_number d f (if DataMode d \<and> f \<noteq> Century then word_of_int i else mapToBCD (word_of_int i)) = nat i"
  using mapToBCD_value [of "word_of_int i"] assms by (simp add: driver_number_def unat_small_int)

text \<open>
  C36. In each of the four combinations of BCD or binary data with 12 or 24 hour mode, a driver that
  decodes a time or date register by the mode bits of register B gets the field of the host's local
  time; the century is BCD in every mode.
\<close>

theorem clock_reads_the_local_time:
  assumes "tm_ok t" and "rtc_register_of (r AND 0x7F) = f" and "time_field t f = Some i"
  shows "\<exists>v. rtc_read_reg t r d = Inr v \<and> driver_reads d f v = nat i"
proof (cases "f = Hours \<and> \<not> twentyFourHourTime d")
  case True
  have "twentyFourHourTime (d\<lparr>selectedRegister := r AND 0x7F\<rparr>) = twentyFourHourTime d"
    "coded_hour (d\<lparr>selectedRegister := r AND 0x7F\<rparr>) = coded_hour d"
    by (simp_all add: twentyFourHourTime_def coded_hour_def coded_def DataMode_def fun_eq_iff)
  then show ?thesis
    using True assms twelve_hour_reading [of d i] by (auto simp: rtc_read_selected rtc_ioread8_def tm_ok_def)
next
  case False
  have i: "0 \<le> i" "i < 100" using assms(1,3) by (cases f; auto simp: tm_ok_def)+
  have "rtc_read_reg t r d = Inr (if DataMode d \<and> f \<noteq> Century then word_of_int i else mapToBCD (word_of_int i))"
    using assms False by (cases f)
      (auto simp: rtc_read_selected rtc_ioread8_def coded_hour_def coded_def DataMode_def twentyFourHourTime_def
        tm_ok_def smod_nonneg sdiv_nonneg small_weekday)
  moreover have "driver_reads d f v = driver_number d f v" for v
    using False by (auto simp: driver_reads_def)
  ultimately show ?thesis using direct_reading [OF i] by simp
qed

section \<open>The alarm registers\<close>

lemma u8_div_16_less: "unat (v :: u8) div 16 < 16"
  using unat_bound [of v] by (simp add: less_mult_imp_div_less)

text \<open>The tens digit is masked with \<open>2 ^ k - 1\<close>, which changes nothing while it is below \<open>2 ^ k\<close>.\<close>

lemma alarm_value_BCD:
  assumes "bcd_ok v" and "fst (bcd_digits v) < 2 ^ k" and "k \<le> 4"
  shows "unat (alarm_value False (mask k) binary v) = bcd_value v"
proof -
  have ones: "unat (v AND 0x0F) = unat v mod 16"
  proof -
    have "v AND 0x0F = take_bit 4 v" by (simp add: take_bit_eq_mask mask_numeral)
    then show ?thesis by (simp add: unsigned_take_bit_eq take_bit_eq_mod unat_mod)
  qed
  have tens: "unat (drop_bit 4 v AND mask k) = unat v div 16"
    using assms(2) by (simp add: unsigned_take_bit_eq unsigned_drop_bit_eq drop_bit_eq_div
        take_bit_nat_eq_self bcd_digits_def unat_div flip: take_bit_eq_mask)
  have "10 * (unat v div 16) < 256" using u8_div_16_less [of v] by simp
  moreover have "unat v mod 16 + 10 * (unat v div 16) < 256"
    using assms(1) by (simp add: bcd_ok_def bcd_digits_def)
  ultimately show ?thesis
    by (simp add: alarm_value_def unat_word_ariths ones tens bcd_value_def bcd_digits_def)
qed

lemma bcd_of_value:
  assumes "bcd_ok v" and "unat w = bcd_value v"
  shows "mapToBCD w = v"
proof -
  obtain a b where d: "bcd_digits v = (a, b)" and "a \<le> 9" "b \<le> 9"
    using assms(1) by (cases "bcd_digits v") (auto simp: bcd_ok_def)
  then have "unat w < 100" and "unat w div 10 = a" and "unat w mod 10 = b"
    using assms(2) by (simp_all add: bcd_value_def)
  then have "bcd_digits (mapToBCD w) = bcd_digits v" using d by (simp add: mapToBCD_digits)
  then show ?thesis by (rule bcd_digits_inject)
qed

text \<open>
  The values of an alarm register that stand for a time in the mode of register B. In twelve hour mode the hours
  are those from zero to eleven; the two alarms at twelve are below.
\<close>

definition alarm_ok :: "rtc \<Rightarrow> rtc_register \<Rightarrow> u8 \<Rightarrow> bool" where
  "alarm_ok d f v =
     (if f = HoursAlarm \<and> \<not> twentyFourHourTime d
      then if DataMode d then v AND 0x7F < 12 else bcd_ok (v AND 0x7F) \<and> bcd_value (v AND 0x7F) < 12
      else if DataMode d then v < (if f = HoursAlarm then 0x20 else 0x40)
      else bcd_ok v \<and> fst (bcd_digits v) < (if f = HoursAlarm then 4 else 8))"

lemma and_mask_small: "unat v < 2 ^ k \<Longrightarrow> v AND mask k = (v :: u8)"
  by (simp add: word_unat_eq_iff unsigned_take_bit_eq take_bit_nat_eq_self flip: take_bit_eq_mask)

lemma alarm_direct:
  assumes "alarm_ok d f v" and "f = HoursAlarm \<longrightarrow> twentyFourHourTime d"
  shows "coded d (if f = HoursAlarm then alarm_value (DataMode d) 3 31 v else alarm_value (DataMode d) 7 63 v) = v"
proof (cases "DataMode d")
  case True
  have m: "31 = (mask 5 :: u8)" "63 = (mask 6 :: u8)" by (simp_all add: mask_numeral)
  have "unat v < (if f = HoursAlarm then 2 ^ 5 else 2 ^ 6)"
    using assms True by (auto simp: alarm_ok_def word_less_nat_alt)
  then show ?thesis
    using True and_mask_small [of v 5] and_mask_small [of v 6]
    by (auto simp: alarm_value_def coded_def m simp del: mask_numeral)
next
  case False
  have m: "(7 :: u8) = mask 3" "(3 :: u8) = mask 2" by (simp_all add: mask_numeral)
  have v: "bcd_ok v" "fst (bcd_digits v) < (if f = HoursAlarm then 2 ^ 2 else 2 ^ 3)"
    using assms False by (auto simp: alarm_ok_def)
  show ?thesis
    using bcd_of_value [OF v(1) alarm_value_BCD [of v 2 31]] bcd_of_value [OF v(1) alarm_value_BCD [of v 3 63]] v False
    by (auto simp: coded_def m)
qed

lemma twelve_hour_values:
  assumes "alarm_ok d HoursAlarm v" and "\<not> twentyFourHourTime d"
  shows "unat v \<in> set ([0 ..< 18] @ [128 ..< 146])"
proof -
  have "v AND 0x7F = take_bit 7 v" by (simp add: take_bit_eq_mask mask_numeral)
  then have low: "unat (v AND 0x7F) = unat v mod 128"
    by (simp add: unsigned_take_bit_eq take_bit_eq_mod unat_mod)
  have two: "10 * (n div 16) + n mod 16 < 12 \<Longrightarrow> n < 18" for n :: nat
    using div_mult_mod_eq [of n 16] by linarith
  have "unat (v AND 0x7F) < 18"
    using two [of "unat (v AND 0x7F)"] assms by (auto simp: alarm_ok_def word_less_nat_alt bcd_ok_def bcd_value_def bcd_digits_def split: if_splits)
  then have "unat v < 18 \<or> 128 \<le> unat v \<and> unat v < 146"
    using unat_bound [of v] by (cases "unat v < 128") (simp_all add: low le_mod_geq)
  then show ?thesis by (simp only: set_append set_upt Un_iff atLeastLessThan_iff) simp
qed

lemma twelve_hour_alarm:
  assumes "alarm_ok d HoursAlarm v" and "\<not> twentyFourHourTime d"
  shows "coded_hour d (uint (alarm_value (DataMode d) 3 31 v + (if v AND 0x80 \<noteq> 0 then 12 else 0))) = v"
proof -
  have all: "\<forall>n \<in> set ([0 ..< 18] @ [128 ..< 146]). let v = word_of_nat n :: u8; pm = (if v AND 0x80 \<noteq> 0 then 12 else 0) in
      (v AND 0x7F < 12 \<longrightarrow>
        (let h = uint (alarm_value True 3 31 v + pm) in
         word_of_int (h smod 12) + (if h sdiv 12 \<noteq> 0 then 0x80 else 0) = v)) \<and>
      (bcd_ok (v AND 0x7F) \<and> bcd_value (v AND 0x7F) < 12 \<longrightarrow>
        (let h = uint (alarm_value False 3 31 v + pm) in
         mapToBCD (word_of_int (h smod 12)) + (if h sdiv 12 \<noteq> 0 then 0x80 else 0) = v))"
    by code_simp
  from bspec [OF all twelve_hour_values [OF assms]] show ?thesis
    using assms by (cases "DataMode d") (auto simp: Let_def alarm_ok_def coded_hour_def coded_def)
qed

text \<open>
  C38. In each of the four combinations of BCD or binary data with 12 or 24 hour mode, an alarm value
  that is valid in that mode reads back unchanged after it is written; in 12 hour mode that is the
  hours zero to eleven with either value of the afternoon bit.
\<close>

theorem alarm_reads_back:
  assumes "rtc_register_of (r AND 0x7F) = f" and "f \<in> {SecondsAlarm, MinutesAlarm, HoursAlarm}" and "alarm_ok d f v"
  shows "\<exists>d'. rtc_write_reg r v d = Inr d' \<and> rtc_read_reg t r d' = Inr v"
proof -
  have same: "coded (d\<lparr>secondsAlarm := y, selectedRegister := x\<rparr>) = coded d"
    "coded (d\<lparr>minutesAlarm := y, selectedRegister := x\<rparr>) = coded d"
    "coded_hour (d\<lparr>hoursAlarm := y, selectedRegister := x\<rparr>) = coded_hour d" for x y
    by (simp_all add: coded_def coded_hour_def DataMode_def twentyFourHourTime_def fun_eq_iff)
  have hour24: "coded_hour d (uint w) = coded d w" if "twentyFourHourTime d" for w
    using that by (simp add: coded_hour_def)
  have mode: "DataMode (d\<lparr>selectedRegister := x\<rparr>) = DataMode d"
    "twentyFourHourTime (d\<lparr>selectedRegister := x\<rparr>) = twentyFourHourTime d" for x
    by (simp_all add: DataMode_def twentyFourHourTime_def)
  show ?thesis
    using assms alarm_direct [OF assms(3)] twelve_hour_alarm [of d v]
    by (auto simp: rtc_write_reg_def rtc_select rtc_read_selected rtc_iowrite8_def rtc_ioread8_def
        Let_def same mode hour24 split: if_splits)
qed

definition example_tm :: tm where
  "example_tm = \<lparr>tm_sec = 7, tm_min = 59, tm_hour = 15, tm_mday = 30, tm_mon = 10, tm_year = 124, tm_wday = 6\<rparr>"

theorem alarm_reads_back_witness:
  "\<exists>d'. rtc_write_reg 5 0x91 (rtc_init None) = Inr d' \<and> rtc_read_reg example_tm 5 d' = Inr 0x91"
  by (rule alarm_reads_back [where f = HoursAlarm])
    (simp_all add: rtc_init_def DataMode_def twentyFourHourTime_def rtc_register_of_def alarm_ok_def bcd_ok_def
      bcd_value_def bcd_digits_def)

theorem twelve_o_clock_alarms_collide:
  "let d = rtc_init None in
     and_then (rtc_write_reg 5 0x12 d) (rtc_read_reg t 5) = Inr 0x80 \<and>
     and_then (rtc_write_reg 5 0x92 d) (rtc_read_reg t 5) = Inr 0x80"
  by (simp add: rtc_init_def rtc_write_reg_def rtc_select rtc_read_selected rtc_iowrite8_def rtc_ioread8_def
      rtc_register_of_def alarm_value_def coded_hour_def coded_def DataMode_def twentyFourHourTime_def
      mapToBCD_def Let_def signed_divide_int_def signed_modulo_int_def)

section \<open>The theorems at concrete inputs\<close>

theorem rtc_accesses_in_bounds_witness:
  "(\<exists>d. performKVMExitOperation (rtc_ops example_tm) ((rtc_init None)\<lparr>selectedRegister := 0x7F\<rparr>) True 0x71 [5] 1 = Inr (d, [5]) \<and>
      rtc_inv d) \<and>
   (\<exists>msg. performKVMExitOperation (rtc_ops example_tm) ((rtc_init None)\<lparr>selectedRegister := 0x7F\<rparr>) True 0x71 [5, 6] 2 =
      Inl (ThrowRuntimeError msg))"
proof -
  let ?d = "(rtc_init None)\<lparr>selectedRegister := 0x7F\<rparr>"
  have "rtc_inv ?d" by (simp add: rtc_inv_def rtc_init_def)
  note access = rtc_accesses_in_bounds [OF this]
  obtain d buf where "performKVMExitOperation (rtc_ops example_tm) ?d True 0x71 [5] 1 = Inr (d, buf)" "rtc_inv d"
    using access [of 1 "[5]" example_tm True "0x71"] by auto
  moreover from this(1) have "buf = [5]" using rtc_device.perform_buffer by fastforce
  ultimately show ?thesis using access [of 2 "[5, 6]" example_tm True "0x71"] by auto
qed

theorem clock_reads_the_local_time_witness:
  "\<exists>v. rtc_read_reg example_tm 4 ((rtc_init None)\<lparr>regB := 4\<rparr>) = Inr v \<and>
     driver_reads ((rtc_init None)\<lparr>regB := 4\<rparr>) Hours v = 15"
  using clock_reads_the_local_time [of example_tm 4 Hours 15 "(rtc_init None)\<lparr>regB := 4\<rparr>"]
  by (auto simp: example_tm_def tm_ok_def rtc_register_of_def)

text \<open>At noon and at midnight the hour register shows 0, where the clock's data sheet has 12.\<close>

theorem twelve_hour_clock_shows_zero:
  assumes "\<not> twentyFourHourTime d" and "tm_hour t = 0 \<or> tm_hour t = 12"
  shows "\<exists>v. rtc_read_reg t 4 d = Inr v \<and> v AND 0x7F = 0"
  using assms
  by (auto simp: rtc_read_selected rtc_ioread8_def rtc_register_of_def coded_hour_def coded_def
      twentyFourHourTime_def mapToBCD_def signed_divide_int_def signed_modulo_int_def)

text \<open>
  C37. Over any sequence of register writes a RAM register reads the last value written to it, or its
  old contents, with no interference from other registers.
\<close>

theorem ram_reads_last_write:
  assumes "rtc_inv d" and "is_ram r"
  shows "rtc_peek t (fold (\<lambda>(b, v). rtc_poke b v) ws d) r =
    (case find (\<lambda>(b, v). same_rtc_register b r) (rev ws) of Some (b, v) \<Rightarrow> v
     | None \<Rightarrow> rtc_ram d ! (unat (r AND 0x7F) - 14))"
  using rtc_memory.rd_fold_wr [OF assms, of t ws] rtc_peek_ram [OF assms] by (simp split: option.split)

theorem ram_reads_last_write_witness:
  "rtc_peek example_tm (fold (\<lambda>(b, v). rtc_poke b v) [(0x7F, 1), (0x20, 2), (0xFF, 3), (0x0B, 4)] (rtc_init None)) 0x7F = 3"
  by (subst ram_reads_last_write)
    (simp_all add: rtc_init_inv is_ram_def rtc_register_of_def same_rtc_register_def)

theorem nvram_survives_restart:
  assumes "rtc_inv d"
  shows "rtc_ram (rtc_init (Some (rtc_nvram d))) = rtc_ram d"
  using assms by (simp add: rtc_init_def rtc_nvram_def rtc_inv_def)

end
