(* ===== verification/Event_Loop.thy ===== *)
theory Event_Loop
  imports Prelude
begin

text \<open>
  \<open>EventLoop\<close> (src/EventLoop.cpp): a wrapper of \<open>epoll\<close> whose interest list holds raw pointers to
  the handlers stored in the \<open>unordered_map\<close> of each \<open>EventLoop\<close> object. The objects of the program
  are copies of one, so they share one \<open>EventLoopInternal\<close>; \<open>mState\<close> says whether an object still
  refers to it or was moved from. Map nodes live at addresses that are never used twice, so that
  a pointer to an erased node stays visible as one. A handler is a value of type \<open>'h\<close>, and the
  client says what calling it does.
\<close>

type_synonym fd = int

section \<open>The shared state\<close>

datatype handler_ptr = InterruptPtr | NodePtr nat

text \<open>
  \<open>epoll_open\<close> is \<open>mEpollFd != -1\<close>, \<open>interest\<close> the kernel's interest list with the events and the
  user data of each descriptor, \<open>nodes\<close> the live map nodes, pairs of a key and a handler, \<open>nonblocking\<close> the open
  descriptors whose \<open>O_NONBLOCK\<close> flag was set by \<open>fcntl\<close>.
\<close>

record 'h world =
  epoll_open :: bool
  interest :: "fd \<rightharpoonup> u32 \<times> handler_ptr"
  nodes :: "nat \<rightharpoonup> fd \<times> 'h"
  next_node :: nat
  nonblocking :: "fd set"

record event_loop =
  mState :: bool
  mHandlers :: "(fd \<times> nat) list"

text \<open>The requests on a descriptor that the kernel may refuse: those of \<open>epoll_ctl\<close>, and two of \<open>fcntl\<close>.\<close>

datatype ctl_op = EPOLL_CTL_ADD | EPOLL_CTL_MOD | EPOLL_CTL_DEL | F_GETFL | F_SETFL

text \<open>
  \<open>epoll_ctl\<close>: adding a registered descriptor and changing or deleting one that is not registered
  fail, and \<open>ctl\<close> says which of the other requests the kernel refuses.
\<close>

definition epoll_ctl ::
    "(ctl_op \<Rightarrow> fd \<Rightarrow> bool) \<Rightarrow> ctl_op \<Rightarrow> fd \<Rightarrow> u32 \<times> handler_ptr \<Rightarrow> 'h world \<Rightarrow> bool \<times> 'h world" where
  "epoll_ctl ctl opn fd event w =
     (if \<not> epoll_open w \<or> \<not> ctl opn fd \<or> (opn = EPOLL_CTL_ADD) = (fd \<in> dom (interest w)) then (False, w)
      else (True, w\<lparr>interest := (if opn = EPOLL_CTL_DEL then (interest w)(fd := None)
                                else (interest w)(fd \<mapsto> event))\<rparr>))"

text \<open>Closing a descriptor takes it off the interest list; its flags are gone with it.\<close>

definition close_fd :: "fd \<Rightarrow> 'h world \<Rightarrow> 'h world" where
  "close_fd fd w = w\<lparr>interest := (interest w)(fd := None), nonblocking := nonblocking w - {fd}\<rparr>"

definition setNonBlocking :: "(ctl_op \<Rightarrow> fd \<Rightarrow> bool) \<Rightarrow> fd \<Rightarrow> 'h world \<Rightarrow> bool \<times> 'h world" where
  "setNonBlocking ctl fd w =
     (if \<not> ctl F_GETFL fd then (False, w)
      else if ctl F_SETFL fd then (True, w\<lparr>nonblocking := insert fd (nonblocking w)\<rparr>) else (False, w))"

section \<open>Operations of \<open>EventLoop\<close>\<close>

definition removeEvent :: "(ctl_op \<Rightarrow> fd \<Rightarrow> bool) \<Rightarrow> fd \<Rightarrow> event_loop \<Rightarrow> 'h world \<Rightarrow> event_loop \<times> 'h world" where
  "removeEvent ctl fd el w =
     (case map_of (mHandlers el) fd of
        None \<Rightarrow> (el, w)
      | Some a \<Rightarrow>
          if \<not> mState el then (el, w)
          else (case epoll_ctl ctl EPOLL_CTL_DEL fd (0, NodePtr a) w of (deleted, w1) \<Rightarrow>
            if deleted then
              (el\<lparr>mHandlers := filter (\<lambda>(k, _). k \<noteq> fd) (mHandlers el)\<rparr>, w1\<lparr>nodes := (nodes w1)(a := None)\<rparr>)
            else (el, w1)))"

text \<open>\<open>mHandlers.insert({fd, handler})\<close> leaves an existing entry alone. The result of \<open>setNonBlocking\<close> is not used.\<close>

definition insert_handler :: "fd \<Rightarrow> 'h \<Rightarrow> event_loop \<Rightarrow> 'h world \<Rightarrow> nat \<times> event_loop \<times> 'h world" where
  "insert_handler fd h el w =
     (case map_of (mHandlers el) fd of
        Some a \<Rightarrow> (a, el, w)
      | None \<Rightarrow> (next_node w, el\<lparr>mHandlers := (fd, next_node w) # mHandlers el\<rparr>,
          w\<lparr>nodes := (nodes w)(next_node w \<mapsto> (fd, h)), next_node := Suc (next_node w)\<rparr>))"

definition addEvent :: "(ctl_op \<Rightarrow> fd \<Rightarrow> bool) \<Rightarrow> fd \<Rightarrow> u32 \<Rightarrow> 'h \<Rightarrow> event_loop \<Rightarrow> 'h world \<Rightarrow>
    bool \<times> event_loop \<times> 'h world" where
  "addEvent ctl fd events h el w =
     (if \<not> mState el then (False, el, w)
      else let (el1, w1) = (if map_of (mHandlers el) fd \<noteq> None then removeEvent ctl fd el w else (el, w));
               (a, el2, w2) = insert_handler fd h el1 (snd (setNonBlocking ctl fd w1));
               (ok, w3) = epoll_ctl ctl EPOLL_CTL_ADD fd (events, NodePtr a) w2
           in (ok, el2, w3))"

definition modifyEvent :: "(ctl_op \<Rightarrow> fd \<Rightarrow> bool) \<Rightarrow> fd \<Rightarrow> u32 \<Rightarrow> event_loop \<Rightarrow> 'h world \<Rightarrow> bool \<times> 'h world" where
  "modifyEvent ctl fd events el w =
     (case map_of (mHandlers el) fd of
        None \<Rightarrow> (False, w)
      | Some a \<Rightarrow> if \<not> mState el then (False, w)
          else epoll_ctl ctl EPOLL_CTL_MOD fd (events, NodePtr a) w)"

fun delete_all :: "(ctl_op \<Rightarrow> fd \<Rightarrow> bool) \<Rightarrow> (fd \<times> nat) list \<Rightarrow> 'h world \<Rightarrow> 'h world" where
  "delete_all ctl [] w = w"
| "delete_all ctl ((fd, a) # hs) w = delete_all ctl hs (snd (epoll_ctl ctl EPOLL_CTL_DEL fd (0, NodePtr a) w))"

definition free_nodes :: "nat set \<Rightarrow> 'h world \<Rightarrow> 'h world" where
  "free_nodes A w = w\<lparr>nodes := (\<lambda>a. if a \<in> A then None else nodes w a)\<rparr>"

definition removeHandlers :: "(ctl_op \<Rightarrow> fd \<Rightarrow> bool) \<Rightarrow> event_loop \<Rightarrow> 'h world \<Rightarrow> event_loop \<times> 'h world" where
  "removeHandlers ctl el w =
     (if mState el then
        (el\<lparr>mHandlers := []\<rparr>, free_nodes (snd ` set (mHandlers el)) (delete_all ctl (mHandlers el) w))
      else (el, w))"

text \<open>The copy constructor, and the move constructor with the object it leaves behind.\<close>

definition copy_loop :: "event_loop \<Rightarrow> event_loop" where
  "copy_loop el = \<lparr>mState = mState el, mHandlers = []\<rparr>"

definition moved_from :: "event_loop \<Rightarrow> event_loop" where
  "moved_from el = \<lparr>mState = False, mHandlers = []\<rparr>"

text \<open>The destructor drops the handlers, and with the object what is left of its map.\<close>

definition destroy_loop :: "(ctl_op \<Rightarrow> fd \<Rightarrow> bool) \<Rightarrow> event_loop \<Rightarrow> 'h world \<Rightarrow> 'h world" where
  "destroy_loop ctl el w =
     (case removeHandlers ctl el w of (el', w') \<Rightarrow> free_nodes (snd ` set (mHandlers el')) w')"

definition assign_loop :: "(ctl_op \<Rightarrow> fd \<Rightarrow> bool) \<Rightarrow> event_loop \<Rightarrow> event_loop \<Rightarrow> 'h world \<Rightarrow> event_loop \<times> 'h world" where
  "assign_loop ctl other el w =
     (case removeHandlers ctl el w of (el', w') \<Rightarrow> (el'\<lparr>mState := mState other\<rparr>, w'))"

definition move_assign :: "(ctl_op \<Rightarrow> fd \<Rightarrow> bool) \<Rightarrow> event_loop \<Rightarrow> event_loop \<Rightarrow> 'h world \<Rightarrow>
    event_loop \<times> event_loop \<times> 'h world" where
  "move_assign ctl other el w =
     (case removeHandlers ctl el w of (el', w') \<Rightarrow>
        (el'\<lparr>mState := mState other, mHandlers := mHandlers other\<rparr>, moved_from other, w'))"

section \<open>The thread that calls the handlers\<close>

text \<open>
  \<open>n = epoll_wait(...) != -1\<close>: the comparison binds tighter than the assignment, so \<open>n\<close> is 1
  whenever the call does not fail. \<open>wait\<close> is the list of ready events a successful call stores at
  the front of the array.
\<close>

definition wait_n :: "(u32 \<times> handler_ptr) list option \<Rightarrow> nat" where
  "wait_n wait = (if wait \<noteq> None then 1 else 0)"

text \<open>The interrupt handler closes the epoll descriptor, and with it the interest list is gone.\<close>

definition interrupt_handler :: "'h world \<Rightarrow> 'h world" where
  "interrupt_handler w = w\<lparr>epoll_open := False, interest := Map.empty\<rparr>"

text \<open>
  One call through an event's pointer. The state \<open>'s\<close> is the client's; \<open>get\<close> and \<open>put\<close> reach the shared
  part of it and \<open>invoke\<close> is the client's handler.
\<close>

definition call_ptr :: "('s \<Rightarrow> 'h world) \<Rightarrow> ('h world \<Rightarrow> 's \<Rightarrow> 's) \<Rightarrow> ('h \<Rightarrow> u32 \<Rightarrow> 's \<Rightarrow> 's result) \<Rightarrow>
    u32 \<times> handler_ptr \<Rightarrow> 's \<Rightarrow> 's result" where
  "call_ptr get put invoke event s =
     (case snd event of
        InterruptPtr \<Rightarrow> Inr (put (interrupt_handler (get s)) s)
      | NodePtr a \<Rightarrow> (case nodes (get s) a of None \<Rightarrow> Inl DanglingHandler
                      | Some (fd, h) \<Rightarrow> invoke h (fst event) s))"

fun call_all :: "('s \<Rightarrow> 'h world) \<Rightarrow> ('h world \<Rightarrow> 's \<Rightarrow> 's) \<Rightarrow> ('h \<Rightarrow> u32 \<Rightarrow> 's \<Rightarrow> 's result) \<Rightarrow>
    (u32 \<times> handler_ptr) list \<Rightarrow> 's \<Rightarrow> 's result" where
  "call_all get put invoke [] s = Inr s"
| "call_all get put invoke (e # es) s = and_then (call_ptr get put invoke e s) (call_all get put invoke es)"

text \<open>
  The loop. \<open>epoll_wait\<close> gives the result of a call, from the number of calls still to come and the
  state it is made in; \<open>events\<close> is the initialised part of the array. The result is the state in
  which the thread returns, or after the number of calls given.
\<close>

fun event_thread :: "('s \<Rightarrow> 'h world) \<Rightarrow> ('h world \<Rightarrow> 's \<Rightarrow> 's) \<Rightarrow> ('h \<Rightarrow> u32 \<Rightarrow> 's \<Rightarrow> 's result) \<Rightarrow>
    (nat \<Rightarrow> 'h world \<Rightarrow> (u32 \<times> handler_ptr) list option) \<Rightarrow> nat \<Rightarrow> (u32 \<times> handler_ptr) list \<Rightarrow> 's \<Rightarrow> 's result" where
  "event_thread get put invoke epoll_wait 0 events s = Inr s"
| "event_thread get put invoke epoll_wait (Suc k) events s =
     (if \<not> epoll_open (get s) then Inr s
      else case epoll_wait k (get s) of
        None \<Rightarrow> Inr s
      | Some ready \<Rightarrow>
          let events' = ready @ drop (length ready) events; n = wait_n (Some ready)
          in if length events' < n then Inl OutOfBounds
             else and_then (call_all get put invoke (take n events') s)
                    (event_thread get put invoke epoll_wait k events'))"

text \<open>
  The destructor of \<open>EventLoopInternal\<close>: it writes to the interrupt descriptor, which the first argument of
  \<open>epoll_wait\<close> records, and joins the thread, which goes on from a call of \<open>epoll_wait\<close> until it returns.
\<close>

definition destroy_internal :: "bool \<Rightarrow> ('s \<Rightarrow> 'h world) \<Rightarrow> ('h world \<Rightarrow> 's \<Rightarrow> 's) \<Rightarrow> ('h \<Rightarrow> u32 \<Rightarrow> 's \<Rightarrow> 's result) \<Rightarrow>
    (bool \<Rightarrow> nat \<Rightarrow> 'h world \<Rightarrow> (u32 \<times> handler_ptr) list option) \<Rightarrow> nat \<Rightarrow> 's \<Rightarrow> 's result" where
  "destroy_internal joinable get put invoke epoll_wait k s =
     (if joinable then let written = True in event_thread get put invoke (epoll_wait written) k [] s else Inr s)"

section \<open>Programs of event loop operations\<close>

text \<open>
  The objects of a program are numbered by their position in a list; a destroyed one leaves an
  object that owns nothing.
\<close>

datatype 'h loop_op =
    Add nat fd u32 'h | Modify nat fd u32 | Remove nat fd
  | CopyConstruct nat | MoveConstruct nat | Destroy nat
  | CopyAssign nat nat | MoveAssign nat nat | CloseFd fd | Interrupt

fun loop_step :: "(ctl_op \<Rightarrow> fd \<Rightarrow> bool) \<Rightarrow> 'h loop_op \<Rightarrow> event_loop list \<times> 'h world \<Rightarrow> event_loop list \<times> 'h world" where
  "loop_step ctl (Add i fd ev h) (ls, w) =
     (case addEvent ctl fd ev h (ls ! i) w of (_, el, w') \<Rightarrow> (ls[i := el], w'))"
| "loop_step ctl (Modify i fd ev) (ls, w) = (ls, snd (modifyEvent ctl fd ev (ls ! i) w))"
| "loop_step ctl (Remove i fd) (ls, w) = (case removeEvent ctl fd (ls ! i) w of (el, w') \<Rightarrow> (ls[i := el], w'))"
| "loop_step ctl (CopyConstruct i) (ls, w) = (ls @ [copy_loop (ls ! i)], w)"
| "loop_step ctl (MoveConstruct i) (ls, w) = (ls[i := moved_from (ls ! i)] @ [ls ! i], w)"
| "loop_step ctl (Destroy i) (ls, w) = (ls[i := moved_from (ls ! i)], destroy_loop ctl (ls ! i) w)"
| "loop_step ctl (CopyAssign i j) (ls, w) =
     (case assign_loop ctl (ls ! j) (ls ! i) w of (el, w') \<Rightarrow> (ls[i := el], w'))"
| "loop_step ctl (MoveAssign i j) (ls, w) =
     (case move_assign ctl (ls ! j) (ls ! i) w of (el, other, w') \<Rightarrow> (ls[j := other, i := el], w'))"
| "loop_step ctl (CloseFd fd) (ls, w) = (ls, close_fd fd w)"
| "loop_step ctl Interrupt (ls, w) = (ls, interrupt_handler w)"

text \<open>The operation is on objects of the program, and moves are between different ones.\<close>

fun op_ok :: "'h loop_op \<Rightarrow> event_loop list \<Rightarrow> bool" where
  "op_ok (Add i fd ev h) ls \<longleftrightarrow> i < length ls"
| "op_ok (Modify i fd ev) ls \<longleftrightarrow> i < length ls"
| "op_ok (Remove i fd) ls \<longleftrightarrow> i < length ls"
| "op_ok (CopyConstruct i) ls \<longleftrightarrow> i < length ls"
| "op_ok (MoveConstruct i) ls \<longleftrightarrow> i < length ls"
| "op_ok (Destroy i) ls \<longleftrightarrow> i < length ls"
| "op_ok (CopyAssign i j) ls \<longleftrightarrow> i < length ls \<and> j < length ls"
| "op_ok (MoveAssign i j) ls \<longleftrightarrow> i < length ls \<and> j < length ls \<and> i \<noteq> j"
| "op_ok (CloseFd fd) ls \<longleftrightarrow> True"
| "op_ok Interrupt ls \<longleftrightarrow> True"

text \<open>The program starts with one object, and the interest list holds the interrupt descriptor.\<close>

definition world_init :: "fd \<Rightarrow> 'h world" where
  "world_init interruptFd = \<lparr>epoll_open = True, interest = [interruptFd \<mapsto> (1, InterruptPtr)],
     nodes = Map.empty, next_node = 0, nonblocking = {}\<rparr>"

inductive loops_reachable :: "(ctl_op \<Rightarrow> fd \<Rightarrow> bool) \<Rightarrow> fd \<Rightarrow> event_loop list \<Rightarrow> 'h world \<Rightarrow> bool"
  for ctl :: "ctl_op \<Rightarrow> fd \<Rightarrow> bool" and interruptFd :: fd where
  loops_start: "loops_reachable ctl interruptFd [\<lparr>mState = True, mHandlers = []\<rparr>] (world_init interruptFd)"
| loops_step: "loops_reachable ctl interruptFd ls w \<Longrightarrow> op_ok opn ls \<Longrightarrow> loop_step ctl opn (ls, w) = (ls', w') \<Longrightarrow>
     loops_reachable ctl interruptFd ls' w'"

section \<open>Who owns which node\<close>

definition addrs :: "event_loop \<Rightarrow> nat set" where
  "addrs el = snd ` set (mHandlers el)"

text \<open>No pointer of the interest list dangles, and it leads to a handler for its descriptor.\<close>

definition world_inv :: "'h world \<Rightarrow> bool" where
  "world_inv w \<longleftrightarrow> (\<forall>fd ev a. interest w fd = Some (ev, NodePtr a) \<longrightarrow> (\<exists>h. nodes w a = Some (fd, h))) \<and>
     (\<forall>a \<in> dom (nodes w). a < next_node w) \<and> (\<not> epoll_open w \<longrightarrow> interest w = Map.empty)"

definition loop_owns :: "event_loop \<Rightarrow> 'h world \<Rightarrow> bool" where
  "loop_owns el w \<longleftrightarrow> distinct (map fst (mHandlers el)) \<and>
     (\<forall>(fd, a) \<in> set (mHandlers el). \<exists>h. nodes w a = Some (fd, h)) \<and> (\<not> mState el \<longrightarrow> mHandlers el = [])"

definition loops_inv :: "event_loop list \<Rightarrow> 'h world \<Rightarrow> bool" where
  "loops_inv ls w \<longleftrightarrow> world_inv w \<and> (\<forall>el \<in> set ls. loop_owns el w) \<and>
     (\<forall>i < length ls. \<forall>j < length ls. i \<noteq> j \<longrightarrow> addrs (ls ! i) \<inter> addrs (ls ! j) = {})"

text \<open>What an operation on one object may do: it only touches nodes of its own and fresh ones.\<close>

definition local_step :: "event_loop \<Rightarrow> 'h world \<Rightarrow> event_loop \<Rightarrow> 'h world \<Rightarrow> bool" where
  "local_step el w el' w' \<longleftrightarrow> world_inv w' \<and> loop_owns el' w' \<and> next_node w \<le> next_node w' \<and>
     addrs el' \<subseteq> addrs el \<union> {next_node w..} \<and>
     (\<forall>a. a \<notin> addrs el \<and> a < next_node w \<longrightarrow> nodes w' a = nodes w a)"

lemma world_inv_ptr: "world_inv w \<Longrightarrow> interest w k = Some (e, NodePtr b) \<Longrightarrow> \<exists>h. nodes w b = Some (k, h)"
  by (simp add: world_inv_def)

lemma owns_addr: "loop_owns el w \<Longrightarrow> a \<in> addrs el \<Longrightarrow> \<exists>fd h. nodes w a = Some (fd, h)"
  by (force simp: loop_owns_def addrs_def)

lemma owns_addr_less: "world_inv w \<Longrightarrow> loop_owns el w \<Longrightarrow> a \<in> addrs el \<Longrightarrow> a < next_node w"
  using owns_addr by (fastforce simp: world_inv_def)

lemma owns_frame:
  assumes "world_inv w" and "loop_owns el w" and "\<And>a. a \<in> addrs el \<Longrightarrow> nodes w' a = nodes w a"
  shows "loop_owns el w'"
  using assms(2,3) by (force simp: loop_owns_def addrs_def)

lemma local_step_refl: "world_inv w \<Longrightarrow> loop_owns el w \<Longrightarrow> local_step el w el w"
  by (simp add: local_step_def)

lemma local_step_trans:
  assumes "local_step el w el1 w1" and "local_step el1 w1 el2 w2" and "world_inv w" and "loop_owns el w"
  shows "local_step el w el2 w2"
proof -
  have "nodes w2 a = nodes w a" if "a \<notin> addrs el" "a < next_node w" for a
  proof -
    have "a \<notin> addrs el1" using assms(1) that by (auto simp: local_step_def)
    then show ?thesis using assms(1,2) that by (simp add: local_step_def)
  qed
  then show ?thesis using assms(1,2) unfolding local_step_def by fastforce
qed

lemma local_step_loops_inv:
  assumes inv: "loops_inv ls w" and i: "i < length ls" and step: "local_step (ls ! i) w el' w'"
  shows "loops_inv (ls[i := el']) w'"
proof -
  have w: "world_inv w" and own: "\<And>j. j < length ls \<Longrightarrow> loop_owns (ls ! j) w"
    and disj: "\<And>j k. j < length ls \<Longrightarrow> k < length ls \<Longrightarrow> j \<noteq> k \<Longrightarrow> addrs (ls ! j) \<inter> addrs (ls ! k) = {}"
    using inv by (auto simp: loops_inv_def)
  have other: "loop_owns (ls ! j) w'" if "j < length ls" "j \<noteq> i" for j
  proof (rule owns_frame [OF w own [OF that(1)]])
    fix a assume "a \<in> addrs (ls ! j)"
    moreover from this have "a < next_node w" using owns_addr_less [OF w own [OF that(1)]] by blast
    ultimately show "nodes w' a = nodes w a"
      using disj [OF that(1) i that(2)] step by (auto simp: local_step_def)
  qed
  have apart: "addrs el' \<inter> addrs (ls ! j) = {}" if "j < length ls" "j \<noteq> i" for j
    using step disj [OF i that(1)] that(2) owns_addr_less [OF w own [OF that(1)]]
    by (fastforce simp: local_step_def)
  have "loop_owns el w'" if "el \<in> set (ls[i := el'])" for el
  proof -
    from that obtain j where "j < length ls" "el = (ls[i := el']) ! j" by (auto simp: in_set_conv_nth)
    then show ?thesis using other [of j] step i by (cases "j = i") (simp_all add: local_step_def)
  qed
  moreover have "addrs (ls[i := el'] ! j) \<inter> addrs (ls[i := el'] ! k) = {}"
    if "j < length ls" "k < length ls" "j \<noteq> k" for j k
    using that disj [OF that] apart [of j] apart [of k] by (cases "j = i"; cases "k = i") auto
  ultimately show ?thesis using step by (simp add: loops_inv_def local_step_def)
qed

text \<open>
  The contract of an operation on one object; every operation that keeps it keeps the invariant
  of the program's objects.
\<close>

locale owner_operation =
  fixes f :: "event_loop \<Rightarrow> 'h world \<Rightarrow> event_loop \<times> 'h world"
    and ok :: "event_loop \<Rightarrow> 'h world \<Rightarrow> bool"
  assumes local: "world_inv w \<Longrightarrow> loop_owns el w \<Longrightarrow> ok el w \<Longrightarrow> f el w = (el', w') \<Longrightarrow> local_step el w el' w'"
begin

lemma keeps_loops_inv:
  assumes inv: "loops_inv ls w" and i: "i < length ls" and ok: "ok (ls ! i) w" and f: "f (ls ! i) w = (el', w')"
  shows "loops_inv (ls[i := el']) w'"
proof (rule local_step_loops_inv [OF inv i])
  have "world_inv w" "loop_owns (ls ! i) w" using inv i by (simp_all add: loops_inv_def)
  then show "local_step (ls ! i) w el' w'" using ok f by (rule local)
qed

end

section \<open>The operations keep the contract\<close>

lemma epoll_ctl_frame:
  "epoll_ctl ctl opn fd ev w = (r, w') \<Longrightarrow> nodes w' = nodes w \<and> next_node w' = next_node w \<and> epoll_open w' = epoll_open w \<and>
     nonblocking w' = nonblocking w"
  by (auto simp: epoll_ctl_def split: if_splits)

lemma setNonBlocking_simps [simp]:
  "nodes (snd (setNonBlocking ctl fd w)) = nodes w" "next_node (snd (setNonBlocking ctl fd w)) = next_node w"
  "epoll_open (snd (setNonBlocking ctl fd w)) = epoll_open w" "interest (snd (setNonBlocking ctl fd w)) = interest w"
  "nonblocking (snd (setNonBlocking ctl fd w)) = (if ctl F_GETFL fd \<and> ctl F_SETFL fd then insert fd (nonblocking w) else nonblocking w)"
  by (simp_all add: setNonBlocking_def)

lemma setNonBlocking_inv [simp]:
  "world_inv (snd (setNonBlocking ctl fd w)) = world_inv w" "loop_owns el (snd (setNonBlocking ctl fd w)) = loop_owns el w"
  "local_step el (snd (setNonBlocking ctl fd w)) el' w' = local_step el w el' w'"
  by (simp_all add: world_inv_def loop_owns_def local_step_def)

lemma epoll_ctl_interest:
  assumes "epoll_ctl ctl opn fd ev w = (r, w')"
  shows "interest w' k = (if r \<and> k = fd then if opn = EPOLL_CTL_DEL then None else Some ev else interest w k)"
  using assms by (auto simp: epoll_ctl_def split: if_splits)

lemma removeEvent_elsewhere:
  "removeEvent ctl fd el w = (el', w') \<Longrightarrow> k \<noteq> fd \<Longrightarrow> interest w' k = interest w k"
  by (auto simp: removeEvent_def epoll_ctl_interest split: option.splits if_splits prod.splits)

lemma insert_handler_interest: "insert_handler fd h el w = (a, el', w') \<Longrightarrow> interest w' = interest w"
  by (auto simp: insert_handler_def split: option.splits)

lemma addEvent_elsewhere:
  assumes r: "addEvent ctl fd ev h el w = (ok, el', w')" and k: "k \<noteq> fd"
  shows "interest w' k = interest w k"
proof (cases "mState el")
  case True
  obtain el1 w1 where r1: "(if map_of (mHandlers el) fd \<noteq> None then removeEvent ctl fd el w else (el, w)) = (el1, w1)"
    by fastforce
  obtain a el2 w2 where r2: "insert_handler fd h el1 (snd (setNonBlocking ctl fd w1)) = (a, el2, w2)" by (metis prod_cases3)
  obtain r3 w3 where r3: "epoll_ctl ctl EPOLL_CTL_ADD fd (ev, NodePtr a) w2 = (r3, w3)" by fastforce
  have "w' = w3" using r True r1 r2 r3 by (simp add: addEvent_def)
  then have "interest w' k = interest w1 k"
    using k epoll_ctl_interest [OF r3] insert_handler_interest [OF r2] by simp
  also have "\<dots> = interest w k" using r1 removeEvent_elsewhere [OF _ k] by (auto split: if_splits)
  finally show ?thesis .
qed (use r in \<open>simp add: addEvent_def\<close>)

lemma modifyEvent_elsewhere:
  "modifyEvent ctl fd ev el w = (ok, w') \<Longrightarrow> k \<noteq> fd \<Longrightarrow> interest w' k = interest w k"
  by (auto simp: modifyEvent_def epoll_ctl_interest split: option.splits if_splits)

lemma addEvent_keys:
  assumes "addEvent ctl fd ev h el w = (ok, el', w')"
  shows "fst ` set (mHandlers el') \<subseteq> insert fd (fst ` set (mHandlers el))" and "epoll_open w' = epoll_open w"
proof -
  have keys: "fst ` set (filter (\<lambda>(k, _). k \<noteq> fd) hs) \<subseteq> fst ` set hs" for hs :: "(fd \<times> nat) list" by auto
  show "fst ` set (mHandlers el') \<subseteq> insert fd (fst ` set (mHandlers el))"
    using assms keys [of "mHandlers el"]
    by (auto simp: addEvent_def insert_handler_def removeEvent_def Let_def split: option.splits if_splits prod.splits)
  show "epoll_open w' = epoll_open w"
    using assms
    by (auto simp: addEvent_def insert_handler_def removeEvent_def Let_def dest!: epoll_ctl_frame
        split: option.splits if_splits prod.splits)
qed

text \<open>Every descriptor that was added does not block, and \<open>addEvent\<close> takes the flag from none.\<close>

lemma removeEvent_nonblocking: "removeEvent ctl fd el w = (el', w') \<Longrightarrow> nonblocking w' = nonblocking w"
proof (cases "map_of (mHandlers el) fd")
  case (Some a)
  assume r: "removeEvent ctl fd el w = (el', w')"
  obtain d w0 where d: "epoll_ctl ctl EPOLL_CTL_DEL fd (0, NodePtr a) w = (d, w0)" by fastforce
  have f: "nonblocking w0 = nonblocking w" using epoll_ctl_frame [OF d] by simp
  have "w' = w \<or> w' = w0 \<or> w' = w0\<lparr>nodes := (nodes w0)(a := None)\<rparr>"
    using r by (simp add: removeEvent_def Some d split: if_splits)
  then show "nonblocking w' = nonblocking w" using f by (elim disjE) simp_all
qed (auto simp: removeEvent_def)

lemma addEvent_nonblocking:
  assumes r: "addEvent ctl fd ev h el w = (ok, el', w')"
  shows "nonblocking w' = (if mState el \<and> ctl F_GETFL fd \<and> ctl F_SETFL fd then insert fd (nonblocking w) else nonblocking w)"
proof (cases "mState el")
  case True
  obtain el1 w1 where r1: "(if map_of (mHandlers el) fd \<noteq> None then removeEvent ctl fd el w else (el, w)) = (el1, w1)"
    by fastforce
  obtain a el2 w2 where r2: "insert_handler fd h el1 (snd (setNonBlocking ctl fd w1)) = (a, el2, w2)" by (metis prod_cases3)
  obtain r3 w3 where r3: "epoll_ctl ctl EPOLL_CTL_ADD fd (ev, NodePtr a) w2 = (r3, w3)" by fastforce
  have "nonblocking w1 = nonblocking w" using r1 removeEvent_nonblocking [of ctl fd el w el1 w1] by (simp split: if_splits)
  moreover have "nonblocking w2 = nonblocking (snd (setNonBlocking ctl fd w1))"
    using r2 by (auto simp: insert_handler_def split: option.splits)
  ultimately show ?thesis using r True r1 r2 r3 epoll_ctl_frame [OF r3] by (simp add: addEvent_def)
qed (use r in \<open>simp add: addEvent_def\<close>)

lemma modifyEvent_nonblocking: "modifyEvent ctl fd ev el w = (ok, w') \<Longrightarrow> nonblocking w' = nonblocking w"
  by (auto simp: modifyEvent_def dest: epoll_ctl_frame split: option.splits if_splits)

lemma epoll_ctl_inv:
  assumes "world_inv w" and "epoll_ctl ctl opn fd (ev, NodePtr a) w = (r, w')"
    and "opn \<noteq> EPOLL_CTL_DEL \<Longrightarrow> \<exists>h. nodes w a = Some (fd, h)"
  shows "world_inv w'"
proof -
  have "\<not> epoll_open w' \<Longrightarrow> interest w' = Map.empty"
    using assms(1,2) by (auto simp: world_inv_def epoll_ctl_def split: if_splits)
  moreover have "\<exists>h. nodes w' b = Some (k, h)" if "interest w' k = Some (e, NodePtr b)" for k e b
    using that assms(1,3) epoll_ctl_frame [OF assms(2)]
    by (cases opn) (auto simp: epoll_ctl_interest [OF assms(2)] world_inv_def split: if_splits)
  ultimately show ?thesis
    using assms(1) epoll_ctl_frame [OF assms(2)] by (simp add: world_inv_def)
qed

lemma distinct_fst_unique: "distinct (map fst xs) \<Longrightarrow> (k, a) \<in> set xs \<Longrightarrow> map_of xs k = Some a"
  by simp

lemma map_of_None_key: "map_of xs k = None \<Longrightarrow> k \<notin> fst ` set xs"
  by (simp add: map_of_eq_None_iff)

lemma filter_key_fst: "map fst (filter (\<lambda>(k, _). k \<noteq> fd) xs) = filter (\<lambda>k. k \<noteq> fd) (map fst xs)"
  by (induction xs) auto

lemma removeEvent_local:
  assumes w: "world_inv w" and own: "loop_owns el w" and r: "removeEvent ctl fd el w = (el', w')"
  shows "local_step el w el' w'"
proof (cases "el' = el \<and> w' = w")
  case True
  then show ?thesis using w own by (simp add: local_step_refl)
next
  case False
  then obtain a w1 where a: "map_of (mHandlers el) fd = Some a"
    and w1: "epoll_ctl ctl EPOLL_CTL_DEL fd (0, NodePtr a) w = (True, w1)"
    and el': "el' = el\<lparr>mHandlers := filter (\<lambda>(k, _). k \<noteq> fd) (mHandlers el)\<rparr>"
    and w': "w' = w1\<lparr>nodes := (nodes w1)(a := None)\<rparr>"
    using r by (auto simp: removeEvent_def epoll_ctl_def split: option.splits if_splits)
  note frame = epoll_ctl_frame [OF w1] and int = epoll_ctl_interest [OF w1]
  have node: "\<exists>h. nodes w a = Some (fd, h)"
    using own a by (auto simp: loop_owns_def dest: map_of_SomeD)
  have "world_inv w'"
    unfolding world_inv_def
  proof (intro conjI allI impI ballI)
    fix k e b assume "interest w' k = Some (e, NodePtr b)"
    then have "k \<noteq> fd" and "interest w k = Some (e, NodePtr b)" by (auto simp: w' int split: if_splits)
    moreover from this obtain h where "nodes w b = Some (k, h)" using world_inv_ptr [OF w] by blast
    ultimately show "\<exists>h. nodes w' b = Some (k, h)" using node frame by (auto simp: w')
  next
    fix b assume "b \<in> dom (nodes w')"
    then show "b < next_node w'" using w frame by (auto simp: w' world_inv_def split: if_splits)
  next
    assume "\<not> epoll_open w'"
    then show "interest w' = Map.empty"
      using w frame by (auto simp: w' int world_inv_def fun_eq_iff)
  qed
  moreover have "loop_owns el' w'"
  proof -
    have "\<exists>h. nodes w' b = Some (k, h)" if kb: "(k, b) \<in> set (mHandlers el)" and k: "k \<noteq> fd" for k b
    proof -
      obtain h where h: "nodes w b = Some (k, h)" using own kb by (auto simp: loop_owns_def)
      then have "b \<noteq> a" using node k by auto
      then show ?thesis using h frame by (simp add: w')
    qed
    then show ?thesis using own by (auto simp: loop_owns_def el' filter_key_fst)
  qed
  moreover have "a \<in> addrs el" using a by (force simp: addrs_def dest: map_of_SomeD)
  ultimately show ?thesis
    using frame by (auto simp: local_step_def w' el' addrs_def)
qed

lemma insert_handler_local:
  assumes w: "world_inv w" and own: "loop_owns el w" and st: "mState el"
    and r: "insert_handler fd h el w = (a, el', w')"
  shows "local_step el w el' w' \<and> (\<exists>h. nodes w' a = Some (fd, h)) \<and> map_of (mHandlers el') fd = Some a"
proof (cases "map_of (mHandlers el) fd")
  case (Some b)
  then have "(fd, b) \<in> set (mHandlers el)" by (rule map_of_SomeD)
  then have "\<exists>h. nodes w b = Some (fd, h)" using own by (auto simp: loop_owns_def)
  then show ?thesis using Some r w own by (auto simp: insert_handler_def local_step_refl)
next
  case None
  define n where "n = next_node w"
  have fresh: "nodes w n = None" using w by (force simp: world_inv_def n_def)
  have el': "el' = el\<lparr>mHandlers := (fd, n) # mHandlers el\<rparr>" and a: "a = n"
    and w': "w' = w\<lparr>nodes := (nodes w)(n \<mapsto> (fd, h)), next_node := Suc n\<rparr>"
    using None r by (auto simp: insert_handler_def n_def)
  have old: "nodes w' b = nodes w b" if "nodes w b \<noteq> None" for b
    using that fresh by (auto simp: w')
  have "world_inv w'"
    unfolding world_inv_def
  proof (intro conjI allI impI ballI)
    fix k e b assume "interest w' k = Some (e, NodePtr b)"
    then have "\<exists>h. nodes w b = Some (k, h)" using world_inv_ptr [OF w] by (simp add: w')
    then show "\<exists>h. nodes w' b = Some (k, h)" using old by fastforce
  next
    fix b assume "b \<in> dom (nodes w')"
    then have "b = n \<or> b \<in> dom (nodes w)" by (auto simp: w' split: if_splits)
    then show "b < next_node w'" using w by (auto simp: w' n_def world_inv_def less_Suc_eq)
  next
    show "\<not> epoll_open w' \<Longrightarrow> interest w' = Map.empty" using w by (simp add: w' world_inv_def)
  qed
  moreover have "loop_owns el' w'"
    using own old map_of_None_key [OF None] st by (fastforce simp: loop_owns_def el' w')
  ultimately show ?thesis
    by (auto simp: local_step_def el' w' a addrs_def n_def)
qed

lemma addEvent_local:
  assumes w: "world_inv w" and own: "loop_owns el w" and r: "addEvent ctl fd ev h el w = (ok, el', w')"
  shows "local_step el w el' w'"
proof (cases "mState el")
  case False
  then show ?thesis using r w own by (simp add: addEvent_def local_step_refl)
next
  case True
  obtain el1 w1 where r1: "(if map_of (mHandlers el) fd \<noteq> None then removeEvent ctl fd el w else (el, w)) = (el1, w1)"
    by fastforce
  have s1: "local_step el w el1 w1"
    using r1 w own by (auto split: if_splits intro: local_step_refl removeEvent_local)
  have st1: "mState el1" using r1 True by (auto simp: removeEvent_def split: if_splits option.splits prod.splits)
  have w1: "world_inv w1" and own1: "loop_owns el1 w1" using s1 by (simp_all add: local_step_def)
  obtain a el2 w2 where r2: "insert_handler fd h el1 (snd (setNonBlocking ctl fd w1)) = (a, el2, w2)" by (metis prod_cases3)
  have "local_step el1 w1 el2 w2 \<and> (\<exists>h. nodes w2 a = Some (fd, h)) \<and> map_of (mHandlers el2) fd = Some a"
    using insert_handler_local [OF _ _ st1 r2] w1 own1 by simp
  note s2 = this
  obtain w3 where r3: "epoll_ctl ctl EPOLL_CTL_ADD fd (ev, NodePtr a) w2 = (ok, w3)" and el': "el' = el2" "w' = w3"
    using r True by (simp only: addEvent_def r1 r2 Let_def prod.case) (auto split: prod.splits)
  have w2: "world_inv w2" and own2: "loop_owns el2 w2" using s2 by (simp_all add: local_step_def)
  have "world_inv w3" using w2 r3 by (rule epoll_ctl_inv) (use s2 in auto)
  then have "local_step el2 w2 el2 w3"
    using own2 epoll_ctl_frame [OF r3] by (simp add: local_step_def loop_owns_def)
  then have "local_step el1 w1 el2 w3" using s2 w1 own1 by (blast intro: local_step_trans)
  then show ?thesis using s1 w own by (simp add: el' local_step_trans)
qed

lemma loops_inv_world:
  assumes "loops_inv ls w" and "world_inv w'" and "nodes w' = nodes w"
  shows "loops_inv ls w'"
  using assms by (simp add: loops_inv_def loop_owns_def)

lemma modifyEvent_inv:
  assumes "world_inv w" and "loop_owns el w" and "modifyEvent ctl fd ev el w = (r, w')"
  shows "world_inv w' \<and> nodes w' = nodes w"
proof (cases "map_of (mHandlers el) fd")
  case None
  then show ?thesis using assms by (simp add: modifyEvent_def)
next
  case (Some a)
  then have "(fd, a) \<in> set (mHandlers el)" by (rule map_of_SomeD)
  then obtain h where h: "nodes w a = Some (fd, h)" using assms(2) by (auto simp: loop_owns_def)
  show ?thesis
  proof (cases "mState el")
    case True
    then have r: "epoll_ctl ctl EPOLL_CTL_MOD fd (ev, NodePtr a) w = (r, w')"
      using assms(3) Some by (simp add: modifyEvent_def)
    have "world_inv w'" using assms(1) r by (rule epoll_ctl_inv) (use h in blast)
    then show ?thesis using epoll_ctl_frame [OF r] by simp
  qed (use assms Some in \<open>simp add: modifyEvent_def\<close>)
qed

lemma close_fd_inv: "world_inv w \<Longrightarrow> world_inv (close_fd fd w)"
  by (auto simp: world_inv_def close_fd_def fun_eq_iff)

lemma interrupt_handler_inv: "world_inv w \<Longrightarrow> world_inv (interrupt_handler w)"
  by (simp add: world_inv_def interrupt_handler_def)

text \<open>Deleting is refused for descriptors that are not registered only.\<close>

definition deletes :: "(ctl_op \<Rightarrow> fd \<Rightarrow> bool) \<Rightarrow> bool" where
  "deletes ctl \<longleftrightarrow> (\<forall>fd. ctl EPOLL_CTL_DEL fd)"

lemma delete_all_effect:
  assumes "deletes ctl" and "world_inv w"
  shows "nodes (delete_all ctl hs w) = nodes w \<and> next_node (delete_all ctl hs w) = next_node w \<and>
    epoll_open (delete_all ctl hs w) = epoll_open w \<and>
    interest (delete_all ctl hs w) = (\<lambda>k. if k \<in> fst ` set hs then None else interest w k)"
  using assms(2)
proof (induction hs arbitrary: w)
  case (Cons e hs)
  obtain fd a where e: "e = (fd, a)" by (cases e)
  obtain r w1 where r: "epoll_ctl ctl EPOLL_CTL_DEL fd (0, NodePtr a) w = (r, w1)" by fastforce
  have w1: "world_inv w1" using Cons.prems r by (rule epoll_ctl_inv) simp
  have "interest w1 = (interest w)(fd := None)"
    using r Cons.prems assms(1)
    by (auto simp: epoll_ctl_def deletes_def world_inv_def fun_eq_iff split: if_splits)
  then show ?case using Cons.IH [OF w1] epoll_ctl_frame [OF r] by (auto simp: e r fun_eq_iff)
qed simp

lemma removeHandlers_local:
  assumes w: "world_inv w" and own: "loop_owns el w" and del: "deletes ctl"
    and r: "removeHandlers ctl el w = (el', w')"
  shows "local_step el w el' w' \<and> mHandlers el' = []"
proof (cases "mState el")
  case False
  then show ?thesis using r w own by (auto simp: removeHandlers_def local_step_refl loop_owns_def)
next
  case True
  then have el': "el' = el\<lparr>mHandlers := []\<rparr>"
    and w': "w' = free_nodes (addrs el) (delete_all ctl (mHandlers el) w)"
    using r by (auto simp: removeHandlers_def addrs_def)
  note eff = delete_all_effect [OF del w, of "mHandlers el"]
  have "world_inv w'"
    unfolding world_inv_def
  proof (intro conjI allI impI ballI)
    fix k e b assume "interest w' k = Some (e, NodePtr b)"
    then have k: "k \<notin> fst ` set (mHandlers el)" and "interest w k = Some (e, NodePtr b)"
      using eff by (auto simp: w' free_nodes_def split: if_splits)
    then obtain h where h: "nodes w b = Some (k, h)" using world_inv_ptr [OF w] by blast
    have "b \<notin> addrs el"
    proof
      assume "b \<in> addrs el"
      then obtain k' where "(k', b) \<in> set (mHandlers el)" by (auto simp: addrs_def)
      moreover from this obtain h' where "nodes w b = Some (k', h')" using own by (auto simp: loop_owns_def)
      ultimately show False using h k by force
    qed
    then show "\<exists>h. nodes w' b = Some (k, h)" using eff h by (simp add: w' free_nodes_def)
  next
    fix b assume "b \<in> dom (nodes w')"
    then show "b < next_node w'" using eff w by (auto simp: w' free_nodes_def world_inv_def split: if_splits)
  next
    show "\<not> epoll_open w' \<Longrightarrow> interest w' = Map.empty"
      using eff w by (auto simp: w' free_nodes_def world_inv_def)
  qed
  then show ?thesis
    using eff by (auto simp: local_step_def loop_owns_def el' w' free_nodes_def addrs_def)
qed

lemma destroy_loop_eq: "loop_owns el w \<Longrightarrow> destroy_loop ctl el w = snd (removeHandlers ctl el w)"
  by (auto simp: destroy_loop_def removeHandlers_def loop_owns_def free_nodes_def)

lemma local_step_empty:
  "local_step el w el1 w' \<Longrightarrow> mHandlers el' = [] \<Longrightarrow> local_step el w el' w'"
  by (simp add: local_step_def loop_owns_def addrs_def)

interpretation adding: owner_operation "\<lambda>el w. snd (addEvent ctl fd ev h el w)" "\<lambda>_ _. True"
  for ctl fd ev h
  by unfold_locales (metis addEvent_local prod.collapse)

interpretation removing: owner_operation "removeEvent ctl fd" "\<lambda>_ _. True" for ctl fd
  by unfold_locales (rule removeEvent_local)

interpretation clearing: owner_operation "removeHandlers ctl" "\<lambda>_ _. deletes ctl" for ctl
  by unfold_locales (simp add: removeHandlers_local)

interpretation destroying: owner_operation "\<lambda>el w. (moved_from el, destroy_loop ctl el w)" "\<lambda>_ _. deletes ctl" for ctl
proof unfold_locales
  fix w w' :: "'a world" and el el'
  assume w: "world_inv w" and own: "loop_owns el w" and del: "deletes ctl"
    and r: "(moved_from el, destroy_loop ctl el w) = (el', w')"
  obtain el1 w1 where r1: "removeHandlers ctl el w = (el1, w1)" by fastforce
  have "w1 = w'" using r r1 by (simp add: destroy_loop_eq [OF own])
  moreover have "local_step el w el1 w1" using removeHandlers_local [OF w own del r1] by simp
  moreover have "mHandlers el' = []" using r by (auto simp: moved_from_def)
  ultimately show "local_step el w el' w'" by (blast intro: local_step_empty)
qed

interpretation assigning: owner_operation "assign_loop ctl other" "\<lambda>_ _. deletes ctl" for ctl other
proof unfold_locales
  fix w w' :: "'a world" and el el'
  assume w: "world_inv w" and own: "loop_owns el w" and del: "deletes ctl"
    and r: "assign_loop ctl other el w = (el', w')"
  obtain el1 w1 where r1: "removeHandlers ctl el w = (el1, w1)" by fastforce
  then show "local_step el w el' w'"
    using removeHandlers_local [OF w own del r1] r by (auto simp: assign_loop_def intro: local_step_empty)
qed

text \<open>Objects may trade places as long as no two of them hold the same handlers.\<close>

lemma loops_inv_reassign:
  assumes inv: "loops_inv ls w"
    and from_old: "\<And>j. j < length ls' \<Longrightarrow> mHandlers (ls' ! j) = [] \<or> (g j < length ls \<and> ls' ! j = ls ! g j)"
    and inj: "\<And>j k. j < length ls' \<Longrightarrow> k < length ls' \<Longrightarrow> j \<noteq> k \<Longrightarrow> mHandlers (ls' ! j) \<noteq> [] \<Longrightarrow>
      mHandlers (ls' ! k) \<noteq> [] \<Longrightarrow> g j \<noteq> g k"
  shows "loops_inv ls' w"
proof -
  have own: "loop_owns (ls' ! j) w" if "j < length ls'" for j
    using from_old [OF that] inv by (auto simp: loops_inv_def loop_owns_def)
  have "addrs (ls' ! j) \<inter> addrs (ls' ! k) = {}" if jk: "j < length ls'" "k < length ls'" "j \<noteq> k" for j k
  proof (cases "mHandlers (ls' ! j) = [] \<or> mHandlers (ls' ! k) = []")
    case True
    then show ?thesis by (auto simp: addrs_def)
  next
    case False
    then show ?thesis
      using from_old [OF jk(1)] from_old [OF jk(2)] inj [OF jk] inv by (auto simp: loops_inv_def)
  qed
  then show ?thesis using inv own by (auto simp: loops_inv_def in_set_conv_nth)
qed

lemma loop_step_inv:
  assumes inv: "loops_inv ls w" and del: "deletes ctl" and ok: "op_ok opn ls"
    and step: "loop_step ctl opn (ls, w) = (ls', w')"
  shows "loops_inv ls' w'"
proof (cases opn)
  case (Add i fd ev h)
  then show ?thesis
    using adding.keeps_loops_inv [OF inv, of i ctl fd ev h] ok step by (auto split: prod.splits)
next
  case (Modify i fd ev)
  obtain r w1 where "modifyEvent ctl fd ev (ls ! i) w = (r, w1)" by fastforce
  then show ?thesis
    using modifyEvent_inv [of w "ls ! i" ctl fd ev] loops_inv_world [OF inv] inv Modify ok step
    by (auto simp: loops_inv_def)
next
  case (Remove i fd)
  then show ?thesis
    using removing.keeps_loops_inv [OF inv, of i ctl fd] ok step by (auto split: prod.splits)
next
  case (CopyConstruct i)
  have "loops_inv (ls @ [copy_loop (ls ! i)]) w"
    by (rule loops_inv_reassign [OF inv, where g = id])
      (auto simp: nth_append copy_loop_def split: if_splits)
  then show ?thesis using CopyConstruct step by simp
next
  case (MoveConstruct i)
  have "loops_inv (ls[i := moved_from (ls ! i)] @ [ls ! i]) w"
    using ok MoveConstruct
    by (intro loops_inv_reassign [OF inv, where g = "\<lambda>j. if j = length ls then i else j"])
      (auto simp: nth_append moved_from_def nth_list_update split: if_splits)
  then show ?thesis using MoveConstruct step by simp
next
  case (Destroy i)
  then show ?thesis
    using destroying.keeps_loops_inv [OF inv, of i ctl] del ok step by simp
next
  case (CopyAssign i j)
  then show ?thesis
    using assigning.keeps_loops_inv [OF inv, of i ctl "ls ! j"] del ok step by (auto split: prod.splits)
next
  case (MoveAssign i j)
  obtain el1 w1 where r: "removeHandlers ctl (ls ! i) w = (el1, w1)" by fastforce
  have ij: "i < length ls" "j < length ls" "i \<noteq> j" using ok MoveAssign by simp_all
  have inv1: "loops_inv (ls[i := el1]) w1"
    using clearing.keeps_loops_inv [OF inv ij(1) del r] .
  have whole: "el1\<lparr>mState := mState (ls ! j), mHandlers := mHandlers (ls ! j)\<rparr> = ls ! j" by simp
  have ls': "ls' = ls[j := moved_from (ls ! j), i := ls ! j]" "w' = w1"
    using step MoveAssign r by (auto simp: move_assign_def whole)
  have "loops_inv (ls[j := moved_from (ls ! j), i := ls ! j]) w1"
    using ij by (intro loops_inv_reassign [OF inv1, where g = "\<lambda>k. if k = i then j else k"])
      (auto simp: moved_from_def nth_list_update split: if_splits)
  then show ?thesis by (simp add: ls')
next
  case (CloseFd fd)
  then show ?thesis
    using loops_inv_world [OF inv, of w'] close_fd_inv inv step by (auto simp: loops_inv_def close_fd_def)
next
  case Interrupt
  then show ?thesis
    using loops_inv_world [OF inv, of w'] interrupt_handler_inv inv step
    by (auto simp: loops_inv_def interrupt_handler_def)
qed

lemma loops_start_inv: "loops_inv [\<lparr>mState = True, mHandlers = []\<rparr>] (world_init interruptFd)"
  by (auto simp: loops_inv_def world_inv_def loop_owns_def world_init_def split: if_splits)

lemma loops_reachable_inv: "loops_reachable ctl interruptFd ls w \<Longrightarrow> deletes ctl \<Longrightarrow> loops_inv ls w"
proof (induction rule: loops_reachable.induct)
  case (loops_step ls w opn ls' w')
  then show ?case by (blast intro: loop_step_inv)
qed (simp add: loops_start_inv)

text \<open>
  C17. In every program of EventLoop constructions, copies, moves, assignments, destructions and calls,
  each pointer in the kernel's interest list leads to a live handler node of its own descriptor.
\<close>

theorem handler_pointers_never_dangle:
  assumes "deletes ctl" and "loops_reachable ctl interruptFd ls w"
    and "interest w fd = Some (ev, NodePtr a)" and "get s = w"
  shows "\<exists>h. nodes w a = Some (fd, h) \<and> call_ptr get put invoke (e, NodePtr a) s = invoke h e s"
proof -
  have "world_inv w" using loops_reachable_inv [OF assms(2,1)] by (simp add: loops_inv_def)
  then show ?thesis using world_inv_ptr [OF _ assms(3)] assms(4) by (auto simp: call_ptr_def)
qed

section \<open>Which handler an event reaches\<close>

text \<open>The handler registered for a descriptor, through the interest list.\<close>

definition registered :: "'h world \<Rightarrow> fd \<Rightarrow> (u32 \<times> 'h) option" where
  "registered w fd =
     (case interest w fd of
        Some (ev, NodePtr a) \<Rightarrow> map_option (\<lambda>(k, h). (ev, h)) (nodes w a)
      | _ \<Rightarrow> None)"

lemma removeEvent_removes:
  assumes "map_of (mHandlers el) fd = Some a" and "mState el" and "deletes ctl"
    and "epoll_open w" and "interest w fd \<noteq> None" and "removeEvent ctl fd el w = (el', w')"
  shows "mState el' \<and> map_of (mHandlers el') fd = None \<and> interest w' fd = None \<and> epoll_open w'"
proof -
  have "map_of (filter (\<lambda>(k, _). k \<noteq> fd) xs) fd = None" for xs :: "(fd \<times> nat) list"
    by (auto simp: map_of_eq_None_iff)
  then show ?thesis using assms by (auto simp: removeEvent_def epoll_ctl_def deletes_def domIff split: if_splits)
qed

lemma addEvent_fresh:
  assumes "mState el" and "map_of (mHandlers el) fd = None" and "epoll_open w" and "interest w fd = None"
    and "ctl EPOLL_CTL_ADD fd" and "addEvent ctl fd ev h el w = (ok, el', w')"
  shows "ok \<and> registered w' fd = Some (ev, h)"
  using assms
  by (auto simp: addEvent_def insert_handler_def epoll_ctl_def registered_def Let_def domIff split: if_splits)

theorem addEvent_registers_the_handler:
  assumes "mState el" and "epoll_open w" and "deletes ctl" and "ctl EPOLL_CTL_ADD fd"
    and "map_of (mHandlers el) fd = None \<longleftrightarrow> interest w fd = None"
    and "addEvent ctl fd ev h el w = (ok, el', w')"
  shows "ok \<and> registered w' fd = Some (ev, h)"
proof (cases "map_of (mHandlers el) fd")
  case None
  then have "interest w fd = None" using assms(5) by simp
  then show ?thesis using addEvent_fresh [of el fd w ctl ev h ok el' w'] assms None by simp
next
  case (Some a)
  obtain el1 w1 where r: "removeEvent ctl fd el w = (el1, w1)" by fastforce
  have after: "mState el1" "map_of (mHandlers el1) fd = None" "interest w1 fd = None" "epoll_open w1"
    using removeEvent_removes [OF Some assms(1,3,2) _ r] assms(5) Some by auto
  then have "addEvent ctl fd ev h el w = addEvent ctl fd ev h el1 w1"
    using assms(1) Some r by (simp add: addEvent_def)
  then show ?thesis using addEvent_fresh [of el1 fd w1 ctl ev h ok el' w'] after assms(4,6) by simp
qed

text \<open>
  A descriptor that was closed without \<open>removeEvent\<close> is off the interest list while its entry is
  still in the map. When its number comes up again the delete fails, the insert leaves the old
  entry alone, and the call reports success with the old handler registered.
\<close>

theorem reused_descriptor_keeps_old_handler:
  assumes "mState el" and "epoll_open w" and "ctl EPOLL_CTL_ADD fd"
    and "map_of (mHandlers el) fd = Some a" and "nodes w a = Some (fd, old)" and "interest w fd = None"
    and "addEvent ctl fd ev h el w = (ok, el', w')"
  shows "ok \<and> el' = el \<and> nodes w' = nodes w \<and> registered w' fd = Some (ev, old)"
  using assms
  by (auto simp: addEvent_def removeEvent_def insert_handler_def epoll_ctl_def registered_def Let_def domIff
      split: if_splits)

theorem moved_from_loops_refuse:
  assumes "\<not> mState el" and "mHandlers el = []"
  shows "addEvent ctl fd ev h el w = (False, el, w) \<and> modifyEvent ctl fd ev el w = (False, w) \<and>
    removeEvent ctl fd el w = (el, w) \<and> destroy_loop ctl el w = w"
  using assms
  by (simp add: addEvent_def modifyEvent_def removeEvent_def destroy_loop_def removeHandlers_def free_nodes_def)

text \<open>Destroying an object unregisters its descriptors, frees its nodes and touches nothing else.\<close>

theorem destructor_unregisters_its_handlers:
  assumes "world_inv w" and "loop_owns el w" and "deletes ctl"
  shows "interest (destroy_loop ctl el w) = (\<lambda>k. if k \<in> fst ` set (mHandlers el) then None else interest w k) \<and>
    nodes (destroy_loop ctl el w) = (\<lambda>a. if a \<in> addrs el then None else nodes w a)"
proof (cases "mState el")
  case True
  then show ?thesis
    using delete_all_effect [OF assms(3,1), of "mHandlers el"]
    by (simp add: destroy_loop_eq [OF assms(2)] removeHandlers_def free_nodes_def addrs_def fun_eq_iff)
next
  case False
  then show ?thesis using assms(2)
    by (simp add: destroy_loop_eq [OF assms(2)] removeHandlers_def loop_owns_def addrs_def)
qed

section \<open>The event thread\<close>

text \<open>
  What the manual page says of a call with no time limit: it returns at least one event, and each
  carries the data registered for a descriptor and some of the events registered or one of
  \<open>EPOLLERR\<close> (8) and \<open>EPOLLHUP\<close> (16).
\<close>

definition event_of :: "'h world \<Rightarrow> u32 \<times> handler_ptr \<Rightarrow> bool" where
  "event_of w e \<longleftrightarrow> (\<exists>fd ev. interest w fd = Some (ev, snd e) \<and> fst e AND NOT (ev OR 0x18) = 0)"

definition epoll_wait_spec :: "(nat \<Rightarrow> 'h world \<Rightarrow> (u32 \<times> handler_ptr) list option) \<Rightarrow> bool" where
  "epoll_wait_spec epoll_wait \<longleftrightarrow>
     (\<forall>k w ready. epoll_wait k w = Some ready \<longrightarrow> ready \<noteq> [] \<and> (\<forall>e \<in> set ready. event_of w e))"

text \<open>
  The contract of a client: its handlers keep an invariant under which no pointer dangles. Then
  the thread never calls a destroyed handler and never reads an event that was not stored.
\<close>

locale event_client =
  fixes get :: "'s \<Rightarrow> 'h world"
    and put :: "'h world \<Rightarrow> 's \<Rightarrow> 's"
    and invoke :: "'h \<Rightarrow> u32 \<Rightarrow> 's \<Rightarrow> 's result"
    and inv :: "'s \<Rightarrow> bool"
  assumes inv_world: "inv s \<Longrightarrow> world_inv (get s)"
    and inv_interrupt: "inv s \<Longrightarrow> inv (put (interrupt_handler (get s)) s)"
    and invoke_inv: "inv s \<Longrightarrow> interest (get s) fd = Some (ev, NodePtr a) \<Longrightarrow> nodes (get s) a = Some (fd, h) \<Longrightarrow>
      e AND NOT (ev OR 0x18) = 0 \<Longrightarrow> \<exists>s'. invoke h e s = Inr s' \<and> inv s'"
begin

lemma call_ptr_returns:
  assumes "inv s" and "event_of (get s) e"
  shows "\<exists>s'. call_ptr get put invoke e s = Inr s' \<and> inv s'"
proof (cases "snd e")
  case InterruptPtr
  then show ?thesis using inv_interrupt [OF assms(1)] by (simp add: call_ptr_def)
next
  case (NodePtr a)
  with assms(2) obtain fd ev where i: "interest (get s) fd = Some (ev, NodePtr a)"
    and e: "fst e AND NOT (ev OR 0x18) = 0" by (auto simp: event_of_def)
  obtain h where h: "nodes (get s) a = Some (fd, h)"
    using world_inv_ptr [OF inv_world [OF assms(1)] i] by blast
  show ?thesis using invoke_inv [OF assms(1) i h e] h by (simp add: call_ptr_def NodePtr)
qed

lemma thread_returns:
  assumes "epoll_wait_spec epoll_wait" and "inv s"
  shows "\<exists>s'. event_thread get put invoke epoll_wait k events s = Inr s' \<and> inv s'"
  using assms(2)
proof (induction k arbitrary: events s)
  case (Suc k)
  show ?case
  proof (cases "epoll_wait k (get s)")
    case None
    then show ?thesis using Suc.prems by simp
  next
    case (Some ready)
    then obtain e es where ready: "ready = e # es" and "event_of (get s) e"
      using assms(1) by (cases ready) (auto simp: epoll_wait_spec_def)
    then obtain s1 where "call_ptr get put invoke e s = Inr s1" "inv s1"
      using call_ptr_returns Suc.prems by blast
    then show ?thesis using Suc.IH [of s1] Suc.prems by (simp add: Some ready wait_n_def)
  qed
qed simp

end

text \<open>
  The join in the destructor of \<open>EventLoopInternal\<close> returns: a client that leaves the interrupt descriptor on the interest list is stopped by the first call of
  \<open>epoll_wait\<close> that reports it first, and \<open>epoll_open\<close> false is the condition with which the loop ends. Calls do not
  fail while there is that descriptor to wait for, and the kernel takes ready descriptors in turn.
\<close>

definition interrupted_at :: "fd \<Rightarrow> (nat \<Rightarrow> 'h world \<Rightarrow> (u32 \<times> handler_ptr) list option) \<Rightarrow> nat \<Rightarrow> bool" where
  "interrupted_at interruptFd epoll_wait j \<longleftrightarrow>
     (\<forall>w. interest w interruptFd = Some (1, InterruptPtr) \<longrightarrow>
        (\<exists>es. epoll_wait j w = Some ((1, InterruptPtr) # es)))"

definition waits_forever :: "fd \<Rightarrow> (nat \<Rightarrow> 'h world \<Rightarrow> (u32 \<times> handler_ptr) list option) \<Rightarrow> bool" where
  "waits_forever interruptFd epoll_wait \<longleftrightarrow>
     (\<forall>k w. interest w interruptFd = Some (1, InterruptPtr) \<longrightarrow> epoll_wait k w \<noteq> None)"

locale stoppable_client = event_client get put invoke inv
  for get :: "'s \<Rightarrow> 'h world" and put :: "'h world \<Rightarrow> 's \<Rightarrow> 's" and invoke :: "'h \<Rightarrow> u32 \<Rightarrow> 's \<Rightarrow> 's result"
    and inv :: "'s \<Rightarrow> bool" +
  fixes interruptFd :: fd
  assumes get_put: "get (put w s) = w"
    and interrupt_kept: "inv s \<Longrightarrow> epoll_open (get s) \<Longrightarrow> interest (get s) interruptFd = Some (1, InterruptPtr)"
begin

lemma stopped: "\<not> epoll_open (get s) \<Longrightarrow> event_thread get put invoke epoll_wait k events s = Inr s"
  by (cases k) simp_all

lemma thread_stops:
  assumes spec: "epoll_wait_spec epoll_wait" "waits_forever interruptFd epoll_wait" and j: "interrupted_at interruptFd epoll_wait j"
    and "inv s" and "j < k"
  shows "\<exists>s'. event_thread get put invoke epoll_wait k events s = Inr s' \<and> inv s' \<and> \<not> epoll_open (get s')"
  using assms(4,5)
proof (induction k arbitrary: events s)
  case (Suc k)
  show ?case
  proof (cases "epoll_open (get s)")
    case True
    then obtain ready where wait: "epoll_wait k (get s) = Some ready"
      using spec(2) interrupt_kept [OF Suc.prems(1)] by (fastforce simp: waits_forever_def)
    then obtain e es where ready: "ready = e # es" and e: "event_of (get s) e"
      using spec(1) by (cases ready) (auto simp: epoll_wait_spec_def)
    obtain s1 where s1: "call_ptr get put invoke e s = Inr s1" "inv s1"
      using call_ptr_returns [OF Suc.prems(1) e] by blast
    show ?thesis
    proof (cases "j = k")
      case now: True
      have "e = (1, InterruptPtr)"
        using j interrupt_kept [OF Suc.prems(1) True] wait ready now by (fastforce simp: interrupted_at_def)
      then have "\<not> epoll_open (get s1)" using s1(1) by (auto simp: call_ptr_def get_put interrupt_handler_def)
      then show ?thesis using s1 True by (simp add: wait ready wait_n_def stopped)
    next
      case False
      then show ?thesis using Suc.IH [OF s1(2)] Suc.prems(2) s1(1) True by (simp add: wait ready wait_n_def)
    qed
  qed (use Suc.prems in simp)
qed simp

end

text \<open>
  The precedence slip in the loop condition: whatever a call of \<open>epoll_wait\<close> returns, only the
  first event is dispatched, as if the call had returned that one alone.
\<close>

lemma event_thread_array:
  assumes "\<And>k w ready. epoll_wait k w = Some ready \<Longrightarrow> ready \<noteq> []"
  shows "event_thread get put invoke epoll_wait k events s =
    event_thread get put invoke (\<lambda>k w. map_option (take 1) (epoll_wait k w)) k events' s"
proof (induction k arbitrary: events events' s)
  case (Suc k)
  show ?case
  proof (cases "epoll_wait k (get s)")
    case (Some ready)
    with assms obtain e es where ready: "ready = e # es" by (cases ready) auto
    have "event_thread get put invoke epoll_wait k = event_thread get put invoke epoll_wait k" by simp
    then show ?thesis
      using Suc.IH by (cases "call_ptr get put invoke e s") (simp_all add: Some ready wait_n_def)
  qed simp
qed simp

text \<open>
  C35. The dispatch loop behaves as if epoll_wait returned at most one event: the comparison in its
  condition binds before the assignment, and the other events of a batch are not dispatched.
\<close>

theorem one_event_per_wait:
  assumes "epoll_wait_spec epoll_wait"
  shows "event_thread get put invoke epoll_wait k events s =
    event_thread get put invoke (\<lambda>k w. map_option (take 1) (epoll_wait k w)) k events s"
  by (rule event_thread_array) (use assms in \<open>simp add: epoll_wait_spec_def\<close>)

section \<open>The theorems at concrete inputs\<close>

definition example_ctl :: "ctl_op \<Rightarrow> fd \<Rightarrow> bool" where
  "example_ctl = (\<lambda>_ _. True)"

definition example_loop :: event_loop where
  "example_loop = \<lparr>mState = True, mHandlers = [(7, 0)]\<rparr>"

definition example_world :: "string world" where
  "example_world = \<lparr>epoll_open = True, interest = [3 \<mapsto> (1, InterruptPtr), 7 \<mapsto> (1, NodePtr 0)],
     nodes = [0 \<mapsto> (7, ''old'')], next_node = 1, nonblocking = {7}\<rparr>"

lemma example_ctl_deletes: "deletes example_ctl"
  by (simp add: deletes_def example_ctl_def)

lemma example_reachable: "loops_reachable example_ctl 3 [example_loop] example_world"
proof -
  have "loop_step example_ctl (Add 0 7 1 ''old'') ([\<lparr>mState = True, mHandlers = []\<rparr>], world_init 3) =
      ([example_loop], example_world)"
    by (simp add: addEvent_def insert_handler_def epoll_ctl_def world_init_def example_loop_def
        example_world_def example_ctl_def)
  then show ?thesis
    using loops_step [OF loops_start, of "Add 0 7 1 ''old''" example_ctl 3] by simp
qed

lemma example_inv: "world_inv example_world \<and> loop_owns example_loop example_world"
  using loops_reachable_inv [OF example_reachable example_ctl_deletes] by (simp add: loops_inv_def)

theorem handler_pointers_never_dangle_witness:
  "\<exists>h. nodes example_world 0 = Some (7, h) \<and>
     call_ptr id (\<lambda>w s. w) (\<lambda>h e s. Inr s) (1, NodePtr 0) example_world = Inr example_world"
  using handler_pointers_never_dangle [OF example_ctl_deletes example_reachable,
      of 7 1 0 id example_world "\<lambda>w s. w" "\<lambda>h e s. Inr s" 1]
  by (auto simp: example_world_def)

theorem addEvent_registers_the_handler_witness:
  "case addEvent example_ctl 7 4 ''new'' example_loop example_world of (ok, el', w') \<Rightarrow>
     ok \<and> registered w' 7 = Some (4, ''new'')"
proof -
  obtain ok el' w' where r: "addEvent example_ctl 7 4 ''new'' example_loop example_world = (ok, el', w')"
    by (metis prod_cases3)
  have "ok \<and> registered w' 7 = Some (4, ''new'')"
    by (rule addEvent_registers_the_handler [OF _ _ example_ctl_deletes _ _ r])
      (simp_all add: example_loop_def example_world_def example_ctl_def)
  then show ?thesis by (simp add: r)
qed

theorem reused_descriptor_keeps_old_handler_witness:
  "case addEvent example_ctl 7 4 ''new'' example_loop (close_fd 7 example_world) of (ok, el', w') \<Rightarrow>
     ok \<and> registered w' 7 = Some (4, ''old'')"
proof -
  obtain ok el' w' where r: "addEvent example_ctl 7 4 ''new'' example_loop (close_fd 7 example_world) = (ok, el', w')"
    by (metis prod_cases3)
  have "ok \<and> el' = example_loop \<and> nodes w' = nodes (close_fd 7 example_world) \<and>
      registered w' 7 = Some (4, ''old'')"
    by (rule reused_descriptor_keeps_old_handler [OF _ _ _ _ _ _ r, where a = 0])
      (simp_all add: example_loop_def example_world_def example_ctl_def close_fd_def)
  then show ?thesis by (simp add: r)
qed

theorem moved_from_loops_refuse_witness:
  "addEvent example_ctl 7 4 ''new'' (moved_from example_loop) example_world =
     (False, moved_from example_loop, example_world)"
  using moved_from_loops_refuse [of "moved_from example_loop" example_ctl 7 4 "''new''" example_world]
  by (simp add: moved_from_def)

theorem destructor_unregisters_its_handlers_witness:
  "interest (destroy_loop example_ctl example_loop example_world) 7 = None \<and>
   interest (destroy_loop example_ctl example_loop example_world) 3 = Some (1, InterruptPtr)"
  using destructor_unregisters_its_handlers [of example_world example_loop example_ctl] example_inv
    example_ctl_deletes
  by (simp add: example_world_def example_loop_def)

definition example_wait :: "nat \<Rightarrow> string world \<Rightarrow> (u32 \<times> handler_ptr) list option" where
  "example_wait k w =
     (if interest w = interest example_world then Some [(1, NodePtr 0), (1, InterruptPtr)] else None)"

lemma example_wait_spec: "epoll_wait_spec example_wait"
proof -
  have "event_of w (1, NodePtr 0)" "event_of w (1, InterruptPtr)" if "interest w = interest example_world" for w :: "string world"
  proof -
    have "interest w 7 = Some (1, NodePtr 0)" "interest w 3 = Some (1, InterruptPtr)"
      using that by (simp_all add: example_world_def)
    then show "event_of w (1, NodePtr 0)" "event_of w (1, InterruptPtr)"
      by (force simp: event_of_def)+
  qed
  then show ?thesis by (auto simp: epoll_wait_spec_def example_wait_def split: if_splits)
qed

theorem one_event_per_wait_witness:
  "event_thread fst (\<lambda>w s. (w, snd s)) (\<lambda>h e s. Inr (fst s, h # snd s)) example_wait 1 [] (example_world, []) =
     event_thread fst (\<lambda>w s. (w, snd s)) (\<lambda>h e s. Inr (fst s, h # snd s))
       (\<lambda>k w. map_option (take 1) (example_wait k w)) 1 [] (example_world, []) \<and>
   event_thread fst (\<lambda>w s. (w, snd s)) (\<lambda>h e s. Inr (fst s, h # snd s)) example_wait 1 [] (example_world, []) =
     Inr (example_world, [''old''])"
proof
  show "event_thread fst (\<lambda>w s. (w, snd s)) (\<lambda>h e s. Inr (fst s, h # snd s)) example_wait 1 [] (example_world, []) =
     Inr (example_world, [''old''])"
    by (simp add: example_wait_def call_ptr_def wait_n_def) (simp add: example_world_def)
qed (rule one_event_per_wait [OF example_wait_spec])

end
