(* ===== verification/Serial_16450.thy ===== *)
theory Serial_16450
  imports Device_Pio Event_Loop
begin

text \<open>
  The serial port (src/hardware/Serial.cpp): a 16450 UART whose line is a Unix socket. A port has
  the registers the guest sees, the clients connected to its socket, and the events it is waiting
  for; the guest's accesses come from the run loop, the socket and timer events from the event
  thread, and every method takes the port's mutex, so that each is one atomic step. The system
  calls a method makes are changes of a record \<open>host\<close>: the bytes waiting at each socket, the bytes
  passed to \<open>write\<close>, whose result the code ignores, the interrupts raised, the timers armed and the descriptors
  passed to \<open>close\<close>. That \<open>stop\<close> takes the port's interrupt line off KVM is not part of the state. \<open>settime\<close> is what
  \<open>timerfd_settime\<close> makes of a timer and \<open>ctl\<close> says which \<open>epoll_ctl\<close> requests are refused.
\<close>

section \<open>State\<close>

datatype serial_handler = ServerEvent | ReadTimerEvent | WriteTimerEvent | ClientEvent fd

datatype serial_register = Data_DivisorLowByte | InterruptControl_DivisorHighByte
  | InterruptStatus_FifoControl | LineControl | ModemControl | LineStatus | ModemStatus | Scratchpad

definition serial_register_of :: "u16 \<Rightarrow> serial_register" where
  "serial_register_of address =
     (let r = address AND 0x7 in
      if r = 0 then Data_DivisorLowByte
      else if r = 1 then InterruptControl_DivisorHighByte
      else if r = 2 then InterruptStatus_FifoControl
      else if r = 3 then LineControl
      else if r = 4 then ModemControl
      else if r = 5 then LineStatus
      else if r = 6 then ModemStatus
      else Scratchpad)"

record registers =
  receive :: u8
  divisor :: u16
  interruptControl :: u8
  lineControl :: u8
  modemControl :: u8
  scratchpad :: u8
  readable :: bool
  writable :: bool
  readInterruptFlag :: bool
  writeInterruptFlag :: bool
  readInterruptEnabled :: bool
  writeInterruptEnabled :: bool

text \<open>\<open>clients\<close> is a \<open>std::set\<close>: an ascending list without repetitions.\<close>

record descriptors =
  clients :: "fd list"
  server :: fd
  vm :: fd
  irq :: fd
  refresh :: fd
  readTimer :: fd
  writeTimer :: fd

text \<open>\<open>self\<close> tells the ports of a program apart: it is the \<open>this\<close> that the handlers capture.\<close>

record serial =
  self :: nat
  mEventLoop :: event_loop
  mSocketName :: string
  mGSI :: u32
  mEventFlags :: u32
  fds :: descriptors
  regs :: registers

record host =
  inbox :: "fd \<Rightarrow> u8 list"
  sent :: "(fd \<times> u8) list"
  irqs :: nat
  timers :: "fd \<Rightarrow> nat option"
  closed :: "fd list"
  backlog :: "fd list"

text \<open>A port with its host side, and with the event loop that it shares with the other ports.\<close>

record port =
  com :: serial
  env :: host

type_synonym port_world = "(nat \<times> serial_handler) world"

record line = port +
  net :: port_world

definition EPOLLIN :: u32 where "EPOLLIN = 1"
definition EPOLLOUT :: u32 where "EPOLLOUT = 4"
definition EPOLLERR :: u32 where "EPOLLERR = 8"

definition registers_init :: registers where
  "registers_init = \<lparr>receive = 0, divisor = 0, interruptControl = 0, lineControl = 0, modemControl = 0,
     scratchpad = 0, readable = False, writable = False, readInterruptFlag = False,
     writeInterruptFlag = False, readInterruptEnabled = False, writeInterruptEnabled = False\<rparr>"

definition descriptors_init :: descriptors where
  "descriptors_init = \<lparr>clients = [], server = -1, vm = -1, irq = -1, refresh = -1, readTimer = -1, writeTimer = -1\<rparr>"

definition serial_init :: "nat \<Rightarrow> event_loop \<Rightarrow> serial" where
  "serial_init i eventLoop = \<lparr>self = i, mEventLoop = copy_loop eventLoop, mSocketName = [], mGSI = 0,
     mEventFlags = EPOLLIN OR EPOLLOUT OR EPOLLERR, fds = descriptors_init, regs = registers_init\<rparr>"

text \<open>Updates of the nested records.\<close>

definition upd_regs :: "(registers \<Rightarrow> registers) \<Rightarrow> line \<Rightarrow> line" where
  "upd_regs f l = l\<lparr>com := (com l)\<lparr>regs := f (regs (com l))\<rparr>\<rparr>"

definition upd_fds :: "(descriptors \<Rightarrow> descriptors) \<Rightarrow> line \<Rightarrow> line" where
  "upd_fds f l = l\<lparr>com := (com l)\<lparr>fds := f (fds (com l))\<rparr>\<rparr>"

definition upd_env :: "(host \<Rightarrow> host) \<Rightarrow> line \<Rightarrow> line" where
  "upd_env f l = l\<lparr>env := f (env l)\<rparr>"

definition upd_flags :: "(u32 \<Rightarrow> u32) \<Rightarrow> line \<Rightarrow> line" where
  "upd_flags f l = l\<lparr>com := (com l)\<lparr>mEventFlags := f (mEventFlags (com l))\<rparr>\<rparr>"

lemmas upd_defs = upd_regs_def upd_fds_def upd_env_def upd_flags_def

section \<open>Interrupts and timers\<close>

definition triggerInterrupt :: "line \<Rightarrow> line" where
  "triggerInterrupt = upd_env (\<lambda>h. h\<lparr>irqs := Suc (irqs h)\<rparr>)"

text \<open>\<open>(1600000000ULL * registers.divisor) / 18432ULL\<close>, the time ten bits take in nanoseconds.\<close>

definition byte_delay :: "u16 \<Rightarrow> u64" where
  "byte_delay d = (1600000000 * ucast d) div 18432"

definition arm :: "(nat \<Rightarrow> nat option \<Rightarrow> nat option) \<Rightarrow> fd \<Rightarrow> u64 \<Rightarrow> line \<Rightarrow> line" where
  "arm settime timer delay = upd_env (\<lambda>h. h\<lparr>timers := (timers h)(timer := settime (unat delay) (timers h timer))\<rparr>)"

text \<open>
  What the manual page says of \<open>timerfd_settime\<close> with no seconds and no interval: zero nanoseconds
  disarm the timer, and more than 999999999 are an error that changes nothing.
\<close>

definition timerfd_spec :: "(nat \<Rightarrow> nat option \<Rightarrow> nat option) \<Rightarrow> bool" where
  "timerfd_spec settime \<longleftrightarrow> (\<forall>t. settime 0 t = None) \<and>
     (\<forall>n t. 0 < n \<and> n \<le> 999999999 \<longrightarrow> settime n t = Some n) \<and>
     (\<forall>n t. 999999999 < n \<longrightarrow> settime n t = t)"

section \<open>Events\<close>

definition modify_client :: "(ctl_op \<Rightarrow> fd \<Rightarrow> bool) \<Rightarrow> fd \<Rightarrow> line \<Rightarrow> line" where
  "modify_client ctl fd l =
     l\<lparr>net := snd (modifyEvent ctl fd (mEventFlags (com l)) (mEventLoop (com l)) (net l))\<rparr>"

definition reloadEventLoop :: "(ctl_op \<Rightarrow> fd \<Rightarrow> bool) \<Rightarrow> line \<Rightarrow> line" where
  "reloadEventLoop ctl l = fold (modify_client ctl) (clients (fds (com l))) l"

definition read_condition :: "line \<Rightarrow> line" where
  "read_condition l =
     (let l1 = upd_flags (\<lambda>f. f AND NOT EPOLLIN)
                 (upd_regs (\<lambda>r. r\<lparr>readable := True, readInterruptFlag := True\<rparr>) l);
          r = regs (com l1)
      in if readInterruptEnabled r \<and> (\<not> writeInterruptEnabled r \<or> \<not> writeInterruptFlag r)
         then triggerInterrupt l1 else l1)"

definition write_condition :: "line \<Rightarrow> line" where
  "write_condition l =
     (let l1 = upd_flags (\<lambda>f. f AND NOT EPOLLOUT)
                 (upd_regs (\<lambda>r. r\<lparr>writable := True, writeInterruptFlag := True\<rparr>) l);
          r = regs (com l1)
      in if writeInterruptEnabled r \<and> (\<not> readInterruptEnabled r \<or> \<not> readInterruptFlag r)
         then triggerInterrupt l1 else l1)"

definition handleClientEvent :: "(ctl_op \<Rightarrow> fd \<Rightarrow> bool) \<Rightarrow> fd \<Rightarrow> u32 \<Rightarrow> line \<Rightarrow> line" where
  "handleClientEvent ctl fd events l =
     (let l1 = (if events AND EPOLLIN \<noteq> 0 then read_condition l else l);
          l2 = (if events AND EPOLLOUT \<noteq> 0 then write_condition l1 else l1)
      in modify_client ctl fd l2)"

text \<open>The handlers run when their timer has expired; \<open>read\<close> collects the expiry of the one-shot timer.\<close>

definition take_timer :: "fd \<Rightarrow> line \<Rightarrow> line" where
  "take_timer timer = upd_env (\<lambda>h. h\<lparr>timers := (timers h)(timer := None)\<rparr>)"

definition read_timer_handler :: "(ctl_op \<Rightarrow> fd \<Rightarrow> bool) \<Rightarrow> u32 \<Rightarrow> line \<Rightarrow> line" where
  "read_timer_handler ctl events l =
     (if events AND EPOLLERR \<noteq> 0 then l
      else reloadEventLoop ctl (upd_flags (\<lambda>f. f OR EPOLLIN) (take_timer (readTimer (fds (com l))) l)))"

definition write_timer_handler :: "(ctl_op \<Rightarrow> fd \<Rightarrow> bool) \<Rightarrow> u32 \<Rightarrow> line \<Rightarrow> line" where
  "write_timer_handler ctl events l =
     (if events AND EPOLLERR \<noteq> 0 then l
      else reloadEventLoop ctl (upd_flags (\<lambda>f. f OR EPOLLOUT) (take_timer (writeTimer (fds (com l))) l)))"

text \<open>\<open>accept\<close> returns the next descriptor of the backlog, -1 when it fails.\<close>

definition accept_fd :: "host \<Rightarrow> fd \<times> host" where
  "accept_fd h = (case backlog h of [] \<Rightarrow> (-1, h) | fd # rest \<Rightarrow> (fd, h\<lparr>backlog := rest\<rparr>))"

definition set_insert :: "fd \<Rightarrow> fd list \<Rightarrow> fd list" where
  "set_insert fd xs = (if fd \<in> set xs then xs else insort fd xs)"

definition add_handler :: "(ctl_op \<Rightarrow> fd \<Rightarrow> bool) \<Rightarrow> fd \<Rightarrow> u32 \<Rightarrow> serial_handler \<Rightarrow> line \<Rightarrow> line" where
  "add_handler ctl fd events h l =
     (case addEvent ctl fd events (self (com l), h) (mEventLoop (com l)) (net l) of (_, el, w) \<Rightarrow>
        l\<lparr>com := (com l)\<lparr>mEventLoop := el\<rparr>, net := w\<rparr>)"

definition server_handler :: "(ctl_op \<Rightarrow> fd \<Rightarrow> bool) \<Rightarrow> u32 \<Rightarrow> line \<Rightarrow> line" where
  "server_handler ctl events l =
     (if events AND EPOLLERR \<noteq> 0 then l
      else case accept_fd (env l) of (fd, h) \<Rightarrow>
        let l1 = l\<lparr>env := h\<rparr> in
        if fd = -1 then l1
        else upd_fds (\<lambda>d. d\<lparr>clients := set_insert fd (clients d)\<rparr>)
               (add_handler ctl fd (mEventFlags (com l1)) (ClientEvent fd) l1))"

text \<open>The handlers \<open>start\<close> registers, as the event thread calls them.\<close>

definition serial_invoke :: "(ctl_op \<Rightarrow> fd \<Rightarrow> bool) \<Rightarrow> serial_handler \<Rightarrow> u32 \<Rightarrow> line \<Rightarrow> line result" where
  "serial_invoke ctl h events l =
     Inr (case h of
            ServerEvent \<Rightarrow> server_handler ctl events l
          | ReadTimerEvent \<Rightarrow> read_timer_handler ctl events l
          | WriteTimerEvent \<Rightarrow> write_timer_handler ctl events l
          | ClientEvent fd \<Rightarrow> handleClientEvent ctl fd events l)"

section \<open>Port accesses\<close>

definition DLAB :: "registers \<Rightarrow> bool" where
  "DLAB r \<longleftrightarrow> lineControl r AND 0x80 \<noteq> 0"

definition transmit :: "(nat \<Rightarrow> nat option \<Rightarrow> nat option) \<Rightarrow> u8 \<Rightarrow> line \<Rightarrow> line" where
  "transmit settime data l =
     (let l1 = upd_env (\<lambda>h. h\<lparr>sent := sent h @ map (\<lambda>fd. (fd, data)) (clients (fds (com l)))\<rparr>) l;
          l2 = upd_regs (\<lambda>r. r\<lparr>writable := False, writeInterruptFlag := False\<rparr>) l1
      in arm settime (writeTimer (fds (com l2))) (byte_delay (divisor (regs (com l2)))) l2)"

definition write_interrupt_control :: "u8 \<Rightarrow> line \<Rightarrow> line" where
  "write_interrupt_control data l =
     (let pReadInterruptEnabled = readInterruptEnabled (regs (com l));
          pWriteInterruptEnabled = writeInterruptEnabled (regs (com l));
          l1 = upd_regs (\<lambda>r. r\<lparr>interruptControl := data AND 0x0F\<rparr>) l;
          l2 = upd_regs (\<lambda>r. r\<lparr>readInterruptEnabled := interruptControl r AND 0x01 \<noteq> 0,
                               writeInterruptEnabled := interruptControl r AND 0x02 \<noteq> 0\<rparr>) l1;
          l3 = (if readInterruptEnabled (regs (com l2))
                then upd_regs (\<lambda>r. r\<lparr>readInterruptFlag := readable r\<rparr>) l2 else l2);
          l4 = (if writeInterruptEnabled (regs (com l3))
                then upd_regs (\<lambda>r. r\<lparr>writeInterruptFlag := writable r\<rparr>) l3 else l3);
          r = regs (com l4)
      in if (\<not> pReadInterruptEnabled \<or> \<not> readInterruptFlag r) \<and> (\<not> pWriteInterruptEnabled \<or> \<not> writeInterruptFlag r)
            \<and> ((readInterruptEnabled r \<and> readInterruptFlag r) \<or> (writeInterruptEnabled r \<and> writeInterruptFlag r))
         then triggerInterrupt l4 else l4)"

definition serial_iowrite8 :: "(nat \<Rightarrow> nat option \<Rightarrow> nat option) \<Rightarrow> line \<Rightarrow> u16 \<Rightarrow> u8 \<Rightarrow> line result" where
  "serial_iowrite8 settime l address data =
     Inr (case serial_register_of address of
            Data_DivisorLowByte \<Rightarrow>
              if \<not> DLAB (regs (com l)) then transmit settime data l
              else upd_regs (\<lambda>r. r\<lparr>divisor := set_lo8 (divisor r) data\<rparr>) l
          | InterruptControl_DivisorHighByte \<Rightarrow>
              if \<not> DLAB (regs (com l)) then write_interrupt_control data l
              else upd_regs (\<lambda>r. r\<lparr>divisor := set_hi8 (divisor r) data\<rparr>) l
          | InterruptStatus_FifoControl \<Rightarrow> l
          | LineControl \<Rightarrow> upd_regs (\<lambda>r. r\<lparr>lineControl := data\<rparr>) l
          | ModemControl \<Rightarrow> upd_regs (\<lambda>r. r\<lparr>modemControl := data AND 0x1F\<rparr>) l
          | LineStatus \<Rightarrow> l
          | ModemStatus \<Rightarrow> l
          | Scratchpad \<Rightarrow> upd_regs (\<lambda>r. r\<lparr>scratchpad := data\<rparr>) l)"

text \<open>The first client that has a byte gives it; when none has one, \<open>receive\<close> keeps its value.\<close>

fun receive_byte :: "fd list \<Rightarrow> u8 \<Rightarrow> (fd \<Rightarrow> u8 list) \<Rightarrow> u8 \<times> (fd \<Rightarrow> u8 list)" where
  "receive_byte [] old box = (old, box)"
| "receive_byte (fd # rest) old box =
     (case box fd of [] \<Rightarrow> receive_byte rest old box | b # bs \<Rightarrow> (b, box(fd := bs)))"

definition receive_data :: "(nat \<Rightarrow> nat option \<Rightarrow> nat option) \<Rightarrow> line \<Rightarrow> line \<times> u8" where
  "receive_data settime l =
     (case receive_byte (clients (fds (com l))) (receive (regs (com l))) (inbox (env l)) of (b, box) \<Rightarrow>
      let l1 = upd_env (\<lambda>h. h\<lparr>inbox := box\<rparr>) l;
          l2 = upd_regs (\<lambda>r. r\<lparr>receive := b, readable := False, readInterruptFlag := False\<rparr>) l1;
          l3 = arm settime (readTimer (fds (com l2))) (byte_delay (divisor (regs (com l2)))) l2
      in (l3, receive (regs (com l3))))"

definition read_interrupt_status :: "line \<Rightarrow> line \<times> u8" where
  "read_interrupt_status l =
     (let r = regs (com l) in
      if readInterruptEnabled r \<and> readInterruptFlag r then (l, 0x04)
      else if writeInterruptEnabled r \<and> writeInterruptFlag r
      then (upd_regs (\<lambda>r. r\<lparr>writeInterruptFlag := False\<rparr>) l, 0x02)
      else (l, 0x01))"

definition serial_ioread8 :: "(nat \<Rightarrow> nat option \<Rightarrow> nat option) \<Rightarrow> line \<Rightarrow> u16 \<Rightarrow> (line \<times> u8) result" where
  "serial_ioread8 settime l address =
     (let r = regs (com l) in
      Inr (case serial_register_of address of
            Data_DivisorLowByte \<Rightarrow> if \<not> DLAB r then receive_data settime l else (l, lo8 (divisor r))
          | InterruptControl_DivisorHighByte \<Rightarrow> (l, if \<not> DLAB r then interruptControl r else hi8 (divisor r))
          | InterruptStatus_FifoControl \<Rightarrow> read_interrupt_status l
          | LineControl \<Rightarrow> (l, lineControl r)
          | ModemControl \<Rightarrow> (l, modemControl r)
          | LineStatus \<Rightarrow> (l, (if writable r then 0x60 else 0x00) OR (if readable r then 0x01 else 0x00))
          | ModemStatus \<Rightarrow> (l, 0)
          | Scratchpad \<Rightarrow> (l, scratchpad r)))"

definition serial_ops :: "(nat \<Rightarrow> nat option \<Rightarrow> nat option) \<Rightarrow> line pio_ops" where
  "serial_ops settime = DevicePio\<lparr>vt_iowrite8 := serial_iowrite8 settime, vt_ioread8 := serial_ioread8 settime\<rparr>"

section \<open>Start and stop\<close>

text \<open>\<open>close\<close> takes the descriptor off the interest list and discards its timer and its input.\<close>

definition close_line_fd :: "fd \<Rightarrow> line \<Rightarrow> line" where
  "close_line_fd fd l = l\<lparr>net := close_fd fd (net l),
     env := (env l)\<lparr>closed := closed (env l) @ [fd], timers := (timers (env l))(fd := None),
                   inbox := (inbox (env l))(fd := [])\<rparr>\<rparr>"

definition remove_handler :: "(ctl_op \<Rightarrow> fd \<Rightarrow> bool) \<Rightarrow> fd \<Rightarrow> line \<Rightarrow> line" where
  "remove_handler ctl fd l =
     (case removeEvent ctl fd (mEventLoop (com l)) (net l) of (el, w) \<Rightarrow>
        l\<lparr>com := (com l)\<lparr>mEventLoop := el\<rparr>, net := w\<rparr>)"

definition stop :: "(ctl_op \<Rightarrow> fd \<Rightarrow> bool) \<Rightarrow> line \<Rightarrow> line" where
  "stop ctl l =
     (let l1 = fold (\<lambda>fd l. close_line_fd fd (remove_handler ctl fd l)) (clients (fds (com l))) l;
          l2 = upd_fds (\<lambda>d. d\<lparr>clients := []\<rparr>) l1;
          d = fds (com l2);
          l3 = (if server d \<noteq> -1
                then upd_fds (\<lambda>d. d\<lparr>server := -1\<rparr>) (close_line_fd (server d) (remove_handler ctl (server d) l2))
                else l2);
          l4 = (if vm d \<noteq> -1 \<and> irq d \<noteq> -1 then close_line_fd (refresh d) (close_line_fd (irq d) l3) else l3)
      in close_line_fd (writeTimer d) (close_line_fd (readTimer d) l4))"

text \<open>The results of the system calls \<open>start\<close> makes, in its order.\<close>

record start_results =
  r_socket :: fd
  r_bind :: bool
  r_listen :: bool
  r_readTimer :: fd
  r_writeTimer :: fd
  r_irq :: fd
  r_refresh :: fd
  r_irqfd :: bool

text \<open>\<open>sun_path\<close> has room for 108 characters, the terminating one included.\<close>

definition start :: "(ctl_op \<Rightarrow> fd \<Rightarrow> bool) \<Rightarrow> start_results \<Rightarrow> string \<Rightarrow> fd \<Rightarrow> u32 \<Rightarrow> line \<Rightarrow> (bool \<times> line) result" where
  "start ctl res socketName vmFd gsi l =
     (let l0 = stop ctl l; l1 = l0\<lparr>com := (com l0)\<lparr>mSocketName := socketName\<rparr>\<rparr> in
      if 108 \<le> length socketName then Inl OutOfBounds else
      let l2 = upd_fds (\<lambda>d. d\<lparr>server := r_socket res\<rparr>) l1 in
      if r_socket res = -1 \<or> \<not> r_bind res \<or> \<not> r_listen res then Inr (False, l2) else
      let l3 = upd_fds (\<lambda>d. d\<lparr>readTimer := r_readTimer res\<rparr>) l2 in
      if r_readTimer res = -1 then Inr (False, l3) else
      let l4 = upd_fds (\<lambda>d. d\<lparr>writeTimer := r_writeTimer res\<rparr>) l3 in
      if r_writeTimer res = -1 then Inr (False, l4) else
      let l5 = upd_fds (\<lambda>d. d\<lparr>vm := vmFd, irq := r_irq res\<rparr>) l4 in
      if r_irq res = -1 then Inr (False, l5) else
      let l6 = upd_fds (\<lambda>d. d\<lparr>refresh := r_refresh res\<rparr>) l5 in
      if r_refresh res = -1 then Inr (False, l6) else
      let l7 = l6\<lparr>com := (com l6)\<lparr>mGSI := gsi\<rparr>\<rparr> in
      if \<not> r_irqfd res then Inr (False, l7) else
      let l8 = add_handler ctl (r_socket res) EPOLLIN ServerEvent l7;
          l9 = add_handler ctl (r_readTimer res) EPOLLIN ReadTimerEvent l8;
          l10 = add_handler ctl (r_writeTimer res) EPOLLIN WriteTimerEvent l9
      in Inr (True, l10))"

section \<open>Projections of the nested updates\<close>

lemma upd_regs_simps [simp]:
  "self (com (upd_regs f l)) = self (com l)" "regs (com (upd_regs f l)) = f (regs (com l))" "fds (com (upd_regs f l)) = fds (com l)"
  "mEventFlags (com (upd_regs f l)) = mEventFlags (com l)" "mEventLoop (com (upd_regs f l)) = mEventLoop (com l)"
  "env (upd_regs f l) = env l" "net (upd_regs f l) = net l"
  by (simp_all add: upd_regs_def)

lemma upd_fds_simps [simp]:
  "self (com (upd_fds f l)) = self (com l)" "regs (com (upd_fds f l)) = regs (com l)" "fds (com (upd_fds f l)) = f (fds (com l))"
  "mEventFlags (com (upd_fds f l)) = mEventFlags (com l)" "mEventLoop (com (upd_fds f l)) = mEventLoop (com l)"
  "env (upd_fds f l) = env l" "net (upd_fds f l) = net l"
  by (simp_all add: upd_fds_def)

lemma upd_flags_simps [simp]:
  "self (com (upd_flags f l)) = self (com l)" "regs (com (upd_flags f l)) = regs (com l)" "fds (com (upd_flags f l)) = fds (com l)"
  "mEventFlags (com (upd_flags f l)) = f (mEventFlags (com l))" "mEventLoop (com (upd_flags f l)) = mEventLoop (com l)"
  "env (upd_flags f l) = env l" "net (upd_flags f l) = net l"
  by (simp_all add: upd_flags_def)

lemma upd_env_simps [simp]:
  "com (upd_env f l) = com l" "env (upd_env f l) = f (env l)" "net (upd_env f l) = net l"
  by (simp_all add: upd_env_def)

lemma triggerInterrupt_simps [simp]:
  "com (triggerInterrupt l) = com l" "net (triggerInterrupt l) = net l"
  "env (triggerInterrupt l) = (env l)\<lparr>irqs := Suc (irqs (env l))\<rparr>"
  by (simp_all add: triggerInterrupt_def)

lemma take_timer_simps [simp]:
  "com (take_timer t l) = com l" "net (take_timer t l) = net l"
  "env (take_timer t l) = (env l)\<lparr>timers := (timers (env l))(t := None)\<rparr>"
  by (simp_all add: take_timer_def)

lemma arm_simps [simp]:
  "com (arm settime t n l) = com l" "net (arm settime t n l) = net l"
  "env (arm settime t n l) = (env l)\<lparr>timers := (timers (env l))(t := settime (unat n) (timers (env l) t))\<rparr>"
  by (simp_all add: arm_def)

section \<open>The registers stay consistent\<close>

definition regs_inv :: "registers \<Rightarrow> bool" where
  "regs_inv r \<longleftrightarrow> readInterruptFlag r = readable r \<and> (writeInterruptFlag r \<longrightarrow> writable r) \<and>
     readInterruptEnabled r = (interruptControl r AND 0x01 \<noteq> 0) \<and>
     writeInterruptEnabled r = (interruptControl r AND 0x02 \<noteq> 0) \<and>
     interruptControl r AND 0xF0 = 0 \<and> modemControl r AND 0xE0 = 0"

definition port_inv :: "'a port_scheme \<Rightarrow> bool" where
  "port_inv l \<longleftrightarrow> regs_inv (regs (com l))"

lemma registers_init_inv: "regs_inv registers_init"
  by (simp add: regs_inv_def registers_init_def)

lemma and_disjoint_masks: "a AND b = 0 \<Longrightarrow> (x AND a) AND b = (0 :: 'a::len word)"
  by (metis and.assoc and_zero_eq)

lemma transmit_regs:
  "regs (com (transmit settime data l)) = (regs (com l))\<lparr>writable := False, writeInterruptFlag := False\<rparr>"
  by (simp add: transmit_def Let_def)

lemma receive_data_regs:
  "receive_data settime l = (l', v) \<Longrightarrow> regs (com l') =
     (regs (com l))\<lparr>receive := v, readable := False, readInterruptFlag := False\<rparr>"
  by (auto simp: receive_data_def Let_def split: prod.splits)

lemma write_interrupt_control_regs:
  "regs (com (write_interrupt_control data l)) =
     (let r = regs (com l); c = data AND 0x0F in
      r\<lparr>interruptControl := c, readInterruptEnabled := c AND 0x01 \<noteq> 0, writeInterruptEnabled := c AND 0x02 \<noteq> 0,
        readInterruptFlag := (if c AND 0x01 \<noteq> 0 then readable r else readInterruptFlag r),
        writeInterruptFlag := (if c AND 0x02 \<noteq> 0 then writable r else writeInterruptFlag r)\<rparr>)"
  by (simp add: write_interrupt_control_def Let_def)

lemma serial_iowrite8_inv:
  assumes "port_inv l" and "serial_iowrite8 settime l a v = Inr l'"
  shows "port_inv l'"
proof -
  have f0: "(v AND 0x0F) AND 0xF0 = 0" and e0: "(v AND 0x1F) AND 0xE0 = 0"
    by (rule and_disjoint_masks; simp)+
  have l': "l' = projr (serial_iowrite8 settime l a v)" using assms(2) by simp
  show ?thesis
    using assms(1) f0 e0 unfolding l' port_inv_def regs_inv_def
    by (cases "serial_register_of a"; cases "DLAB (regs (com l))")
      (simp_all add: serial_iowrite8_def transmit_regs write_interrupt_control_regs Let_def)
qed

lemma serial_ioread8_inv:
  assumes "port_inv l" and "serial_ioread8 settime l a = Inr (l', v)"
  shows "port_inv l'"
proof -
  have "port_inv l'" if "receive_data settime l = (l', v)"
    using assms(1) receive_data_regs [OF that] by (simp add: port_inv_def regs_inv_def)
  moreover have "port_inv l'" if "read_interrupt_status l = (l', v)"
    using assms(1) that
    by (auto simp: port_inv_def regs_inv_def read_interrupt_status_def Let_def split: if_splits)
  ultimately show ?thesis
    using assms by (auto simp: serial_ioread8_def Let_def split: serial_register.splits if_splits)
qed

interpretation serial_device: pio_device "serial_ops settime" port_inv for settime
  by unfold_locales
    (simp_all add: serial_ops_def DevicePio_def, (blast intro: serial_iowrite8_inv serial_ioread8_inv)+)

section \<open>What the guest sees\<close>

theorem transmit_reaches_every_client:
  assumes "serial_register_of a = Data_DivisorLowByte" and "\<not> DLAB (regs (com l))"
  shows "\<exists>l'. serial_iowrite8 settime l a v = Inr l' \<and>
    sent (env l') = sent (env l) @ map (\<lambda>fd. (fd, v)) (clients (fds (com l))) \<and>
    \<not> writable (regs (com l')) \<and> fds (com l') = fds (com l) \<and> irqs (env l') = irqs (env l)"
  using assms by (simp add: serial_iowrite8_def transmit_def Let_def)

lemma receive_byte_first:
  "receive_byte cs old box =
     (case find (\<lambda>fd. box fd \<noteq> []) cs of
        Some fd \<Rightarrow> (hd (box fd), box(fd := tl (box fd)))
      | None \<Rightarrow> (old, box))"
  by (induction cs) (auto split: list.split)

text \<open>
  C34. Reading the data register takes one byte from the first client that has one, leaves the other
  clients' input alone, and clears the receive condition; with no input it repeats the last byte.
\<close>

theorem receive_takes_first_waiting_byte:
  assumes "serial_register_of a = Data_DivisorLowByte" and "\<not> DLAB (regs (com l))"
  shows "\<exists>l' v. serial_ioread8 settime l a = Inr (l', v) \<and> \<not> readable (regs (com l')) \<and>
    (case find (\<lambda>fd. inbox (env l) fd \<noteq> []) (clients (fds (com l))) of
       Some fd \<Rightarrow> inbox (env l) fd = v # inbox (env l') fd \<and> (\<forall>k. k \<noteq> fd \<longrightarrow> inbox (env l') k = inbox (env l) k)
     | None \<Rightarrow> v = receive (regs (com l)) \<and> inbox (env l') = inbox (env l))"
  using assms
  by (auto simp: serial_ioread8_def receive_data_def receive_byte_first Let_def
      dest!: find_SomeD split: option.split)

definition interrupt_pending :: "registers \<Rightarrow> bool" where
  "interrupt_pending r \<longleftrightarrow> (readInterruptEnabled r \<and> readInterruptFlag r) \<or>
     (writeInterruptEnabled r \<and> writeInterruptFlag r)"

text \<open>The status register says whether an interrupt is pending, the receiver first.\<close>

theorem interrupt_status_register:
  assumes "serial_register_of a = InterruptStatus_FifoControl"
  shows "\<exists>l' v. serial_ioread8 settime l a = Inr (l', v) \<and> (v AND 1 = 0 \<longleftrightarrow> interrupt_pending (regs (com l))) \<and>
    (readInterruptEnabled (regs (com l)) \<and> readInterruptFlag (regs (com l)) \<longrightarrow> v = 4 \<and> l' = l) \<and>
    (\<not> (readInterruptEnabled (regs (com l)) \<and> readInterruptFlag (regs (com l))) \<longrightarrow> \<not> interrupt_pending (regs (com l')))"
  using assms
  by (auto simp: serial_ioread8_def read_interrupt_status_def interrupt_pending_def Let_def)

section \<open>When an interrupt is raised\<close>

lemma flag_bits: "w AND EPOLLIN \<noteq> 0 \<longleftrightarrow> bit w 0" "w AND EPOLLOUT \<noteq> 0 \<longleftrightarrow> bit w 2" "w AND EPOLLERR \<noteq> 0 \<longleftrightarrow> bit w 3"
  using and_exp_eq_0_iff_not_bit [of w 0] and_exp_eq_0_iff_not_bit [of w 2] and_exp_eq_0_iff_not_bit [of w 3]
  by (simp_all add: EPOLLIN_def EPOLLOUT_def EPOLLERR_def)

lemma modify_client_simps [simp]:
  "com (modify_client ctl fd l) = com l" "env (modify_client ctl fd l) = env l"
  by (simp_all add: modify_client_def)

lemma read_condition_effect:
  "regs (com (read_condition l)) = (regs (com l))\<lparr>readable := True, readInterruptFlag := True\<rparr> \<and>
   irqs (env (read_condition l)) = irqs (env l) + (if readInterruptEnabled (regs (com l)) \<and>
     (\<not> writeInterruptEnabled (regs (com l)) \<or> \<not> writeInterruptFlag (regs (com l))) then 1 else 0)"
  by (simp add: read_condition_def Let_def)

lemma write_condition_effect:
  "regs (com (write_condition l)) = (regs (com l))\<lparr>writable := True, writeInterruptFlag := True\<rparr> \<and>
   irqs (env (write_condition l)) = irqs (env l) + (if writeInterruptEnabled (regs (com l)) \<and>
     (\<not> readInterruptEnabled (regs (com l)) \<or> \<not> readInterruptFlag (regs (com l))) then 1 else 0)"
  by (simp add: write_condition_def Let_def)

text \<open>
  C33. When no interrupt was pending, a client event raises exactly one interrupt if an enabled
  condition is pending after it, and none otherwise, also when both conditions arrive at once.
\<close>

theorem event_raises_one_interrupt_per_new_condition:
  assumes "\<not> interrupt_pending (regs (com l))"
  shows "irqs (env (handleClientEvent ctl fd e l)) = irqs (env l) +
    (if interrupt_pending (regs (com (handleClientEvent ctl fd e l))) then 1 else 0)"
  using assms
  by (cases "readInterruptEnabled (regs (com l))"; cases "writeInterruptEnabled (regs (com l))")
    (simp_all add: handleClientEvent_def Let_def interrupt_pending_def read_condition_effect write_condition_effect)

text \<open>
  A write to the interrupt control register that enables an interrupt whose condition already
  holds raises it, if none was pending.
\<close>

lemma write_interrupt_control_irqs:
  "irqs (env (write_interrupt_control data l)) = irqs (env l) +
     (let r = regs (com (write_interrupt_control data l)) in
      if (\<not> readInterruptEnabled (regs (com l)) \<or> \<not> readInterruptFlag r) \<and>
         (\<not> writeInterruptEnabled (regs (com l)) \<or> \<not> writeInterruptFlag r) \<and> interrupt_pending r then 1 else 0)"
  by (simp add: write_interrupt_control_def interrupt_pending_def Let_def)

theorem enabling_raises_a_waiting_interrupt:
  assumes "serial_register_of a = InterruptControl_DivisorHighByte" and "\<not> DLAB (regs (com l))"
    and "\<not> readInterruptEnabled (regs (com l))" and "\<not> writeInterruptEnabled (regs (com l))"
    and "serial_iowrite8 settime l a v = Inr l'"
  shows "irqs (env l') = irqs (env l) + (if interrupt_pending (regs (com l')) then 1 else 0)"
proof -
  have "l' = write_interrupt_control v l" using assms(1,2,5) by (simp add: serial_iowrite8_def)
  then show ?thesis using assms(3,4) by (simp add: write_interrupt_control_irqs Let_def)
qed

text \<open>
  Writing the register again while the transmitter interrupt is enabled sets its flag again, after
  a read of the status register had cleared it, and raises no interrupt. From then on a received
  byte raises none either, until the guest happens to read the status register.
\<close>

text \<open>
  C32. With the transmitter interrupt enabled, the transmitter ready and no interrupt pending, writing
  to the interrupt enable register the value it already holds sets the transmitter flag without an
  interrupt, and input that arrives afterwards raises none; without the write it would have raised one
  if the receiver interrupt is enabled.
\<close>

theorem rewriting_the_enables_loses_interrupts:
  assumes "port_inv l" and "serial_register_of a = InterruptControl_DivisorHighByte" and "\<not> DLAB (regs (com l))"
    and "writeInterruptEnabled (regs (com l))" and "writable (regs (com l))" and "\<not> interrupt_pending (regs (com l))"
    and "e AND EPOLLIN \<noteq> 0" and "e AND EPOLLOUT = 0"
  shows "\<exists>l1. serial_iowrite8 settime l a (interruptControl (regs (com l))) = Inr l1 \<and>
    writeInterruptFlag (regs (com l1)) \<and> irqs (env l1) = irqs (env l) \<and>
    readable (regs (com (handleClientEvent ctl fd e l1))) \<and> irqs (env (handleClientEvent ctl fd e l1)) = irqs (env l) \<and>
    irqs (env (handleClientEvent ctl fd e l)) = irqs (env l) + (if readInterruptEnabled (regs (com l)) then 1 else 0)"
proof -
  let ?r = "regs (com l)" and ?v = "interruptControl (regs (com l))"
  have v: "?v AND 0x0F = ?v" "?v AND 2 \<noteq> 0" "readInterruptEnabled ?r \<longleftrightarrow> ?v AND 1 \<noteq> 0"
  proof -
    have "?v AND 0xF0 = 0" using assms(1) by (simp add: port_inv_def regs_inv_def)
    moreover have "?v = (?v AND 0x0F) OR (?v AND 0xF0)"
    proof -
      have "0x0F OR 0xF0 = (-1 :: u8)" by simp
      then have "?v AND (0x0F OR 0xF0) = ?v" by (simp only: and.right_neutral)
      then show ?thesis by (simp only: bit.conj_disj_distrib)
    qed
    ultimately show "?v AND 0x0F = ?v" by simp
    show "?v AND 2 \<noteq> 0" "readInterruptEnabled ?r \<longleftrightarrow> ?v AND 1 \<noteq> 0"
      using assms(1,4) by (simp_all add: port_inv_def regs_inv_def)
  qed
  have fl: "\<not> writeInterruptFlag ?r" "readInterruptEnabled ?r \<Longrightarrow> \<not> readInterruptFlag ?r \<and> \<not> readable ?r"
    using assms(1,4,6) by (auto simp: interrupt_pending_def port_inv_def regs_inv_def)
  let ?l1 = "write_interrupt_control ?v l"
  have r1: "writeInterruptFlag (regs (com ?l1))" "writeInterruptEnabled (regs (com ?l1))"
    using v assms(5) by (simp_all add: write_interrupt_control_regs Let_def)
  moreover have i1: "irqs (env ?l1) = irqs (env l)"
    using r1 assms(4) by (simp add: write_interrupt_control_irqs Let_def)
  ultimately show ?thesis
    using assms(2,3,4,7,8) fl
    by (simp add: serial_iowrite8_def handleClientEvent_def Let_def read_condition_effect)
qed

text \<open>
  A client that has closed its socket stays in the set. Its descriptor is always readable, so the
  receiver reports data, and reading it gives the last byte again.
\<close>

theorem closed_client_repeats_the_last_byte:
  assumes "\<forall>c \<in> set (clients (fds (com l))). inbox (env l) c = []" and "fd \<in> set (clients (fds (com l)))"
    and "\<not> DLAB (regs (com l))"
  shows "\<exists>l'. readable (regs (com (handleClientEvent ctl fd (EPOLLIN OR 0x10) l))) \<and>
    serial_ioread8 settime (handleClientEvent ctl fd (EPOLLIN OR 0x10) l) 0 = Inr (l', receive (regs (com l))) \<and>
    fd \<in> set (clients (fds (com l')))"
proof -
  let ?e = "EPOLLIN OR 0x10 :: u32" and ?l1 = "handleClientEvent ctl fd (EPOLLIN OR 0x10) l"
  have "?e AND EPOLLIN \<noteq> 0" "?e AND EPOLLOUT = 0" by (simp_all add: EPOLLIN_def EPOLLOUT_def)
  then have l1: "?l1 = modify_client ctl fd (read_condition l)" by (simp add: handleClientEvent_def)
  have env: "inbox (env ?l1) = inbox (env l)" and fds: "fds (com ?l1) = fds (com l)"
    and regs: "regs (com ?l1) = (regs (com l))\<lparr>readable := True, readInterruptFlag := True\<rparr>"
    by (simp_all add: l1 read_condition_effect)
      (simp_all add: read_condition_def Let_def)
  have none: "find (\<lambda>fd. inbox (env l) fd \<noteq> []) (clients (fds (com l))) = None"
    using assms(1) by (simp add: find_None_iff)
  have "serial_register_of 0 = Data_DivisorLowByte" by (simp add: serial_register_of_def)
  then show ?thesis
    using assms(2,3) env fds regs none
    by (auto simp: serial_ioread8_def receive_data_def receive_byte_first Let_def DLAB_def)
qed

text \<open>\<open>stop\<close> forgets neither the interrupt descriptors nor the timers: a second one closes them again.\<close>

lemma close_line_fd_closed [simp]:
  "closed (env (close_line_fd fd l)) = closed (env l) @ [fd]" "com (close_line_fd fd l) = com l"
  by (simp_all add: close_line_fd_def)

lemma remove_handler_simps [simp]:
  "env (remove_handler ctl fd l) = env l" "fds (com (remove_handler ctl fd l)) = fds (com l)"
  "regs (com (remove_handler ctl fd l)) = regs (com l)" "self (com (remove_handler ctl fd l)) = self (com l)"
  by (simp_all add: remove_handler_def split: prod.split)

lemma stop_clients:
  "closed (env (fold (\<lambda>fd l. close_line_fd fd (remove_handler ctl fd l)) cs l)) = closed (env l) @ cs \<and>
   fds (com (fold (\<lambda>fd l. close_line_fd fd (remove_handler ctl fd l)) cs l)) = fds (com l)"
  by (induction cs arbitrary: l) simp_all

lemma stop_effect:
  "fds (com (stop ctl l)) = (fds (com l))\<lparr>clients := [], server := -1\<rparr> \<and>
   closed (env (stop ctl l)) = closed (env l) @ clients (fds (com l)) @
     (if server (fds (com l)) \<noteq> -1 then [server (fds (com l))] else []) @
     (if vm (fds (com l)) \<noteq> -1 \<and> irq (fds (com l)) \<noteq> -1 then [irq (fds (com l)), refresh (fds (com l))] else []) @
     [readTimer (fds (com l)), writeTimer (fds (com l))]"
  by (simp add: stop_def Let_def stop_clients)

theorem second_stop_closes_again:
  assumes "vm (fds (com l)) \<noteq> -1" and "irq (fds (com l)) \<noteq> -1"
  shows "closed (env (stop ctl (stop ctl l))) = closed (env (stop ctl l)) @
    [irq (fds (com l)), refresh (fds (com l)), readTimer (fds (com l)), writeTimer (fds (com l))]"
  using assms stop_effect [of ctl "stop ctl l"] stop_effect [of ctl l] by simp

end
