(* ===== verification/Serial_Events.thy ===== *)
theory Serial_Events
  imports Serial_16450
begin

text \<open>
  A serial port while it runs: the handlers it registers with the event loop meet the contract of
  the event thread, and a step relation interleaves the guest's port accesses with the events and
  timeouts. The invariant of that relation says which descriptors the port listens to, and from it
  follows that a port whose divisor is in range never stops receiving or transmitting; with a
  divisor of zero it does.
\<close>

section \<open>The handlers keep the event loop sound\<close>

definition net_inv :: "line \<Rightarrow> bool" where
  "net_inv l \<longleftrightarrow> world_inv (net l) \<and> loop_owns (mEventLoop (com l)) (net l)"

lemma net_inv_cong:
  "net l' = net l \<Longrightarrow> mEventLoop (com l') = mEventLoop (com l) \<Longrightarrow> net_inv l \<Longrightarrow> net_inv l'"
  by (simp add: net_inv_def)

lemma modify_client_net_inv: "net_inv l \<Longrightarrow> net_inv (modify_client ctl fd l)"
proof -
  assume inv: "net_inv l"
  obtain r w where m: "modifyEvent ctl fd (mEventFlags (com l)) (mEventLoop (com l)) (net l) = (r, w)" by fastforce
  have "world_inv w \<and> nodes w = nodes (net l)"
    by (rule modifyEvent_inv [OF _ _ m]) (use inv in \<open>simp_all add: net_inv_def\<close>)
  then show ?thesis using inv by (simp add: net_inv_def modify_client_def m loop_owns_def)
qed

lemma reload_net_inv: "net_inv l \<Longrightarrow> net_inv (reloadEventLoop ctl l)"
proof -
  have "net_inv l \<Longrightarrow> net_inv (fold (modify_client ctl) cs l)" for cs
    by (induction cs arbitrary: l) (simp_all add: modify_client_net_inv)
  then show "net_inv l \<Longrightarrow> net_inv (reloadEventLoop ctl l)" by (simp add: reloadEventLoop_def)
qed

lemma add_handler_net_inv: "net_inv l \<Longrightarrow> net_inv (add_handler ctl fd ev h l)"
proof -
  assume inv: "net_inv l"
  obtain ok el w where add: "addEvent ctl fd ev (self (com l), h) (mEventLoop (com l)) (net l) = (ok, el, w)" by (metis prod_cases3)
  have "local_step (mEventLoop (com l)) (net l) el w"
    by (rule addEvent_local [OF _ _ add]) (use inv in \<open>simp_all add: net_inv_def\<close>)
  then show ?thesis by (simp add: add_handler_def add net_inv_def local_step_def)
qed

lemma conditions_net:
  "net (read_condition l) = net l" "mEventLoop (com (read_condition l)) = mEventLoop (com l)"
  "net (write_condition l) = net l" "mEventLoop (com (write_condition l)) = mEventLoop (com l)"
  "self (com (read_condition l)) = self (com l)" "self (com (write_condition l)) = self (com l)"
  "fds (com (read_condition l)) = fds (com l)" "fds (com (write_condition l)) = fds (com l)"
  "timers (env (read_condition l)) = timers (env l)" "timers (env (write_condition l)) = timers (env l)"
  "mEventFlags (com (read_condition l)) = mEventFlags (com l) AND NOT EPOLLIN"
  "mEventFlags (com (write_condition l)) = mEventFlags (com l) AND NOT EPOLLOUT"
  by (simp_all add: read_condition_def write_condition_def Let_def)

lemma handleClientEvent_net_inv: "net_inv l \<Longrightarrow> net_inv (handleClientEvent ctl fd e l)"
  by (auto simp: handleClientEvent_def Let_def conditions_net intro!: modify_client_net_inv elim!: net_inv_cong [rotated 2])

lemma timer_handler_net_inv:
  "net_inv l \<Longrightarrow> net_inv (read_timer_handler ctl e l)" "net_inv l \<Longrightarrow> net_inv (write_timer_handler ctl e l)"
  by (auto simp: read_timer_handler_def write_timer_handler_def intro!: reload_net_inv elim!: net_inv_cong [rotated 2])

lemma server_handler_net_inv: "net_inv l \<Longrightarrow> net_inv (server_handler ctl e l)"
proof -
  assume inv: "net_inv l"
  obtain fd h where acc: "accept_fd (env l) = (fd, h)" by fastforce
  have "net_inv (l\<lparr>env := h\<rparr>)" using inv by (simp add: net_inv_def)
  then have "net_inv (add_handler ctl fd (mEventFlags (com l)) (ClientEvent fd) (l\<lparr>env := h\<rparr>))"
    by (rule add_handler_net_inv)
  then show ?thesis using inv by (auto simp: server_handler_def acc Let_def net_inv_def)
qed

lemma handlers_port_inv:
  assumes "port_inv l"
  shows "port_inv (handleClientEvent ctl fd e l)" "port_inv (read_timer_handler ctl e l)"
    "port_inv (write_timer_handler ctl e l)" "port_inv (server_handler ctl e l)"
proof -
  show "port_inv (handleClientEvent ctl fd e l)"
    using assms
    by (simp add: handleClientEvent_def Let_def port_inv_def regs_inv_def read_condition_effect write_condition_effect)
  have reload: "regs (com (reloadEventLoop ctl l)) = regs (com l)" for l
  proof -
    have "com (fold (modify_client ctl) cs l) = com l" for cs by (induction cs arbitrary: l) simp_all
    then show ?thesis by (simp add: reloadEventLoop_def)
  qed
  show "port_inv (read_timer_handler ctl e l)" "port_inv (write_timer_handler ctl e l)"
    using assms by (simp_all add: read_timer_handler_def write_timer_handler_def port_inv_def reload)
  have "regs (com (add_handler ctl fd ev h l)) = regs (com l)" for fd ev h l
    by (simp add: add_handler_def split: prod.split)
  then show "port_inv (server_handler ctl e l)"
    using assms by (simp add: server_handler_def port_inv_def Let_def split: prod.split)
qed

section \<open>Sets of events\<close>

definition flags_in :: "u32 \<Rightarrow> u32 \<Rightarrow> bool" where
  "flags_in f ev \<longleftrightarrow> (\<forall>n. bit f n \<longrightarrow> bit ev n)"

lemma flags_in_refl [simp]: "flags_in f f"
  by (simp add: flags_in_def)

lemma flags_in_clear: "flags_in f ev \<Longrightarrow> flags_in (f AND g) ev"
  by (simp add: flags_in_def bit_simps)

lemma flag_updates:
  "bit (f AND NOT EPOLLIN) n \<longleftrightarrow> bit f n \<and> n \<noteq> 0" "bit (f AND NOT EPOLLOUT) n \<longleftrightarrow> bit f n \<and> n \<noteq> 2"
  "bit (f OR EPOLLIN) n \<longleftrightarrow> bit f n \<or> n = 0" "bit (f OR EPOLLOUT) n \<longleftrightarrow> bit f n \<or> n = 2"
proof -
  have in0: "bit EPOLLIN n \<longleftrightarrow> n = 0" by (simp add: EPOLLIN_def bit_1_iff)
  have out: "EPOLLOUT = push_bit 2 1" by (simp add: EPOLLOUT_def push_bit_eq_mult)
  have out2: "bit EPOLLOUT n \<longleftrightarrow> n = 2"
    by (simp only: out bit_push_bit_iff bit_1_iff) (auto simp: possible_bit_def)
  have "n < 32" if "bit f n" using that bit_imp_le_length [of f n] by simp
  then show "bit (f AND NOT EPOLLIN) n \<longleftrightarrow> bit f n \<and> n \<noteq> 0" "bit (f AND NOT EPOLLOUT) n \<longleftrightarrow> bit f n \<and> n \<noteq> 2"
    "bit (f OR EPOLLIN) n \<longleftrightarrow> bit f n \<or> n = 0" "bit (f OR EPOLLOUT) n \<longleftrightarrow> bit f n \<or> n = 2"
    by (auto simp: bit_and_iff bit_or_iff bit_not_iff in0 out2 possible_bit_def)
qed

section \<open>What the port listens to\<close>

definition listens :: "line \<Rightarrow> fd \<Rightarrow> u32 \<Rightarrow> serial_handler \<Rightarrow> bool" where
  "listens l fd ev h \<longleftrightarrow> (\<exists>a. map_of (mHandlers (mEventLoop (com l))) fd = Some a \<and>
     interest (net l) fd = Some (ev, NodePtr a) \<and> nodes (net l) a = Some (fd, (self (com l), h)))"

definition accepts :: "(ctl_op \<Rightarrow> fd \<Rightarrow> bool) \<Rightarrow> bool" where
  "accepts ctl \<longleftrightarrow> (\<forall>opn fd. ctl opn fd)"

lemma modify_client_listens:
  assumes "accepts ctl" and "mState (mEventLoop (com l))" and "epoll_open (net l)"
    and "listens l fd ev h"
  shows "listens (modify_client ctl fd l) k ev' h' \<longleftrightarrow>
    (if k = fd then ev' = mEventFlags (com l) \<and> h' = h else listens l k ev' h')"
    and "epoll_open (net (modify_client ctl fd l))"
  using assms
  by (auto simp: listens_def modify_client_def modifyEvent_def epoll_ctl_def accepts_def domIff split: if_splits)

lemma add_handler_listens:
  assumes "accepts ctl" and "mState (mEventLoop (com l))" and "epoll_open (net l)" and "net_inv l"
    and "map_of (mHandlers (mEventLoop (com l))) fd = None" and "interest (net l) fd = None"
  shows "listens (add_handler ctl fd ev h l) fd ev h"
    and "k \<noteq> fd \<Longrightarrow> listens l k ev' h' \<Longrightarrow> listens (add_handler ctl fd ev h l) k ev' h'"
    and "epoll_open (net (add_handler ctl fd ev h l))" and "mState (mEventLoop (com (add_handler ctl fd ev h l)))"
    and "map_of (mHandlers (mEventLoop (com (add_handler ctl fd ev h l)))) k =
      (if k = fd then Some (next_node (net l)) else map_of (mHandlers (mEventLoop (com l))) k)"
    and "interest (net (add_handler ctl fd ev h l)) k =
      (if k = fd then Some (ev, NodePtr (next_node (net l))) else interest (net l) k)"
proof -
  have fresh: "nodes (net l) (next_node (net l)) = None"
    using assms(4) by (force simp: net_inv_def world_inv_def)
  define n where "n = next_node (net l)"
  have add: "add_handler ctl fd ev h l = l\<lparr>
      com := (com l)\<lparr>mEventLoop := (mEventLoop (com l))\<lparr>mHandlers := (fd, n) # mHandlers (mEventLoop (com l))\<rparr>\<rparr>,
      net := (net l)\<lparr>nodes := (nodes (net l))(n \<mapsto> (fd, (self (com l), h))), next_node := Suc n,
                    interest := (interest (net l))(fd \<mapsto> (ev, NodePtr n)), nonblocking := insert fd (nonblocking (net l))\<rparr>\<rparr>"
    using assms by (simp add: add_handler_def addEvent_def setNonBlocking_def insert_handler_def epoll_ctl_def accepts_def domIff n_def Let_def)
  show "listens (add_handler ctl fd ev h l) fd ev h" by (simp add: add listens_def)
  show "listens (add_handler ctl fd ev h l) k ev' h'" if k: "k \<noteq> fd" and old: "listens l k ev' h'"
  proof -
    obtain a where a: "map_of (mHandlers (mEventLoop (com l))) k = Some a"
      "interest (net l) k = Some (ev', NodePtr a)" "nodes (net l) a = Some (k, (self (com l), h'))"
      using old by (auto simp: listens_def)
    then have "a \<noteq> n" using fresh by (auto simp: n_def)
    then show ?thesis using a k by (simp add: add listens_def)
  qed
  show "epoll_open (net (add_handler ctl fd ev h l))" "mState (mEventLoop (com (add_handler ctl fd ev h l)))"
    using assms by (simp_all add: add)
  show "map_of (mHandlers (mEventLoop (com (add_handler ctl fd ev h l)))) k =
      (if k = fd then Some (next_node (net l)) else map_of (mHandlers (mEventLoop (com l))) k)"
    "interest (net (add_handler ctl fd ev h l)) k =
      (if k = fd then Some (ev, NodePtr (next_node (net l))) else interest (net l) k)"
    by (simp_all add: add n_def)
qed

text \<open>
  The invariant of a running port: every client is listened to for at least the events of
  \<open>mEventFlags\<close>, the server for new clients, and the two timers for their expiry. No client's descriptor blocks, so that
  neither \<open>read\<close> nor \<open>write\<close> on it ever holds up the guest.
\<close>

definition running :: "line \<Rightarrow> bool" where
  "running l \<longleftrightarrow> net_inv l \<and> mState (mEventLoop (com l)) \<and> epoll_open (net l) \<and>
     (\<forall>fd \<in> set (clients (fds (com l))). \<exists>ev. listens l fd ev (ClientEvent fd) \<and> flags_in (mEventFlags (com l)) ev) \<and>
     set (clients (fds (com l))) \<subseteq> nonblocking (net l) - {-1} \<and>
     listens l (server (fds (com l))) EPOLLIN ServerEvent \<and> server (fds (com l)) \<notin> set (clients (fds (com l))) \<and>
     listens l (readTimer (fds (com l))) EPOLLIN ReadTimerEvent \<and>
     listens l (writeTimer (fds (com l))) EPOLLIN WriteTimerEvent \<and>
     readTimer (fds (com l)) \<noteq> writeTimer (fds (com l)) \<and>
     readTimer (fds (com l)) \<notin> set (clients (fds (com l))) \<and> writeTimer (fds (com l)) \<notin> set (clients (fds (com l)))"

lemma running_frame:
  assumes "running l" and "net l' = net l" and "self (com l') = self (com l)"
    and "mEventLoop (com l') = mEventLoop (com l)" and "fds (com l') = fds (com l)"
    and "\<And>n. bit (mEventFlags (com l')) n \<Longrightarrow> bit (mEventFlags (com l)) n"
  shows "running l'"
proof -
  have "listens l' = listens l" using assms(2-4) by (simp add: listens_def fun_eq_iff)
  moreover have "flags_in (mEventFlags (com l)) ev \<Longrightarrow> flags_in (mEventFlags (com l')) ev" for ev
    using assms(6) by (auto simp: flags_in_def)
  ultimately show ?thesis
    using assms(1-5) net_inv_cong [of l' l] by (fastforce simp: running_def)
qed

lemma modify_client_nonblocking [simp]: "nonblocking (net (modify_client ctl fd l)) = nonblocking (net l)"
proof -
  obtain r w where m: "modifyEvent ctl fd (mEventFlags (com l)) (mEventLoop (com l)) (net l) = (r, w)" by fastforce
  show ?thesis using modifyEvent_nonblocking [OF m] by (simp add: modify_client_def m)
qed

lemma running_modify:
  assumes "running l" and "accepts ctl" and "fd \<in> set (clients (fds (com l)))"
  shows "running (modify_client ctl fd l)"
proof -
  obtain ev where ev: "listens l fd ev (ClientEvent fd)" using assms(1,3) by (auto simp: running_def)
  have st: "mState (mEventLoop (com l))" "epoll_open (net l)" using assms(1) by (simp_all add: running_def)
  note mod = modify_client_listens [OF assms(2) st ev]
  have timers: "fd \<noteq> readTimer (fds (com l))" "fd \<noteq> writeTimer (fds (com l))" "fd \<noteq> server (fds (com l))"
    using assms(1,3) by (auto simp: running_def)
  have "\<exists>ev. listens (modify_client ctl fd l) k ev (ClientEvent k) \<and> flags_in (mEventFlags (com l)) ev"
    if "k \<in> set (clients (fds (com l)))" for k
    using that assms(1) by (cases "k = fd") (auto simp: mod(1) running_def)
  then show ?thesis
    using assms(1) timers modify_client_net_inv [of l ctl fd] mod by (simp add: running_def)
qed

lemma fold_modify:
  assumes "accepts ctl" and "mState (mEventLoop (com l))" and "epoll_open (net l)" and "net_inv l"
    and "\<forall>fd \<in> set cs. \<exists>ev. listens l fd ev (ClientEvent fd)"
  defines "l' \<equiv> fold (modify_client ctl) cs l"
  shows "com l' = com l \<and> env l' = env l \<and> epoll_open (net l') \<and> net_inv l' \<and> nonblocking (net l') = nonblocking (net l) \<and>
    (\<forall>fd \<in> set cs. listens l' fd (mEventFlags (com l)) (ClientEvent fd)) \<and>
    (\<forall>k ev h. k \<notin> set cs \<longrightarrow> listens l' k ev h = listens l k ev h)"
  using assms(2-5) unfolding l'_def
proof (induction cs arbitrary: l)
  case (Cons c cs)
  obtain ev where ev: "listens l c ev (ClientEvent c)" using Cons.prems(4) by auto
  note mod = modify_client_listens [OF assms(1) Cons.prems(1,2) ev]
  let ?l1 = "modify_client ctl c l"
  have "\<forall>fd \<in> set cs. \<exists>ev. listens ?l1 fd ev (ClientEvent fd)"
    using Cons.prems(4) by (auto simp: mod(1))
  then have IH: "com (fold (modify_client ctl) cs ?l1) = com ?l1 \<and> env (fold (modify_client ctl) cs ?l1) = env ?l1 \<and>
      epoll_open (net (fold (modify_client ctl) cs ?l1)) \<and> net_inv (fold (modify_client ctl) cs ?l1) \<and>
      nonblocking (net (fold (modify_client ctl) cs ?l1)) = nonblocking (net ?l1) \<and>
      (\<forall>fd \<in> set cs. listens (fold (modify_client ctl) cs ?l1) fd (mEventFlags (com ?l1)) (ClientEvent fd)) \<and>
      (\<forall>k ev h. k \<notin> set cs \<longrightarrow> listens (fold (modify_client ctl) cs ?l1) k ev h = listens ?l1 k ev h)"
    using Cons.prems mod(2) modify_client_net_inv by (intro Cons.IH) simp_all
  then show ?case by (auto simp: mod(1))
qed simp

lemma running_timer:
  assumes "running l" and "accepts ctl"
    and l1: "net l1 = net l" "self (com l1) = self (com l)" "mEventLoop (com l1) = mEventLoop (com l)" "fds (com l1) = fds (com l)"
  shows "running (reloadEventLoop ctl l1) \<and> com (reloadEventLoop ctl l1) = com l1 \<and>
    env (reloadEventLoop ctl l1) = env l1"
proof -
  have same: "listens l1 = listens l" using l1 by (simp add: listens_def fun_eq_iff)
  have "\<forall>fd \<in> set (clients (fds (com l1))). \<exists>ev. listens l1 fd ev (ClientEvent fd)"
    using assms(1) l1 same by (auto simp: running_def)
  moreover have "net_inv l1" "mState (mEventLoop (com l1))" "epoll_open (net l1)"
    using assms(1) l1 net_inv_cong [of l1 l] by (auto simp: running_def)
  ultimately have after: "com (reloadEventLoop ctl l1) = com l1 \<and> env (reloadEventLoop ctl l1) = env l1 \<and>
      epoll_open (net (reloadEventLoop ctl l1)) \<and> net_inv (reloadEventLoop ctl l1) \<and>
      nonblocking (net (reloadEventLoop ctl l1)) = nonblocking (net l1) \<and>
      (\<forall>fd \<in> set (clients (fds (com l1))). listens (reloadEventLoop ctl l1) fd (mEventFlags (com l1)) (ClientEvent fd)) \<and>
      (\<forall>k ev h. k \<notin> set (clients (fds (com l1))) \<longrightarrow> listens (reloadEventLoop ctl l1) k ev h = listens l1 k ev h)"
    unfolding reloadEventLoop_def by (intro fold_modify assms(2)) simp_all
  have "\<forall>fd \<in> set (clients (fds (com l1))). \<exists>ev. listens (reloadEventLoop ctl l1) fd ev (ClientEvent fd) \<and>
      flags_in (mEventFlags (com l1)) ev"
    using after by (meson flags_in_refl)
  then show ?thesis
    using assms(1) after l1 same by (simp add: running_def)
qed

section \<open>The port runs\<close>

text \<open>
  Besides the accesses and the events, a client connects to the socket (\<open>Dialled\<close>, with the descriptor that
  \<open>accept\<close> will return for it) or sends bytes (\<open>Arrived\<close>).
\<close>

datatype line_label = Wrote u16 u8 | DidRead u16 | ClientReady fd u32 | ReadTimeout | WriteTimeout | Connected | Dialled fd | Arrived fd "u8 list"

inductive line_step :: "(ctl_op \<Rightarrow> fd \<Rightarrow> bool) \<Rightarrow> (nat \<Rightarrow> nat option \<Rightarrow> nat option) \<Rightarrow> line \<Rightarrow> line_label \<Rightarrow> line \<Rightarrow> bool"
  for ctl settime where
  step_write: "serial_iowrite8 settime l a v = Inr l' \<Longrightarrow> line_step ctl settime l (Wrote a v) l'"
| step_read: "serial_ioread8 settime l a = Inr (l', v) \<Longrightarrow> line_step ctl settime l (DidRead a) l'"
| step_ready: "fd \<in> set (clients (fds (com l))) \<Longrightarrow> listens l fd ev (ClientEvent fd) \<Longrightarrow> e AND NOT (ev OR 0x18) = 0 \<Longrightarrow>
     line_step ctl settime l (ClientReady fd e) (handleClientEvent ctl fd e l)"
| step_read_timeout: "timers (env l) (readTimer (fds (com l))) = Some n \<Longrightarrow>
     line_step ctl settime l ReadTimeout (read_timer_handler ctl EPOLLIN l)"
| step_write_timeout: "timers (env l) (writeTimer (fds (com l))) = Some n \<Longrightarrow>
     line_step ctl settime l WriteTimeout (write_timer_handler ctl EPOLLIN l)"
| step_connect: "backlog (env l) = fd # rest \<Longrightarrow> fd \<noteq> -1 \<Longrightarrow> map_of (mHandlers (mEventLoop (com l))) fd = None \<Longrightarrow>
     interest (net l) fd = None \<Longrightarrow> line_step ctl settime l Connected (server_handler ctl EPOLLIN l)"
| step_dial: "line_step ctl settime l (Dialled fd) (upd_env (\<lambda>h. h\<lparr>backlog := backlog h @ [fd]\<rparr>) l)"
| step_arrive: "line_step ctl settime l (Arrived fd bs) (upd_env (\<lambda>h. h\<lparr>inbox := (inbox h)(fd := inbox h fd @ bs)\<rparr>) l)"

inductive_cases write_stepE: "line_step ctl settime l (Wrote a v) l'"
inductive_cases read_stepE: "line_step ctl settime l (DidRead a) l'"

text \<open>Executions in which every step satisfies a condition on the state it is made in.\<close>

inductive line_run :: "(ctl_op \<Rightarrow> fd \<Rightarrow> bool) \<Rightarrow> (nat \<Rightarrow> nat option \<Rightarrow> nat option) \<Rightarrow> (line \<Rightarrow> line_label \<Rightarrow> bool) \<Rightarrow>
    line \<Rightarrow> line \<Rightarrow> bool"
  for ctl settime guard l0 where
  run_start: "line_run ctl settime guard l0 l0"
| run_step: "line_run ctl settime guard l0 l \<Longrightarrow> line_step ctl settime l lab l' \<Longrightarrow> guard l lab \<Longrightarrow>
     line_run ctl settime guard l0 l'"

text \<open>Port accesses touch neither the event loop nor the events waited for.\<close>

lemma iowrite8_frame:
  assumes "serial_iowrite8 settime l a v = Inr l'"
  shows "net l' = net l \<and> self (com l') = self (com l) \<and> mEventLoop (com l') = mEventLoop (com l) \<and> fds (com l') = fds (com l) \<and>
    mEventFlags (com l') = mEventFlags (com l) \<and> readable (regs (com l')) = readable (regs (com l))"
proof -
  have "l' = projr (serial_iowrite8 settime l a v)" using assms by simp
  then show ?thesis
    by (cases "serial_register_of a"; cases "DLAB (regs (com l))")
      (simp_all add: serial_iowrite8_def transmit_def write_interrupt_control_def Let_def)
qed

lemma ioread8_frame:
  assumes "serial_ioread8 settime l a = Inr (l', v)"
  shows "net l' = net l \<and> self (com l') = self (com l) \<and> mEventLoop (com l') = mEventLoop (com l) \<and> fds (com l') = fds (com l) \<and>
    mEventFlags (com l') = mEventFlags (com l) \<and> writable (regs (com l')) = writable (regs (com l))"
proof -
  have rd: "net l1 = net l \<and> self (com l1) = self (com l) \<and> mEventLoop (com l1) = mEventLoop (com l) \<and> fds (com l1) = fds (com l) \<and>
      mEventFlags (com l1) = mEventFlags (com l) \<and> writable (regs (com l1)) = writable (regs (com l))"
    if "receive_data settime l = (l1, w)" for l1 w
    using that by (auto simp: receive_data_def Let_def split: prod.splits)
  have st: "net l1 = net l \<and> self (com l1) = self (com l) \<and> mEventLoop (com l1) = mEventLoop (com l) \<and> fds (com l1) = fds (com l) \<and>
      mEventFlags (com l1) = mEventFlags (com l) \<and> writable (regs (com l1)) = writable (regs (com l))"
    if "read_interrupt_status l = (l1, w)" for l1 w
    using that by (auto simp: read_interrupt_status_def Let_def split: if_splits)
  show ?thesis using assms
    by (cases "serial_register_of a") (auto simp: serial_ioread8_def Let_def dest: rd st split: if_splits)
qed

text \<open>An access that a port answers is a byte-wide one.\<close>

lemma com_access_step:
  assumes "performKVMExitOperation (serial_ops settime) l out port buf n = Inr (l', buf')"
  shows "line_step ctl settime l (if out then Wrote port (buf ! 0) else DidRead port) l'"
proof -
  have one: "n = 1" and buf: "buf \<noteq> []"
    using assms
    by (auto simp: performKVMExitOperation_def serial_ops_def DevicePio_def pio_write_def pio_read_def result_simps
        split: if_splits)
  then have get: "le_get 1 buf = buf ! 0" by (cases buf) (simp_all add: le_get_def)
  show ?thesis
  proof (cases out)
    case True
    then have "serial_iowrite8 settime l port (buf ! 0) = Inr l'"
      using assms one get
      by (auto simp: performKVMExitOperation_def serial_ops_def DevicePio_def pio_write_def result_simps split: if_splits)
    then show ?thesis using True by (simp add: step_write)
  next
    case False
    then obtain v where "serial_ioread8 settime l port = Inr (l', v)"
      using assms one
      by (auto simp: performKVMExitOperation_def serial_ops_def DevicePio_def pio_read_def result_simps split: if_splits)
    then show ?thesis using False by (auto intro: step_read)
  qed
qed

lemma com_access_frame:
  assumes "performKVMExitOperation (serial_ops settime) l out port buf n = Inr (l', buf')"
  shows "net l' = net l \<and> self (com l') = self (com l) \<and> mEventLoop (com l') = mEventLoop (com l) \<and> fds (com l') = fds (com l)"
proof -
  have "line_step (\<lambda>_ _. True) settime l (if out then Wrote port (buf ! 0) else DidRead port) l'"
    by (rule com_access_step [OF assms])
  then show ?thesis
    by (cases out) (auto elim!: write_stepE read_stepE dest!: iowrite8_frame ioread8_frame)
qed

lemma running_connect:
  assumes "running l" and "accepts ctl" and "backlog (env l) = fd # rest" and "fd \<noteq> -1"
    and "map_of (mHandlers (mEventLoop (com l))) fd = None" and "interest (net l) fd = None"
  shows "running (server_handler ctl EPOLLIN l)"
proof -
  define l1 where "l1 = l\<lparr>env := (env l)\<lparr>backlog := rest\<rparr>\<rparr>"
  define l2 where "l2 = add_handler ctl fd (mEventFlags (com l)) (ClientEvent fd) l1"
  have "(EPOLLIN AND EPOLLERR :: u32) = 0" by (simp add: EPOLLIN_def EPOLLERR_def)
  then have srv: "server_handler ctl EPOLLIN l = upd_fds (\<lambda>d. d\<lparr>clients := set_insert fd (clients d)\<rparr>) l2"
    using assms(3,4) by (simp add: server_handler_def accept_fd_def l1_def l2_def Let_def)
  have l1: "running l1" using assms(1) by (rule running_frame) (simp_all add: l1_def)
  have st: "mState (mEventLoop (com l1))" "epoll_open (net l1)" "net_inv l1" using l1 by (simp_all add: running_def)
  have fresh: "map_of (mHandlers (mEventLoop (com l1))) fd = None" "interest (net l1) fd = None"
    using assms(5,6) by (simp_all add: l1_def)
  note add = add_handler_listens [OF assms(2) st fresh, where ev = "mEventFlags (com l)" and h = "ClientEvent fd", folded l2_def]
  have com2: "fds (com l2) = fds (com l1)" "mEventFlags (com l2) = mEventFlags (com l1)"
    by (simp_all add: l2_def add_handler_def split: prod.split)
  have flags: "mEventFlags (com l1) = mEventFlags (com l)" by (simp add: l1_def)
  have nofd: "\<not> listens l1 fd ev h" for ev h using fresh by (simp add: listens_def)
  then have keep: "listens l1 k ev h \<Longrightarrow> listens l2 k ev h" for k ev h using add(2) by (cases "k = fd") auto
  have clients: "\<exists>ev. listens l2 k ev (ClientEvent k) \<and> flags_in (mEventFlags (com l1)) ev"
    if "k \<in> set (set_insert fd (clients (fds (com l1))))" for k
  proof (cases "k = fd")
    case True
    then show ?thesis using add(1) flags by auto
  next
    case False
    then have "k \<in> set (clients (fds (com l1)))" using that by (simp add: set_insert_def set_insort_key split: if_splits)
    then show ?thesis using l1 keep by (fastforce simp: running_def)
  qed
  have lis: "listens (upd_fds f l2) = listens l2" for f by (simp add: listens_def fun_eq_iff)
  have timers: "readTimer (fds (com l1)) \<noteq> fd" "writeTimer (fds (com l1)) \<noteq> fd" "server (fds (com l1)) \<noteq> fd"
    using l1 nofd by (auto simp: running_def)
  have "nonblocking (net l2) = insert fd (nonblocking (net l1))"
  proof -
    obtain ok el w where a: "addEvent ctl fd (mEventFlags (com l)) (self (com l1), ClientEvent fd) (mEventLoop (com l1)) (net l1) = (ok, el, w)"
      by (metis prod_cases3)
    show ?thesis using addEvent_nonblocking [OF a] assms(2) st(1) by (simp add: l2_def add_handler_def a accepts_def)
  qed
  then have flags2: "set (set_insert fd (clients (fds (com l1)))) \<subseteq> nonblocking (net l2) - {-1}"
    using l1 assms(4) by (auto simp: running_def set_insert_def set_insort_key)
  have "net_inv l2" unfolding l2_def using st(3) by (rule add_handler_net_inv)
  then have "net_inv (server_handler ctl EPOLLIN l)" by (simp add: srv net_inv_def)
  then show ?thesis
    using l1 clients keep timers flags2 add(3,4) com2
    by (simp add: running_def srv lis) (auto simp: set_insert_def set_insort_key)
qed

lemma line_step_running:
  assumes "line_step ctl settime l lab l'" and "running l" and "accepts ctl"
  shows "running l'"
  using assms(1)
proof cases
  case (step_write a v)
  then show ?thesis using iowrite8_frame [of settime l a v l'] by (intro running_frame [OF assms(2)]) simp_all
next
  case (step_read a v)
  then show ?thesis using ioread8_frame [of settime l a l' v] by (intro running_frame [OF assms(2)]) simp_all
next
  case (step_ready fd ev e)
  define l1 where "l1 = (if e AND EPOLLIN \<noteq> 0 then read_condition l else l)"
  define l2 where "l2 = (if e AND EPOLLOUT \<noteq> 0 then write_condition l1 else l1)"
  have r1: "running l1"
    using assms(2) by (rule running_frame) (auto simp: l1_def conditions_net flag_updates split: if_splits)
  have r2: "running l2"
    using r1 by (rule running_frame) (auto simp: l2_def conditions_net flag_updates split: if_splits)
  have "fd \<in> set (clients (fds (com l2)))" using step_ready(3) by (simp add: l1_def l2_def conditions_net)
  then have "running (modify_client ctl fd l2)" by (rule running_modify [OF r2 assms(3)])
  moreover have "l' = modify_client ctl fd l2"
    unfolding step_ready(2) by (simp only: handleClientEvent_def Let_def l1_def l2_def)
  ultimately show ?thesis by simp
next
  case (step_read_timeout n)
  have "(EPOLLIN AND EPOLLERR :: u32) = 0" by (simp add: EPOLLIN_def EPOLLERR_def)
  then show ?thesis
    using running_timer [OF assms(2,3)] step_read_timeout by (simp add: read_timer_handler_def)
next
  case (step_write_timeout n)
  have "(EPOLLIN AND EPOLLERR :: u32) = 0" by (simp add: EPOLLIN_def EPOLLERR_def)
  then show ?thesis
    using running_timer [OF assms(2,3)] step_write_timeout by (simp add: write_timer_handler_def)
next
  case (step_connect fd rest)
  then show ?thesis using running_connect [OF assms(2,3)] by blast
next
  case (step_dial fd)
  then show ?thesis by (intro running_frame [OF assms(2)]) simp_all
next
  case (step_arrive fd bs)
  then show ?thesis by (intro running_frame [OF assms(2)]) simp_all
qed

lemma line_run_running: "line_run ctl settime guard l0 l \<Longrightarrow> running l0 \<Longrightarrow> accepts ctl \<Longrightarrow> running l"
  by (induction rule: line_run.induct) (auto intro: line_step_running)

section \<open>No condition is lost while the divisor is in range\<close>

text \<open>
  Something will make the receiver, or the transmitter, ready: it is, or its event is waited for, or
  its timer is armed.
\<close>

definition rx_live :: "line \<Rightarrow> bool" where
  "rx_live l \<longleftrightarrow> readable (regs (com l)) \<or> bit (mEventFlags (com l)) 0 \<or> timers (env l) (readTimer (fds (com l))) \<noteq> None"

definition tx_live :: "line \<Rightarrow> bool" where
  "tx_live l \<longleftrightarrow> writable (regs (com l)) \<or> bit (mEventFlags (com l)) 2 \<or> timers (env l) (writeTimer (fds (com l))) \<noteq> None"

text \<open>Data accesses are made with a divisor between 1 and 11519.\<close>

definition data_access :: "line \<Rightarrow> u16 \<Rightarrow> bool" where
  "data_access l a \<longleftrightarrow> serial_register_of a = Data_DivisorLowByte \<and> \<not> DLAB (regs (com l))"

fun paced :: "line \<Rightarrow> line_label \<Rightarrow> bool" where
  "paced l (Wrote a v) \<longleftrightarrow> (data_access l a \<longrightarrow> 0 < divisor (regs (com l)) \<and> divisor (regs (com l)) < 11520)"
| "paced l (DidRead a) \<longleftrightarrow> (data_access l a \<longrightarrow> 0 < divisor (regs (com l)) \<and> divisor (regs (com l)) < 11520)"
| "paced l lab \<longleftrightarrow> True"

lemma unat_byte_delay: "unat (byte_delay d) = 1600000000 * unat d div 18432"
proof -
  have "unat (ucast d :: u64) = unat d"
    using unat_bound [of d] by (simp add: unsigned_ucast_eq take_bit_nat_eq_self_iff)
  moreover have "1600000000 * unat d < 2 ^ 64" using unat_bound [of d] by simp
  ultimately show ?thesis by (simp add: byte_delay_def unat_div unat_word_ariths)
qed

lemma byte_delay_bounds:
  assumes "0 < d" and "d < 11520"
  shows "0 < unat (byte_delay d) \<and> unat (byte_delay d) \<le> 999999999"
proof -
  have "0 < unat d" "unat d < 11520" using assms by (simp_all add: word_less_nat_alt)
  then show ?thesis by (simp add: unat_byte_delay) (simp add: div_greater_zero_iff div_le_mono less_mult_imp_div_less)?
qed

lemma paced_timer:
  assumes "timerfd_spec settime" and "0 < d" and "d < 11520"
  shows "settime (unat (byte_delay d)) t = Some (unat (byte_delay d))"
  using byte_delay_bounds [OF assms(2,3)] assms(1) by (simp add: timerfd_spec_def)

text \<open>What a step does to the receiver's part of the state, and to the transmitter's.\<close>

lemma iowrite8_timers:
  assumes "serial_iowrite8 settime l a v = Inr l'"
  shows "timers (env l') = (if data_access l a
      then (timers (env l))(writeTimer (fds (com l)) := settime (unat (byte_delay (divisor (regs (com l))))) (timers (env l) (writeTimer (fds (com l)))))
      else timers (env l)) \<and>
    writable (regs (com l')) = (writable (regs (com l)) \<and> \<not> data_access l a)"
proof -
  have "l' = projr (serial_iowrite8 settime l a v)" using assms by simp
  then show ?thesis
    by (cases "serial_register_of a"; cases "DLAB (regs (com l))")
      (simp_all add: serial_iowrite8_def transmit_def write_interrupt_control_def data_access_def Let_def)
qed

lemma ioread8_timers:
  assumes "serial_ioread8 settime l a = Inr (l', v)"
  shows "timers (env l') = (if data_access l a
      then (timers (env l))(readTimer (fds (com l)) := settime (unat (byte_delay (divisor (regs (com l))))) (timers (env l) (readTimer (fds (com l)))))
      else timers (env l)) \<and>
    readable (regs (com l')) = (readable (regs (com l)) \<and> \<not> data_access l a)"
proof -
  have st: "env l1 = env l \<and> readable (regs (com l1)) = readable (regs (com l))"
    if "read_interrupt_status l = (l1, w)" for l1 w
    using that by (auto simp: read_interrupt_status_def Let_def split: if_splits)
  show ?thesis
  proof (cases "data_access l a")
    case True
    then have "receive_data settime l = (l', v)" using assms by (simp add: data_access_def serial_ioread8_def)
    then show ?thesis using True by (auto simp: receive_data_def Let_def split: prod.splits)
  next
    case False
    then show ?thesis using assms
      by (cases "serial_register_of a") (auto simp: data_access_def serial_ioread8_def Let_def dest: st split: if_splits)
  qed
qed

lemma handleClientEvent_effect:
  "readable (regs (com (handleClientEvent ctl fd e l))) = (readable (regs (com l)) \<or> bit e 0) \<and>
   writable (regs (com (handleClientEvent ctl fd e l))) = (writable (regs (com l)) \<or> bit e 2) \<and>
   mEventFlags (com (handleClientEvent ctl fd e l)) =
     (let f = (if bit e 0 then mEventFlags (com l) AND NOT EPOLLIN else mEventFlags (com l))
      in if bit e 2 then f AND NOT EPOLLOUT else f) \<and>
   fds (com (handleClientEvent ctl fd e l)) = fds (com l) \<and>
   timers (env (handleClientEvent ctl fd e l)) = timers (env l)"
  by (simp add: handleClientEvent_def Let_def flag_bits conditions_net read_condition_effect write_condition_effect)

lemma server_handler_effect:
  "regs (com (server_handler ctl e l)) = regs (com l) \<and> mEventFlags (com (server_handler ctl e l)) = mEventFlags (com l) \<and>
   timers (env (server_handler ctl e l)) = timers (env l) \<and>
   readTimer (fds (com (server_handler ctl e l))) = readTimer (fds (com l)) \<and>
   writeTimer (fds (com (server_handler ctl e l))) = writeTimer (fds (com l))"
proof -
  have "timers h = timers (env l)" if "accept_fd (env l) = (fd, h)" for fd h
    using that by (auto simp: accept_fd_def split: list.splits)
  then show ?thesis by (simp add: server_handler_def add_handler_def Let_def split: prod.split)
qed

lemma reload_simps [simp]: "com (reloadEventLoop ctl l) = com l" "env (reloadEventLoop ctl l) = env l"
proof -
  have "com (fold (modify_client ctl) cs l) = com l \<and> env (fold (modify_client ctl) cs l) = env l" for cs
    by (induction cs arbitrary: l) simp_all
  then show "com (reloadEventLoop ctl l) = com l" "env (reloadEventLoop ctl l) = env l"
    by (simp_all add: reloadEventLoop_def)
qed

lemma timer_handler_effect:
  "com (read_timer_handler ctl EPOLLIN l) = com (upd_flags (\<lambda>f. f OR EPOLLIN) l)"
  "env (read_timer_handler ctl EPOLLIN l) = (env l)\<lparr>timers := (timers (env l))(readTimer (fds (com l)) := None)\<rparr>"
  "com (write_timer_handler ctl EPOLLIN l) = com (upd_flags (\<lambda>f. f OR EPOLLOUT) l)"
  "env (write_timer_handler ctl EPOLLIN l) = (env l)\<lparr>timers := (timers (env l))(writeTimer (fds (com l)) := None)\<rparr>"
  by (simp_all add: read_timer_handler_def write_timer_handler_def upd_flags_def EPOLLIN_def EPOLLERR_def)

lemma line_step_live:
  assumes step: "line_step ctl settime l lab l'" and run: "running l" and acc: "accepts ctl"
    and spec: "timerfd_spec settime" and pace: "paced l lab" and live: "rx_live l" "tx_live l"
  shows "rx_live l' \<and> tx_live l'"
  using step
proof cases
  case (step_write a v)
  then show ?thesis
    using iowrite8_frame [of settime l a v l'] iowrite8_timers [of settime l a v l'] live pace run
      paced_timer [OF spec] by (auto simp: rx_live_def tx_live_def running_def)
next
  case (step_read a v)
  then show ?thesis
    using ioread8_frame [of settime l a l' v] ioread8_timers [of settime l a l' v] live pace run
      paced_timer [OF spec] by (auto simp: rx_live_def tx_live_def running_def)
next
  case (step_ready fd ev e)
  then show ?thesis
    using live handleClientEvent_effect [of ctl fd e l] by (auto simp: rx_live_def tx_live_def Let_def flag_updates)
next
  case (step_read_timeout n)
  then show ?thesis
    using live run by (simp add: rx_live_def tx_live_def timer_handler_effect flag_updates running_def)
next
  case (step_write_timeout n)
  then show ?thesis
    using live run by (simp add: rx_live_def tx_live_def timer_handler_effect flag_updates running_def)
next
  case (step_connect fd rest)
  then show ?thesis using live server_handler_effect [of ctl EPOLLIN l] by (simp add: rx_live_def tx_live_def)
next
  case (step_dial fd)
  then show ?thesis using live by (simp add: rx_live_def tx_live_def)
next
  case (step_arrive fd bs)
  then show ?thesis using live by (simp add: rx_live_def tx_live_def)
qed

lemma line_run_live:
  assumes "line_run ctl settime paced l0 l" and "running l0" and "accepts ctl" and "timerfd_spec settime"
    and "rx_live l0" and "tx_live l0"
  shows "rx_live l \<and> tx_live l"
  using assms(1)
proof (induction rule: line_run.induct)
  case (run_step l lab l')
  then show ?case using line_step_live line_run_running assms(2-4) by blast
qed (use assms(5,6) in simp)

text \<open>
  So a port that is not ready to receive will be: every client is listened to for input, or the
  timer that turns that on again is armed and listened to. The same holds of the transmitter.
\<close>

definition awaits :: "line \<Rightarrow> nat \<Rightarrow> bool" where
  "awaits l n \<longleftrightarrow> (\<forall>fd \<in> set (clients (fds (com l))). \<exists>ev. listens l fd ev (ClientEvent fd) \<and> bit ev n)"

lemma live_port_waits:
  assumes run: "running l" and live: "rx_live l" "tx_live l"
  shows "(readable (regs (com l)) \<or> awaits l 0 \<or>
      (\<exists>n. timers (env l) (readTimer (fds (com l))) = Some n \<and> listens l (readTimer (fds (com l))) EPOLLIN ReadTimerEvent)) \<and>
    (writable (regs (com l)) \<or> awaits l 2 \<or>
      (\<exists>n. timers (env l) (writeTimer (fds (com l))) = Some n \<and> listens l (writeTimer (fds (com l))) EPOLLIN WriteTimerEvent))"
proof -
  have "awaits l n" if "bit (mEventFlags (com l)) n" for n
    using run that by (fastforce simp: awaits_def running_def flags_in_def)
  then show ?thesis using live run by (auto simp: rx_live_def tx_live_def running_def)
qed

theorem no_condition_is_lost:
  assumes "line_run ctl settime paced l0 l" and "running l0" and "accepts ctl" and "timerfd_spec settime"
    and "rx_live l0" and "tx_live l0"
  shows "(readable (regs (com l)) \<or> awaits l 0 \<or>
      (\<exists>n. timers (env l) (readTimer (fds (com l))) = Some n \<and> listens l (readTimer (fds (com l))) EPOLLIN ReadTimerEvent)) \<and>
    (writable (regs (com l)) \<or> awaits l 2 \<or>
      (\<exists>n. timers (env l) (writeTimer (fds (com l))) = Some n \<and> listens l (writeTimer (fds (com l))) EPOLLIN WriteTimerEvent))"
proof -
  have "rx_live l \<and> tx_live l" using assms by (rule line_run_live)
  moreover have "running l" using assms(1-3) by (rule line_run_running)
  ultimately show ?thesis using live_port_waits by simp
qed

section \<open>A divisor of zero stops the transmitter\<close>

text \<open>A guest that waits for the transmitter to be ready before it sends.\<close>

fun waits :: "line \<Rightarrow> line_label \<Rightarrow> bool" where
  "waits l (Wrote a v) \<longleftrightarrow> (data_access l a \<longrightarrow> writable (regs (com l)))"
| "waits l lab \<longleftrightarrow> True"

text \<open>No client of the port is watched, or will be, for becoming writable.\<close>

definition tx_quiet :: "line \<Rightarrow> bool" where
  "tx_quiet l \<longleftrightarrow> \<not> bit (mEventFlags (com l)) 2 \<and>
     (\<forall>fd \<in> set (clients (fds (com l))). \<forall>ev p. interest (net l) fd = Some (ev, p) \<longrightarrow> \<not> bit ev 2)"

definition stuck :: "line \<Rightarrow> bool" where
  "stuck l \<longleftrightarrow> \<not> writable (regs (com l)) \<and> tx_quiet l \<and>
     timers (env l) (writeTimer (fds (com l))) = None \<and> readTimer (fds (com l)) \<noteq> writeTimer (fds (com l))"

lemma modify_client_interest:
  "interest (net (modify_client ctl fd l)) k = Some (ev, p) \<Longrightarrow> ev = mEventFlags (com l) \<or> interest (net l) k = Some (ev, p)"
  by (auto simp: modify_client_def modifyEvent_def epoll_ctl_def split: option.splits if_splits)

lemma reload_interest:
  "interest (net (reloadEventLoop ctl l)) k = Some (ev, p) \<Longrightarrow> ev = mEventFlags (com l) \<or> interest (net l) k = Some (ev, p)"
proof -
  have "interest (net (fold (modify_client ctl) cs l)) k = Some (ev, p) \<Longrightarrow>
      ev = mEventFlags (com l) \<or> interest (net l) k = Some (ev, p)" for cs
  proof (induction cs arbitrary: l)
    case (Cons c cs)
    then show ?case using Cons.IH [of "modify_client ctl c l"] modify_client_interest [of ctl c l k ev p] by auto
  qed simp
  then show "interest (net (reloadEventLoop ctl l)) k = Some (ev, p) \<Longrightarrow>
      ev = mEventFlags (com l) \<or> interest (net l) k = Some (ev, p)" by (simp add: reloadEventLoop_def)
qed

lemma removeEvent_interest:
  assumes "removeEvent ctl fd el w = (el', w')" and "interest w' k = Some e"
  shows "interest w k = Some e"
  using assms by (auto simp: removeEvent_def epoll_ctl_def split: option.splits if_splits)

lemma addEvent_interest:
  assumes "addEvent ctl fd ev h el w = (ok, el', w')" and "interest w' k = Some (ev', p)"
  shows "ev' = ev \<or> interest w k = Some (ev', p)"
proof (cases "mState el")
  case True
  obtain el1 w1 where r1: "(if map_of (mHandlers el) fd \<noteq> None then removeEvent ctl fd el w else (el, w)) = (el1, w1)"
    by fastforce
  obtain a el2 w2 where r2: "insert_handler fd h el1 (snd (setNonBlocking ctl fd w1)) = (a, el2, w2)" by (metis prod_cases3)
  have "interest w2 = interest w1" using r2 by (auto simp: insert_handler_def split: option.splits)
  moreover have "epoll_ctl ctl EPOLL_CTL_ADD fd (ev, NodePtr a) w2 = (ok, w')"
    using assms(1) True by (simp only: addEvent_def r1 r2 Let_def prod.case) (auto split: prod.splits)
  ultimately have "ev' = ev \<or> interest w1 k = Some (ev', p)"
    using assms(2) by (auto simp: epoll_ctl_def split: if_splits)
  then show ?thesis using r1 removeEvent_interest [of ctl fd el w el1 w1 k] by (auto split: if_splits)
qed (use assms in \<open>simp add: addEvent_def\<close>)

lemma server_handler_interest:
  assumes "interest (net (server_handler ctl e l)) k = Some (ev, p)"
  shows "ev = mEventFlags (com l) \<or> interest (net l) k = Some (ev, p)"
proof -
  obtain fd h where acc: "accept_fd (env l) = (fd, h)" by fastforce
  obtain ok el w where add: "addEvent ctl fd (mEventFlags (com l)) (self (com l), ClientEvent fd) (mEventLoop (com l)) (net l) = (ok, el, w)"
    by (metis prod_cases3)
  show ?thesis
    using assms addEvent_interest [OF add, of k ev p]
    by (auto simp: server_handler_def acc add_handler_def add Let_def split: if_splits)
qed

lemma tx_quiet_interest: "tx_quiet l \<Longrightarrow> fd \<in> set (clients (fds (com l))) \<Longrightarrow> interest (net l) fd = Some (ev, p) \<Longrightarrow> \<not> bit ev 2"
  by (auto simp: tx_quiet_def)

lemma tx_quiet_frame:
  "tx_quiet l \<Longrightarrow> net l' = net l \<Longrightarrow> clients (fds (com l')) = clients (fds (com l)) \<Longrightarrow> mEventFlags (com l') = mEventFlags (com l) \<Longrightarrow>
     tx_quiet l'"
  by (simp add: tx_quiet_def)

lemma server_handler_clients:
  "backlog (env l) = fd # rest \<Longrightarrow> set (clients (fds (com (server_handler ctl e l)))) \<subseteq> insert fd (set (clients (fds (com l))))"
  by (auto simp: server_handler_def accept_fd_def add_handler_def set_insert_def set_insort_key Let_def split: prod.splits if_splits)

lemma line_step_stuck:
  assumes step: "line_step ctl settime l lab l'" and guard: "waits l lab" and st: "stuck l"
  shows "stuck l'"
  using step
proof cases
  case (step_write a v)
  then show ?thesis
    using iowrite8_frame [of settime l a v l'] iowrite8_timers [of settime l a v l'] guard st tx_quiet_frame [of l l']
    by (auto simp: stuck_def)
next
  case (step_read a v)
  then show ?thesis
    using ioread8_frame [of settime l a l' v] ioread8_timers [of settime l a l' v] st tx_quiet_frame [of l l']
    by (auto simp: stuck_def)
next
  case (step_ready fd ev e)
  have quiet: "tx_quiet l" using st by (simp add: stuck_def)
  then have "\<not> bit ev 2" using step_ready(3,4) by (auto simp: listens_def dest: tx_quiet_interest)
  moreover have "\<not> bit (0x18 :: u32) 2"
  proof -
    have "(0x18 :: u32) AND 2 ^ 2 = 0" by simp
    then show ?thesis using and_exp_eq_0_iff_not_bit by blast
  qed
  moreover have "\<not> bit (e AND NOT (ev OR 0x18)) 2" using step_ready(5) by simp
  ultimately have e2: "\<not> bit e 2" by (simp add: bit_simps)
  have old: "ev' = mEventFlags (com l') \<or> interest (net l) k = Some (ev', p)"
    if "interest (net l') k = Some (ev', p)" for k ev' p
    using that modify_client_interest [of ctl fd _ k ev' p] unfolding step_ready(2)
    by (fastforce simp: handleClientEvent_def Let_def conditions_net split: if_splits)
  have fl: "\<not> bit (mEventFlags (com l')) 2"
    using quiet handleClientEvent_effect [of ctl fd e l] by (simp add: step_ready(2) tx_quiet_def Let_def flag_updates)
  have same: "fds (com l') = fds (com l)" using handleClientEvent_effect [of ctl fd e l] by (simp add: step_ready(2))
  have "tx_quiet l'" using fl old same tx_quiet_interest [OF quiet] by (fastforce simp: tx_quiet_def)
  then show ?thesis
    using st handleClientEvent_effect [of ctl fd e l] e2 by (simp add: stuck_def step_ready(2))
next
  case (step_read_timeout n)
  have quiet: "tx_quiet l" using st by (simp add: stuck_def)
  have "tx_quiet l'"
    using quiet tx_quiet_interest [OF quiet]
    by (auto simp: tx_quiet_def step_read_timeout(2) read_timer_handler_def flag_updates split: if_splits dest!: reload_interest)
  then show ?thesis using st by (simp add: stuck_def step_read_timeout(2) timer_handler_effect)
next
  case (step_write_timeout n)
  then show ?thesis using st by (simp add: stuck_def)
next
  case (step_connect fd rest)
  have quiet: "tx_quiet l" using st by (simp add: stuck_def)
  have "tx_quiet l'"
    unfolding tx_quiet_def
  proof (intro conjI ballI allI impI)
    show "\<not> bit (mEventFlags (com l')) 2"
      using quiet server_handler_effect [of ctl EPOLLIN l] by (simp add: tx_quiet_def step_connect(2))
    fix k ev p assume k: "k \<in> set (clients (fds (com l')))" and i: "interest (net l') k = Some (ev, p)"
    from k have "k = fd \<or> k \<in> set (clients (fds (com l)))"
      using server_handler_clients [OF step_connect(3)] step_connect(2) by blast
    then show "\<not> bit ev 2"
      using i server_handler_interest [of ctl EPOLLIN l k ev p] quiet step_connect(2,6) tx_quiet_interest [OF quiet]
      by (auto simp: tx_quiet_def)
  qed
  then show ?thesis
    using st server_handler_effect [of ctl EPOLLIN l] by (simp add: stuck_def step_connect(2))
next
  case (step_dial fd)
  then show ?thesis using st tx_quiet_frame [of l l'] by (simp add: stuck_def)
next
  case (step_arrive fd bs)
  then show ?thesis using st tx_quiet_frame [of l l'] by (simp add: stuck_def)
qed

lemma line_run_stuck: "line_run ctl settime waits l0 l \<Longrightarrow> stuck l0 \<Longrightarrow> stuck l"
  by (induction rule: line_run.induct) (auto intro: line_step_stuck)

text \<open>
  A port with one client is quiet in this sense once the client's event has made the transmitter ready. With
  several clients the others stay watched until they have reported too.
\<close>

lemma ready_client_quiet:
  assumes "running l" and "accepts ctl" and "clients (fds (com l)) = [fd]" and "bit e 2"
  shows "tx_quiet (handleClientEvent ctl fd e l)"
proof -
  define l1 where "l1 = (if e AND EPOLLIN \<noteq> 0 then read_condition l else l)"
  define l2 where "l2 = write_condition l1"
  have out: "e AND EPOLLOUT \<noteq> 0" using assms(4) by (simp add: flag_bits)
  have h: "handleClientEvent ctl fd e l = modify_client ctl fd l2"
    using out by (simp add: handleClientEvent_def Let_def l1_def l2_def)
  have same: "mEventLoop (com l2) = mEventLoop (com l)" "net l2 = net l" "self (com l2) = self (com l)" "fds (com l2) = fds (com l)"
    by (simp_all add: l2_def l1_def conditions_net)
  obtain ev where "listens l fd ev (ClientEvent fd)" using assms(1,3) by (auto simp: running_def)
  then have lis: "listens l2 fd ev (ClientEvent fd)" using same by (simp add: listens_def)
  have st: "mState (mEventLoop (com l2))" "epoll_open (net l2)" using assms(1) same by (simp_all add: running_def)
  have "listens (modify_client ctl fd l2) fd (mEventFlags (com l2)) (ClientEvent fd)"
    using modify_client_listens(1) [OF assms(2) st lis] by simp
  moreover have "\<not> bit (mEventFlags (com l2)) 2" by (simp add: l2_def conditions_net flag_updates)
  ultimately show ?thesis using assms(3) same by (auto simp: tx_quiet_def h listens_def)
qed

text \<open>
  C31. When a port sends a byte with divisor zero while neither its event flags nor the registration of
  any of its clients asks for EPOLLOUT (the state that the EPOLLOUT event of an only client leaves),
  and its two timers are different descriptors, the write timer is disarmed instead of armed, and the
  transmitter never becomes ready again in any run of the port in which the guest waits for it before
  it sends, whatever its clients send and whoever connects.
\<close>

theorem zero_divisor_stops_the_transmitter:
  assumes "timerfd_spec settime" and "divisor (regs (com l)) = 0" and "data_access l a" and "tx_quiet l"
    and "readTimer (fds (com l)) \<noteq> writeTimer (fds (com l))"
    and "serial_iowrite8 settime l a v = Inr l0" and "line_run ctl settime waits l0 l1"
  shows "timers (env l0) (writeTimer (fds (com l))) = None \<and>
    (\<exists>b. serial_ioread8 settime l1 5 = Inr (l1, b) \<and> b AND 0x60 = 0)"
proof -
  have zero: "byte_delay 0 = 0" by (simp add: byte_delay_def)
  then have off: "timers (env l0) (writeTimer (fds (com l))) = None"
    using assms(1-3) iowrite8_timers [OF assms(6)] by (simp add: timerfd_spec_def)
  then have "stuck l0"
    using assms(3-5) iowrite8_frame [OF assms(6)] iowrite8_timers [OF assms(6)] tx_quiet_frame [of l l0]
    by (simp add: stuck_def)
  then have "\<not> writable (regs (com l1))" using line_run_stuck [OF assms(7)] by (simp add: stuck_def)
  moreover have "serial_register_of 5 = LineStatus" by (simp add: serial_register_of_def)
  ultimately show ?thesis using off by (simp add: serial_ioread8_def Let_def)
qed

section \<open>Starting a port\<close>

text \<open>A port as \<open>main\<close> constructs it, before its first \<open>start\<close>.\<close>

definition new_line :: "nat \<Rightarrow> event_loop \<Rightarrow> port_world \<Rightarrow> line" where
  "new_line i eventLoop w = \<lparr>com = serial_init i eventLoop,
     env = \<lparr>inbox = (\<lambda>_. []), sent = [], irqs = 0, timers = (\<lambda>_. None), closed = [], backlog = []\<rparr>, net = w\<rparr>"

text \<open>Every system call succeeds and the new descriptors are not in use.\<close>

definition start_ok :: "start_results \<Rightarrow> port_world \<Rightarrow> bool" where
  "start_ok res w \<longleftrightarrow> r_bind res \<and> r_listen res \<and> r_irqfd res \<and> r_irq res \<noteq> -1 \<and> r_refresh res \<noteq> -1 \<and>
     distinct [-1, r_socket res, r_readTimer res, r_writeTimer res] \<and>
     (\<forall>fd \<in> {r_socket res, r_readTimer res, r_writeTimer res}. interest w fd = None)"

lemma stop_new_line:
  "stop ctl (new_line i el w) =
     close_line_fd (-1) (close_line_fd (-1) (upd_fds (\<lambda>d. d\<lparr>clients := []\<rparr>) (new_line i el w)))"
  by (simp add: stop_def new_line_def serial_init_def descriptors_init_def Let_def)

definition prepared :: "start_results \<Rightarrow> string \<Rightarrow> fd \<Rightarrow> u32 \<Rightarrow> line \<Rightarrow> line" where
  "prepared res socketName vmFd gsi l =
     l\<lparr>com := (com l)\<lparr>mSocketName := socketName,
        fds := (fds (com l))\<lparr>server := r_socket res, readTimer := r_readTimer res,
          writeTimer := r_writeTimer res, vm := vmFd, irq := r_irq res, refresh := r_refresh res\<rparr>,
        mGSI := gsi\<rparr>\<rparr>"

lemma start_unfold:
  assumes "start_ok res w" and "length socketName < 108"
  shows "start ctl res socketName vmFd gsi l = Inr (True,
    add_handler ctl (r_writeTimer res) EPOLLIN WriteTimerEvent
      (add_handler ctl (r_readTimer res) EPOLLIN ReadTimerEvent
        (add_handler ctl (r_socket res) EPOLLIN ServerEvent (prepared res socketName vmFd gsi (stop ctl l)))))"
  using assms by (auto simp: start_def start_ok_def prepared_def upd_fds_def Let_def)

lemma add_handler_simps [simp]:
  "self (com (add_handler ctl fd ev h l)) = self (com l)" "fds (com (add_handler ctl fd ev h l)) = fds (com l)" "regs (com (add_handler ctl fd ev h l)) = regs (com l)"
  "mEventFlags (com (add_handler ctl fd ev h l)) = mEventFlags (com l)" "env (add_handler ctl fd ev h l) = env l"
  by (simp_all add: add_handler_def split: prod.split)

lemma start_establishes:
  assumes "mState el" and "epoll_open w" and "world_inv w" and "accepts ctl" and "start_ok res w"
    and "length socketName < 108"
  shows "\<exists>l. start ctl res socketName vmFd gsi (new_line i el w) = Inr (True, l) \<and>
    running l \<and> port_inv l \<and> rx_live l \<and> tx_live l \<and> listens l (r_socket res) EPOLLIN ServerEvent"
proof -
  define l0 where "l0 = prepared res socketName vmFd gsi (stop ctl (new_line i el w))"
  define l1 where "l1 = add_handler ctl (r_socket res) EPOLLIN ServerEvent l0"
  define l2 where "l2 = add_handler ctl (r_readTimer res) EPOLLIN ReadTimerEvent l1"
  define l3 where "l3 = add_handler ctl (r_writeTimer res) EPOLLIN WriteTimerEvent l2"
  have com0: "mEventLoop (com l0) = copy_loop el" "regs (com l0) = registers_init"
      "mEventFlags (com l0) = EPOLLIN OR EPOLLOUT OR EPOLLERR" "clients (fds (com l0)) = []"
      "readTimer (fds (com l0)) = r_readTimer res" "writeTimer (fds (com l0)) = r_writeTimer res" "server (fds (com l0)) = r_socket res"
    by (simp_all add: l0_def prepared_def stop_new_line) (simp_all add: new_line_def serial_init_def)
  have net0: "net l0 = close_fd (-1) (close_fd (-1) w)"
    by (simp add: l0_def prepared_def stop_new_line close_line_fd_def) (simp add: new_line_def)
  have inv0: "net_inv l0"
    using assms(3) by (simp add: net_inv_def net0 close_fd_inv com0 copy_loop_def loop_owns_def)
  have st0: "mState (mEventLoop (com l0))" "epoll_open (net l0)"
    using assms(1,2) by (simp_all add: com0 net0 copy_loop_def close_fd_def)
  have none0: "map_of (mHandlers (mEventLoop (com l0))) fd = None" for fd
    by (simp add: com0 copy_loop_def)
  have free0: "interest (net l0) fd = None" if "fd \<in> {r_socket res, r_readTimer res, r_writeTimer res}" for fd
    using assms(5) that by (auto simp: net0 close_fd_def start_ok_def)
  have d: "r_socket res \<noteq> r_readTimer res" "r_socket res \<noteq> r_writeTimer res" "r_readTimer res \<noteq> r_writeTimer res"
    using assms(5) by (auto simp: start_ok_def)
  note a1 = add_handler_listens [OF assms(4) st0 inv0 none0 free0, where ev = EPOLLIN and h = ServerEvent,
      of "r_socket res", folded l1_def, simplified]
  have inv1: "net_inv l1" unfolding l1_def using inv0 by (rule add_handler_net_inv)
  have a2pre: "map_of (mHandlers (mEventLoop (com l1))) (r_readTimer res) = None" "interest (net l1) (r_readTimer res) = None"
    using a1(5,6) none0 free0 d by simp_all
  note a2 = add_handler_listens [OF assms(4) a1(4,3) inv1 a2pre, where ev = EPOLLIN and h = ReadTimerEvent, folded l2_def]
  have inv2: "net_inv l2" unfolding l2_def using inv1 by (rule add_handler_net_inv)
  have a3pre: "map_of (mHandlers (mEventLoop (com l2))) (r_writeTimer res) = None" "interest (net l2) (r_writeTimer res) = None"
    using a1(5,6) a2(5,6) none0 free0 d by simp_all
  note a3 = add_handler_listens [OF assms(4) a2(4,3) inv2 a3pre, where ev = EPOLLIN and h = WriteTimerEvent, folded l3_def]
  have inv3: "net_inv l3" unfolding l3_def using inv2 by (rule add_handler_net_inv)
  have com3: "fds (com l3) = fds (com l0)" "regs (com l3) = regs (com l0)" "mEventFlags (com l3) = mEventFlags (com l0)"
    by (simp_all add: l3_def l2_def l1_def)
  have lis: "listens l3 (r_socket res) EPOLLIN ServerEvent" "listens l3 (r_readTimer res) EPOLLIN ReadTimerEvent"
      "listens l3 (r_writeTimer res) EPOLLIN WriteTimerEvent"
    using a1(1) a2(1,2) a3(1,2) d by blast+
  then have "running l3" using inv3 a3(3,4) d by (simp add: running_def com3 com0)
  moreover have "port_inv l3" by (simp add: port_inv_def com3 com0 registers_init_inv)
  moreover have "rx_live l3" "tx_live l3"
    by (simp_all add: rx_live_def tx_live_def com3 com0 flag_bits [symmetric] EPOLLIN_def EPOLLOUT_def EPOLLERR_def)
  moreover have "start ctl res socketName vmFd gsi (new_line i el w) = Inr (True, l3)"
    using start_unfold [OF assms(5,6)] by (simp add: l0_def l1_def l2_def l3_def)
  ultimately show ?thesis using lis(1) by blast
qed

theorem started_port_runs:
  assumes "mState el" and "epoll_open w" and "world_inv w" and "accepts ctl" and "start_ok res w"
    and "length socketName < 108"
  shows "\<exists>l. start ctl res socketName vmFd gsi (new_line i el w) = Inr (True, l) \<and>
    running l \<and> port_inv l \<and> rx_live l \<and> tx_live l \<and> listens l (r_socket res) EPOLLIN ServerEvent"
  using assms by (rule start_establishes)

section \<open>The theorems at concrete inputs\<close>

definition example_settime :: "nat \<Rightarrow> nat option \<Rightarrow> nat option" where
  "example_settime n t = (if n = 0 then None else if n \<le> 999999999 then Some n else t)"

lemma example_settime_spec: "timerfd_spec example_settime"
  by (simp add: timerfd_spec_def example_settime_def)

definition example_results :: start_results where
  "example_results = \<lparr>r_socket = 10, r_bind = True, r_listen = True, r_readTimer = 11, r_writeTimer = 12,
     r_irq = 13, r_refresh = 14, r_irqfd = True\<rparr>"

definition example_root :: event_loop where
  "example_root = \<lparr>mState = True, mHandlers = []\<rparr>"

definition com1_name :: string where
  "com1_name = ''/tmp/3100.com1.socket''"

lemma accepts_example: "accepts example_ctl"
  by (simp add: accepts_def example_ctl_def)

lemma start_ok_example: "start_ok example_results (world_init 3)"
  by (simp add: start_ok_def example_results_def world_init_def)

lemma world_init_inv: "world_inv (world_init fd)" "epoll_open (world_init fd)"
  by (simp_all add: world_inv_def world_init_def)

lemma example_started:
  "\<exists>l. start example_ctl example_results com1_name 5 4 (new_line 0 example_root (world_init 3)) = Inr (True, l) \<and>
    running l \<and> port_inv l \<and> rx_live l \<and> tx_live l \<and> listens l (r_socket example_results) EPOLLIN ServerEvent"
  by (rule start_establishes)
    (simp_all add: example_root_def world_init_inv accepts_example start_ok_example com1_name_def)

theorem started_port_runs_witness:
  "\<exists>l. start example_ctl example_results com1_name 5 4 (new_line 0 example_root (world_init 3)) = Inr (True, l) \<and> running l"
  using started_port_runs [of example_root "world_init 3" example_ctl example_results com1_name 5 4]
  by (auto simp: example_root_def world_init_inv accepts_example start_ok_example com1_name_def)

theorem no_condition_is_lost_witness:
  "\<exists>l0 l. start example_ctl example_results com1_name 5 4 (new_line 0 example_root (world_init 3)) = Inr (True, l0) \<and>
     line_step example_ctl example_settime l0 (Arrived 20 [65]) l \<and>
     (readable (regs (com l)) \<or> awaits l 0 \<or> (\<exists>n. timers (env l) (readTimer (fds (com l))) = Some n))"
proof -
  obtain l0 where l0: "start example_ctl example_results com1_name 5 4 (new_line 0 example_root (world_init 3)) = Inr (True, l0)"
      "running l0" "rx_live l0" "tx_live l0"
    using example_started by blast
  define l where "l = upd_env (\<lambda>h. h\<lparr>inbox := (inbox h)(20 := inbox h 20 @ [65])\<rparr>) l0"
  have step: "line_step example_ctl example_settime l0 (Arrived 20 [65]) l" unfolding l_def by (rule step_arrive)
  have "line_run example_ctl example_settime paced l0 l" using run_start step by (rule run_step) simp
  from no_condition_is_lost [OF this l0(2) accepts_example example_settime_spec l0(3,4)] l0(1) step
  show ?thesis by blast
qed

text \<open>A port with one client, 20, that is watched for input, and whose transmitter is ready.\<close>

definition idle_line :: line where
  "idle_line = upd_regs (\<lambda>r. r\<lparr>writable := True\<rparr>) (upd_flags (\<lambda>f. EPOLLIN OR EPOLLERR)
     (upd_fds (\<lambda>d. d\<lparr>readTimer := 11, writeTimer := 12\<rparr>) (new_line 0 example_root (world_init 3))))"

definition client_line :: line where
  "client_line = upd_fds (\<lambda>d. d\<lparr>clients := [20]\<rparr>)
     (add_handler example_ctl 20 (EPOLLIN OR EPOLLERR) (ClientEvent 20) idle_line)"

lemma client_line_facts:
  "listens client_line 20 (EPOLLIN OR EPOLLERR) (ClientEvent 20)" "tx_quiet client_line" "writable (regs (com client_line))"
  "divisor (regs (com client_line)) = 0" "data_access client_line 0x3F8" "clients (fds (com client_line)) = [20]"
  "readTimer (fds (com client_line)) = 11" "writeTimer (fds (com client_line)) = 12"
proof -
  have init: "regs (com (new_line i el w)) = registers_init" "net (new_line i el w) = w"
      "mEventLoop (com (new_line i el w)) = copy_loop el" for i el w
    by (simp_all add: new_line_def serial_init_def)
  have st: "mState (mEventLoop (com idle_line))" "epoll_open (net idle_line)" "net_inv idle_line"
      "map_of (mHandlers (mEventLoop (com idle_line))) 20 = None" "interest (net idle_line) 20 = None"
    by (simp_all add: idle_line_def init copy_loop_def example_root_def world_init_def net_inv_def world_inv_def loop_owns_def addrs_def)
  note added = add_handler_listens [OF accepts_example st, where ev = "EPOLLIN OR EPOLLERR" and h = "ClientEvent 20"]
  show lis: "listens client_line 20 (EPOLLIN OR EPOLLERR) (ClientEvent 20)"
    using added(1) by (simp add: client_line_def listens_def)
  have com: "regs (com client_line) = regs (com idle_line)" "fds (com client_line) = (fds (com idle_line))\<lparr>clients := [20]\<rparr>"
      "mEventFlags (com client_line) = EPOLLIN OR EPOLLERR"
    by (simp_all add: client_line_def add_handler_def idle_line_def split: prod.split)
  have "(9 :: u32) AND 2 ^ 2 = 0" by simp
  then have "\<not> bit (9 :: u32) 2" by (simp only: and_exp_eq_0_iff_not_bit not_False_eq_True)
  moreover have "EPOLLIN OR EPOLLERR = (9 :: u32)" by (simp add: EPOLLIN_def EPOLLERR_def)
  ultimately have bits: "\<not> bit (EPOLLIN OR EPOLLERR :: u32) 2" by (simp only: not_False_eq_True)
  show "tx_quiet client_line" using lis bits com(2,3) by (auto simp: tx_quiet_def listens_def)
  show "writable (regs (com client_line))" "divisor (regs (com client_line)) = 0" "data_access client_line 0x3F8"
    "clients (fds (com client_line)) = [20]" "readTimer (fds (com client_line)) = 11" "writeTimer (fds (com client_line)) = 12"
    by (simp_all add: com idle_line_def init registers_init_def data_access_def serial_register_of_def DLAB_def)
qed

text \<open>The guest sends a byte, and a byte arrives from the client: the receiver is ready then, the transmitter is not.\<close>

theorem zero_divisor_stops_the_transmitter_witness:
  "\<exists>l0 l1 b. serial_iowrite8 example_settime client_line 0x3F8 65 = Inr l0 \<and> timers (env l0) 12 = None \<and>
     l1 = handleClientEvent example_ctl 20 EPOLLIN l0 \<and> readable (regs (com l1)) \<and>
     serial_ioread8 example_settime l1 5 = Inr (l1, b) \<and> b AND 0x60 = 0"
proof -
  note c = client_line_facts
  obtain l0 where l0: "serial_iowrite8 example_settime client_line 0x3F8 65 = Inr l0" by (simp add: serial_iowrite8_def)
  note frame = iowrite8_frame [OF l0]
  have lis: "listens l0 20 (EPOLLIN OR EPOLLERR) (ClientEvent 20)" using c(1) frame by (simp add: listens_def)
  define l1 where "l1 = handleClientEvent example_ctl 20 EPOLLIN l0"
  have "line_step example_ctl example_settime l0 (ClientReady 20 EPOLLIN) l1"
    unfolding l1_def by (rule step_ready [OF _ lis]) (use c(6) frame in \<open>simp_all add: EPOLLIN_def EPOLLERR_def\<close>)
  with run_start have run: "line_run example_ctl example_settime waits l0 l1" by (rule run_step) simp
  have "timers (env l0) 12 = None \<and> (\<exists>b. serial_ioread8 example_settime l1 5 = Inr (l1, b) \<and> b AND 0x60 = 0)"
    using zero_divisor_stops_the_transmitter [OF example_settime_spec c(4,5,2) _ l0 run] c(7,8) by simp
  moreover have "readable (regs (com l1))"
    using handleClientEvent_effect [of example_ctl 20 EPOLLIN l0] by (simp add: l1_def EPOLLIN_def)
  ultimately show ?thesis using l0 l1_def by blast
qed

text \<open>A port with two clients, interrupts on and a byte waiting at the second client.\<close>

definition busy_line :: line where
  "busy_line = upd_env (\<lambda>h. h\<lparr>inbox := (inbox h)(21 := [7, 8])\<rparr>)
     (upd_fds (\<lambda>d. d\<lparr>clients := [20, 21], readTimer := 11, writeTimer := 12, vm := 5, irq := 13, refresh := 14\<rparr>)
       (upd_regs (\<lambda>r. r\<lparr>divisor := 12, interruptControl := 3, readInterruptEnabled := True,
          writeInterruptEnabled := True, writable := True\<rparr>) (new_line 0 example_root (world_init 3))))"

lemma busy_line_simps:
  "regs (com busy_line) = registers_init\<lparr>divisor := 12, interruptControl := 3, readInterruptEnabled := True,
     writeInterruptEnabled := True, writable := True\<rparr>"
  "clients (fds (com busy_line)) = [20, 21]" "inbox (env busy_line) = (\<lambda>_. [])(21 := [7, 8])"
  "sent (env busy_line) = []" "irqs (env busy_line) = 0" "vm (fds (com busy_line)) = 5" "irq (fds (com busy_line)) = 13"
  "refresh (fds (com busy_line)) = 14" "readTimer (fds (com busy_line)) = 11" "writeTimer (fds (com busy_line)) = 12"
  by (simp_all add: busy_line_def) (simp_all add: new_line_def serial_init_def)

lemma busy_line_inv: "port_inv busy_line"
  by (simp add: port_inv_def regs_inv_def busy_line_simps registers_init_def)

theorem transmit_reaches_every_client_witness:
  "\<exists>l'. serial_iowrite8 example_settime busy_line 0x3F8 65 = Inr l' \<and> sent (env l') = [(20, 65), (21, 65)]"
  using transmit_reaches_every_client [of "0x3F8" busy_line example_settime 65]
  by (auto simp: busy_line_simps serial_register_of_def DLAB_def registers_init_def)

theorem receive_takes_first_waiting_byte_witness:
  "\<exists>l' v. serial_ioread8 example_settime busy_line 0x3F8 = Inr (l', v) \<and> [7, 8] = v # inbox (env l') 21"
  using receive_takes_first_waiting_byte [of "0x3F8" busy_line example_settime]
  by (auto simp: busy_line_simps serial_register_of_def DLAB_def registers_init_def)

theorem interrupt_status_register_witness:
  "\<exists>l' v. serial_ioread8 example_settime busy_line 0x3FA = Inr (l', v) \<and> v AND 1 \<noteq> 0"
  using interrupt_status_register [where a = "0x3FA" and l = busy_line and settime = example_settime]
  by (auto simp: busy_line_simps serial_register_of_def interrupt_pending_def registers_init_def)

theorem event_raises_one_interrupt_per_new_condition_witness:
  "irqs (env (handleClientEvent example_ctl 20 EPOLLIN busy_line)) =
     (if interrupt_pending (regs (com (handleClientEvent example_ctl 20 EPOLLIN busy_line))) then 1 else 0)"
  using event_raises_one_interrupt_per_new_condition [of busy_line example_ctl 20 EPOLLIN]
  by (simp add: busy_line_simps interrupt_pending_def registers_init_def)

theorem enabling_raises_a_waiting_interrupt_witness:
  "\<exists>l'. serial_iowrite8 example_settime
       (upd_regs (\<lambda>r. r\<lparr>readInterruptEnabled := False, writeInterruptEnabled := False\<rparr>) busy_line) 0x3F9 2 = Inr l' \<and>
     irqs (env l') = (if interrupt_pending (regs (com l')) then 1 else 0)"
proof -
  let ?l = "upd_regs (\<lambda>r. r\<lparr>readInterruptEnabled := False, writeInterruptEnabled := False\<rparr>) busy_line"
  obtain l' where l': "serial_iowrite8 example_settime ?l 0x3F9 2 = Inr l'" by (simp add: serial_iowrite8_def)
  have "irqs (env l') = irqs (env ?l) + (if interrupt_pending (regs (com l')) then 1 else 0)"
    by (rule enabling_raises_a_waiting_interrupt [OF _ _ _ _ l'])
      (simp_all add: busy_line_simps serial_register_of_def DLAB_def registers_init_def)
  then show ?thesis using l' by (simp add: busy_line_simps)
qed

theorem rewriting_the_enables_loses_interrupts_witness:
  "\<exists>l1. serial_iowrite8 example_settime busy_line 0x3F9 3 = Inr l1 \<and>
     irqs (env l1) = 0 \<and> irqs (env (handleClientEvent example_ctl 20 EPOLLIN l1)) = 0 \<and>
     irqs (env (handleClientEvent example_ctl 20 EPOLLIN busy_line)) = 1"
proof -
  have "(EPOLLIN AND EPOLLIN :: u32) \<noteq> 0" "(EPOLLIN AND EPOLLOUT :: u32) = 0" by (simp_all add: EPOLLIN_def EPOLLOUT_def)
  from rewriting_the_enables_loses_interrupts [OF busy_line_inv _ _ _ _ _ this, of "0x3F9" example_settime example_ctl 20]
  show ?thesis
    by (auto simp: busy_line_simps serial_register_of_def DLAB_def registers_init_def interrupt_pending_def)
qed

theorem closed_client_repeats_the_last_byte_witness:
  "\<exists>l'. serial_ioread8 example_settime (handleClientEvent example_ctl 20 (EPOLLIN OR 0x10)
       (upd_env (\<lambda>h. h\<lparr>inbox := (\<lambda>_. [])\<rparr>) busy_line)) 0 = Inr (l', 0) \<and> 20 \<in> set (clients (fds (com l')))"
  using closed_client_repeats_the_last_byte [of "upd_env (\<lambda>h. h\<lparr>inbox := (\<lambda>_. [])\<rparr>) busy_line" 20 example_ctl example_settime]
  by (auto simp: busy_line_simps DLAB_def registers_init_def)

theorem second_stop_closes_again_witness:
  "closed (env (stop example_ctl (stop example_ctl busy_line))) = closed (env (stop example_ctl busy_line)) @ [13, 14, 11, 12]"
  using second_stop_closes_again [of busy_line example_ctl] by (simp add: busy_line_simps)

end
