(* ===== verification/Shared_Ports.thy ===== *)
theory Shared_Ports
  imports Serial_Events
begin

text \<open>
  Several serial ports on one event loop (src/main.cpp passes the same \<open>EventLoop\<close> to its four ports, and each
  keeps a copy that refers to the same epoll descriptor). What a method of one port does to the shared state is a
  step of that port: it touches its own handler nodes and fresh ones, and the registrations of descriptors it has
  handlers for. A port whose descriptors are different does not notice.
\<close>

section \<open>Steps of one port\<close>

definition watched :: "event_loop \<Rightarrow> fd set" where
  "watched el = fst ` set (mHandlers el)"

text \<open>What holds of every method of a port, and what holds of all but \<open>stop\<close> and the destructor.\<close>

definition own_change :: "line \<Rightarrow> line \<Rightarrow> bool" where
  "own_change l l' \<longleftrightarrow> local_step (mEventLoop (com l)) (net l) (mEventLoop (com l')) (net l') \<and>
     self (com l') = self (com l) \<and>
     (\<forall>a k j h. nodes (net l') a = Some (k, (j, h)) \<longrightarrow> nodes (net l) a = Some (k, (j, h)) \<or> j = self (com l))"

definition own_step :: "line \<Rightarrow> line \<Rightarrow> bool" where
  "own_step l l' \<longleftrightarrow> own_change l l' \<and> epoll_open (net l') = epoll_open (net l) \<and>
     watched (mEventLoop (com l)) \<subseteq> watched (mEventLoop (com l')) \<and>
     (\<forall>k. k \<notin> watched (mEventLoop (com l')) \<longrightarrow> interest (net l') k = interest (net l) k) \<and>
     nonblocking (net l) - {-1} \<subseteq> nonblocking (net l')"

lemma own_change_net_inv: "own_change l l' \<Longrightarrow> net_inv l'"
  by (simp add: own_change_def local_step_def net_inv_def)

lemma own_step_change: "own_step l l' \<Longrightarrow> own_change l l'"
  by (simp add: own_step_def)

lemmas own_step_net_inv = own_step_change [THEN own_change_net_inv]

lemma own_change_foreign:
  "own_change l l' \<Longrightarrow> nodes (net l') a = Some (k, (j, h)) \<Longrightarrow> j \<noteq> self (com l) \<Longrightarrow> nodes (net l) a = Some (k, (j, h))"
  unfolding own_change_def by blast

lemma own_change_trans:
  assumes "own_change l l1" and "own_change l1 l2" and "net_inv l"
  shows "own_change l l2"
proof -
  have "local_step (mEventLoop (com l)) (net l) (mEventLoop (com l2)) (net l2)"
    using assms by (auto simp: own_change_def net_inv_def intro: local_step_trans)
  moreover have "nodes (net l) a = Some (k, (j, h)) \<or> j = self (com l)" if "nodes (net l2) a = Some (k, (j, h))" for a k j h
    using assms(1,2) that unfolding own_change_def by metis
  ultimately show ?thesis using assms(1,2) by (simp add: own_change_def)
qed

lemma own_step_flags:
  assumes "net_inv l" and "net l' = (net l)\<lparr>nonblocking := N\<rparr>" and "nonblocking (net l) - {-1} \<subseteq> N"
    and "mEventLoop (com l') = mEventLoop (com l)" and "self (com l') = self (com l)"
  shows "own_step l l'"
  using assms by (simp add: own_step_def own_change_def local_step_def net_inv_def world_inv_def loop_owns_def)

lemma own_step_frame:
  assumes "net_inv l" and "net l' = net l" and "mEventLoop (com l') = mEventLoop (com l)" and "self (com l') = self (com l)"
  shows "own_step l l'"
  using assms by (simp add: own_step_def own_change_def local_step_refl net_inv_def)

lemma own_step_trans:
  assumes "own_step l l1" and "own_step l1 l2" and "net_inv l"
  shows "own_step l l2"
proof -
  have "own_change l l2" using assms by (blast intro: own_change_trans own_step_change)
  moreover have "interest (net l2) k = interest (net l) k" if "k \<notin> watched (mEventLoop (com l2))" for k
    using assms(1,2) that unfolding own_step_def by (metis subsetD)
  ultimately show ?thesis using assms(1,2) unfolding own_step_def by auto
qed

lemma unwatched: "k \<notin> watched el \<longleftrightarrow> map_of (mHandlers el) k = None"
  by (simp add: watched_def map_of_eq_None_iff)

lemma modify_client_own: "net_inv l \<Longrightarrow> own_step l (modify_client ctl fd l)"
proof -
  assume inv: "net_inv l"
  obtain r w where m: "modifyEvent ctl fd (mEventFlags (com l)) (mEventLoop (com l)) (net l) = (r, w)" by fastforce
  have w: "world_inv w \<and> nodes w = nodes (net l)"
    by (rule modifyEvent_inv [OF _ _ m]) (use inv in \<open>simp_all add: net_inv_def\<close>)
  have frame: "next_node w = next_node (net l) \<and> epoll_open w = epoll_open (net l)"
    using m by (auto simp: modifyEvent_def dest: epoll_ctl_frame split: option.splits if_splits)
  have flags: "nonblocking w = nonblocking (net l)" by (rule modifyEvent_nonblocking [OF m])
  have "interest w k = interest (net l) k" if "k \<notin> watched (mEventLoop (com l))" for k
    using m that modifyEvent_elsewhere [OF m, of k] by (cases "k = fd") (simp_all add: unwatched modifyEvent_def)
  then show ?thesis
    using inv w frame flags by (auto simp: own_step_def own_change_def local_step_def modify_client_def m net_inv_def loop_owns_def)
qed

lemma addEvent_nodes:
  assumes "addEvent ctl fd ev h el w = (ok, el', w')"
  shows "nodes w' a = Some x \<Longrightarrow> nodes w a = Some x \<or> x = (fd, h) \<and> (fd, a) \<in> set (mHandlers el')"
    and "k \<noteq> fd \<Longrightarrow> map_of (mHandlers el') k = map_of (mHandlers el) k"
    and "mState el \<Longrightarrow> fd \<in> watched el'"
    and "\<not> mState el \<Longrightarrow> el' = el \<and> w' = w"
proof -
  have keep: "map_of (filter (\<lambda>(k, _). k \<noteq> fd) xs) k = map_of xs k" if "k \<noteq> fd" for k and xs :: "(fd \<times> nat) list"
    using that by (induction xs) auto
  obtain el1 w1 where r1: "(if map_of (mHandlers el) fd \<noteq> None then removeEvent ctl fd el w else (el, w)) = (el1, w1)"
    by fastforce
  obtain b el2 w2 where r2: "insert_handler fd h el1 (snd (setNonBlocking ctl fd w1)) = (b, el2, w2)" by (metis prod_cases3)
  obtain r3 w3 where r3: "epoll_ctl ctl EPOLL_CTL_ADD fd (ev, NodePtr b) w2 = (r3, w3)" by fastforce
  have st: "el' = el2 \<and> w' = w3" if "mState el" using assms that r1 r2 r3 by (simp add: addEvent_def)
  have n1: "nodes w1 a = Some x \<Longrightarrow> nodes w a = Some x" for a x
    using r1 by (auto simp: removeEvent_def dest!: epoll_ctl_frame split: if_splits option.splits prod.splits)
  have m1: "k \<noteq> fd \<Longrightarrow> map_of (mHandlers el1) k = map_of (mHandlers el) k" for k
    using r1 by (auto simp: removeEvent_def keep split: if_splits option.splits prod.splits)
  have n2: "nodes w2 a = Some x \<Longrightarrow> nodes w1 a = Some x \<or> x = (fd, h) \<and> (fd, a) \<in> set (mHandlers el2)" for a x
    using r2 by (auto simp: insert_handler_def split: option.splits if_splits)
  have m2: "k \<noteq> fd \<Longrightarrow> map_of (mHandlers el2) k = map_of (mHandlers el1) k" for k
    using r2 by (auto simp: insert_handler_def split: option.splits)
  have fd2: "fd \<in> watched el2"
    using r2 by (auto simp: insert_handler_def watched_def dest: map_of_SomeD split: option.splits intro: rev_image_eqI)
  show no: "\<not> mState el \<Longrightarrow> el' = el \<and> w' = w" using assms by (simp add: addEvent_def)
  show "nodes w' a = Some x \<Longrightarrow> nodes w a = Some x \<or> x = (fd, h) \<and> (fd, a) \<in> set (mHandlers el')"
  proof (cases "mState el")
    case True
    assume "nodes w' a = Some x"
    then have "nodes w2 a = Some x" using st [OF True] epoll_ctl_frame [OF r3] by simp
    then show ?thesis using n1 n2 st [OF True] by blast
  qed (use no in simp)
  show "k \<noteq> fd \<Longrightarrow> map_of (mHandlers el') k = map_of (mHandlers el) k"
    using st no m1 m2 by (cases "mState el") auto
  show "mState el \<Longrightarrow> fd \<in> watched el'" using st fd2 by simp
qed

lemma add_handler_own: "net_inv l \<Longrightarrow> own_step l (add_handler ctl fd ev h l)"
proof -
  assume inv: "net_inv l"
  obtain ok el w where add: "addEvent ctl fd ev (self (com l), h) (mEventLoop (com l)) (net l) = (ok, el, w)" by (metis prod_cases3)
  have loc: "local_step (mEventLoop (com l)) (net l) el w"
    by (rule addEvent_local [OF _ _ add]) (use inv in \<open>simp_all add: net_inv_def\<close>)
  note nodes = addEvent_nodes [OF add]
  have sub: "watched (mEventLoop (com l)) \<subseteq> watched el"
  proof
    fix k assume k: "k \<in> watched (mEventLoop (com l))"
    show "k \<in> watched el"
    proof (cases "mState (mEventLoop (com l))")
      case True
      then show ?thesis using k nodes(2) [of k] nodes(3) unwatched [of k] by (cases "k = fd") metis+
    qed (use k nodes(4) in simp)
  qed
  have same: "interest w k = interest (net l) k" if "k \<notin> watched el" for k
  proof (cases "mState (mEventLoop (com l))")
    case True
    then have "k \<noteq> fd" using nodes(3) that by blast
    then show ?thesis by (rule addEvent_elsewhere [OF add])
  qed (use nodes(4) in simp)
  have "epoll_open w = epoll_open (net l)" using addEvent_keys [OF add] by simp
  moreover have "nodes w a = Some (k, (j, g)) \<Longrightarrow> nodes (net l) a = Some (k, (j, g)) \<or> j = self (com l)" for a k j g
    by (auto dest: nodes(1))
  ultimately show ?thesis
    using loc sub same addEvent_nonblocking [OF add] by (auto simp: own_step_def own_change_def add_handler_def add)
qed

lemma reload_own: "net_inv l \<Longrightarrow> own_step l (reloadEventLoop ctl l)"
proof -
  have "net_inv l \<Longrightarrow> own_step l (fold (modify_client ctl) cs l)" for cs
  proof (induction cs arbitrary: l)
    case (Cons c cs)
    then show ?case
      using own_step_trans [OF modify_client_own [OF Cons.prems, of ctl c] Cons.IH Cons.prems]
        modify_client_net_inv [OF Cons.prems] by simp
  qed (simp add: own_step_frame)
  then show "net_inv l \<Longrightarrow> own_step l (reloadEventLoop ctl l)" by (simp add: reloadEventLoop_def)
qed

lemma handlers_own:
  assumes "net_inv l"
  shows "own_step l (handleClientEvent ctl fd e l)" and "own_step l (read_timer_handler ctl e l)"
    and "own_step l (write_timer_handler ctl e l)" and "own_step l (server_handler ctl e l)"
proof -
  define l1 where "l1 = (if e AND EPOLLIN \<noteq> 0 then read_condition l else l)"
  define l2 where "l2 = (if e AND EPOLLOUT \<noteq> 0 then write_condition l1 else l1)"
  have s: "own_step l l2" using assms by (rule own_step_frame) (simp_all add: l2_def l1_def conditions_net)
  have "handleClientEvent ctl fd e l = modify_client ctl fd l2" by (simp only: handleClientEvent_def Let_def l1_def l2_def)
  then show "own_step l (handleClientEvent ctl fd e l)"
    using own_step_trans [OF s modify_client_own assms] own_step_net_inv [OF s] by simp
  have t: "own_step l (reloadEventLoop ctl (upd_flags f (take_timer n l)))" for f n
  proof -
    have u: "own_step l (upd_flags f (take_timer n l))" using assms by (rule own_step_frame) simp_all
    show ?thesis using own_step_trans [OF u reload_own assms] own_step_net_inv [OF u] by simp
  qed
  then show "own_step l (read_timer_handler ctl e l)" "own_step l (write_timer_handler ctl e l)"
    using own_step_frame [OF assms, of l] by (simp_all add: read_timer_handler_def write_timer_handler_def)
  obtain fd h where acc: "accept_fd (env l) = (fd, h)" by fastforce
  let ?l1 = "l\<lparr>env := h\<rparr>" and ?l2 = "add_handler ctl fd (mEventFlags (com l)) (ClientEvent fd) (l\<lparr>env := h\<rparr>)"
  have a: "own_step l ?l1" using assms by (rule own_step_frame) simp_all
  have b: "own_step l ?l2" using own_step_trans [OF a add_handler_own assms] own_step_net_inv [OF a] by simp
  have "own_step ?l2 (upd_fds g ?l2)" for g by (rule own_step_frame [OF own_step_net_inv [OF b]]) simp_all
  then have "own_step l (upd_fds g ?l2)" for g using own_step_trans [OF b _ assms] by blast
  then show "own_step l (server_handler ctl e l)"
    using a own_step_frame [OF assms, of l] by (simp add: server_handler_def acc Let_def)
qed

section \<open>Whose handler a node holds\<close>

text \<open>The handlers a port registers, and for which of its descriptors.\<close>

fun handler_of :: "fd \<Rightarrow> descriptors \<Rightarrow> serial_handler \<Rightarrow> bool" where
  "handler_of k d ServerEvent \<longleftrightarrow> k = server d"
| "handler_of k d ReadTimerEvent \<longleftrightarrow> k = readTimer d"
| "handler_of k d WriteTimerEvent \<longleftrightarrow> k = writeTimer d"
| "handler_of k d (ClientEvent fd) \<longleftrightarrow> fd = k \<and> k \<in> set (clients d)"

definition tagged :: "descriptors \<Rightarrow> line \<Rightarrow> bool" where
  "tagged d l \<longleftrightarrow> (\<forall>a k h. nodes (net l) a = Some (k, (self (com l), h)) \<longrightarrow>
     (k, a) \<in> set (mHandlers (mEventLoop (com l))) \<and> handler_of k d h)"

lemma tagged_cong:
  "net l' = net l \<Longrightarrow> mEventLoop (com l') = mEventLoop (com l) \<Longrightarrow> self (com l') = self (com l) \<Longrightarrow> tagged d l' = tagged d l"
  by (simp add: tagged_def)

lemma handler_of_mono: "handler_of k d h \<Longrightarrow> handler_of k (d\<lparr>clients := set_insert fd (clients d)\<rparr>) h"
  by (cases h) (auto simp: set_insert_def set_insort_key)

lemma tagged_mono: "tagged d l \<Longrightarrow> tagged (d\<lparr>clients := set_insert fd (clients d)\<rparr>) l"
  using handler_of_mono by (simp add: tagged_def)

lemma modify_client_nodes [simp]: "nodes (net (modify_client ctl fd l)) = nodes (net l)"
proof -
  obtain r w where m: "modifyEvent ctl fd (mEventFlags (com l)) (mEventLoop (com l)) (net l) = (r, w)" by fastforce
  then have "nodes w = nodes (net l)"
    by (auto simp: modifyEvent_def dest: epoll_ctl_frame split: option.splits if_splits)
  then show ?thesis by (simp add: modify_client_def m)
qed

lemma reload_nodes [simp]: "nodes (net (reloadEventLoop ctl l)) = nodes (net l)"
proof -
  have "nodes (net (fold (modify_client ctl) cs l)) = nodes (net l)" for cs by (induction cs arbitrary: l) simp_all
  then show ?thesis by (simp add: reloadEventLoop_def)
qed

lemma addEvent_keeps_nodes:
  assumes own: "loop_owns el w" and add: "addEvent ctl fd ev h el w = (ok, el', w')"
    and b: "(k, b) \<in> set (mHandlers el)" and n: "nodes w' b = Some (k, g)"
  shows "(k, b) \<in> set (mHandlers el')"
proof -
  have k: "map_of (mHandlers el) k = Some b" using own b by (simp add: loop_owns_def)
  show ?thesis
  proof (cases "k = fd")
    case False
    then have "map_of (mHandlers el') k = Some b" using addEvent_nodes(2) [OF add] k by simp
    then show ?thesis by (rule map_of_SomeD)
  next
    case True
    show ?thesis
    proof (cases "mState el")
      case st: True
      obtain el1 w1 where r1: "removeEvent ctl fd el w = (el1, w1)" by fastforce
      obtain c el2 w2 where r2: "insert_handler fd h el1 (snd (setNonBlocking ctl fd w1)) = (c, el2, w2)" by (metis prod_cases3)
      obtain r3 w3 where r3: "epoll_ctl ctl EPOLL_CTL_ADD fd (ev, NodePtr c) w2 = (r3, w3)" by fastforce
      have e: "el' = el2" "w' = w3" using add st k True r1 r2 r3 by (simp_all add: addEvent_def)
      obtain d w0 where d: "epoll_ctl ctl EPOLL_CTL_DEL fd (0, NodePtr b) w = (d, w0)" by fastforce
      show ?thesis
      proof (cases d)
        case False
        then have "el1 = el" using r1 k True st d by (simp add: removeEvent_def)
        then have "el2 = el" using r2 k True by (simp add: insert_handler_def)
        then show ?thesis using b e by simp
      next
        case d: True
        then have "nodes w1 b = None" "map_of (mHandlers el1) fd = None"
          using r1 k True st \<open>epoll_ctl ctl EPOLL_CTL_DEL fd (0, NodePtr b) w = (d, w0)\<close>
          by (auto simp: removeEvent_def map_of_eq_None_iff)
        then show ?thesis
          using r2 n e epoll_ctl_frame [OF r3] True by (auto simp: insert_handler_def split: if_splits)
      qed
    qed (use addEvent_nodes(4) [OF add] b in simp)
  qed
qed

lemma add_handler_tagged:
  assumes "net_inv l" and "tagged d l" and "handler_of fd d h"
  shows "tagged d (add_handler ctl fd ev h l)"
proof -
  obtain ok el w where add: "addEvent ctl fd ev (self (com l), h) (mEventLoop (com l)) (net l) = (ok, el, w)" by (metis prod_cases3)
  have own: "loop_owns (mEventLoop (com l)) (net l)" using assms(1) by (simp add: net_inv_def)
  have "(k, a) \<in> set (mHandlers el) \<and> handler_of k d g" if n: "nodes w a = Some (k, (self (com l), g))" for a k g
    using addEvent_nodes(1) [OF add n] assms(2,3) addEvent_keeps_nodes [OF own add _ n] by (auto simp: tagged_def)
  then show ?thesis by (simp add: tagged_def add_handler_def add)
qed

lemma handlers_tagged:
  assumes "net_inv l" and "tagged (fds (com l)) l"
  shows "tagged (fds (com (handleClientEvent ctl fd e l))) (handleClientEvent ctl fd e l)"
    and "tagged (fds (com (read_timer_handler ctl e l))) (read_timer_handler ctl e l)"
    and "tagged (fds (com (write_timer_handler ctl e l))) (write_timer_handler ctl e l)"
    and "tagged (fds (com (server_handler ctl e l))) (server_handler ctl e l)"
proof -
  show "tagged (fds (com (handleClientEvent ctl fd e l))) (handleClientEvent ctl fd e l)"
    using assms(2) by (simp add: tagged_def handleClientEvent_def Let_def conditions_net)
  show "tagged (fds (com (read_timer_handler ctl e l))) (read_timer_handler ctl e l)"
    "tagged (fds (com (write_timer_handler ctl e l))) (write_timer_handler ctl e l)"
    using assms(2) by (simp_all add: tagged_def read_timer_handler_def write_timer_handler_def)
  obtain fd h where acc: "accept_fd (env l) = (fd, h)" by fastforce
  let ?d = "(fds (com l))\<lparr>clients := set_insert fd (clients (fds (com l)))\<rparr>"
  have l1: "net_inv (l\<lparr>env := h\<rparr>)" "tagged (fds (com l)) (l\<lparr>env := h\<rparr>)"
    using assms by (simp_all add: net_inv_def tagged_def)
  have "handler_of fd ?d (ClientEvent fd)" by (simp add: set_insert_def set_insort_key)
  then have "tagged ?d (add_handler ctl fd (mEventFlags (com l)) (ClientEvent fd) (l\<lparr>env := h\<rparr>))"
    using add_handler_tagged [OF l1(1) tagged_mono [OF l1(2)]] by blast
  then show "tagged (fds (com (server_handler ctl e l))) (server_handler ctl e l)"
    using assms(2) l1(2) by (auto simp: server_handler_def acc Let_def tagged_def)
qed

section \<open>The ports of a program\<close>

definition attach :: "port \<Rightarrow> port_world \<Rightarrow> line" where
  "attach p w = \<lparr>com = com p, env = env p, net = w\<rparr>"

definition detach :: "line \<Rightarrow> port" where
  "detach l = \<lparr>com = com l, env = env l\<rparr>"

lemma attach_simps [simp]:
  "com (attach p w) = com p" "env (attach p w) = env p" "net (attach p w) = w"
  "com (detach l) = com l" "env (detach l) = env l" "attach (detach l) (net l) = l" "detach (attach p w) = p"
  by (simp_all add: attach_def detach_def)

abbreviation loops :: "port list \<Rightarrow> event_loop list" where
  "loops ps \<equiv> map (\<lambda>p. mEventLoop (com p)) ps"

text \<open>
  The invariant of the ports on one world: no pointer dangles, every port owns its nodes, and a node holds a handler of
  the port that it is tagged with.
\<close>

definition ports_inv :: "port list \<Rightarrow> port_world \<Rightarrow> bool" where
  "ports_inv ps w \<longleftrightarrow> loops_inv (loops ps) w \<and>
     (\<forall>i < length ps. self (com (ps ! i)) = i \<and> tagged (fds (com (ps ! i))) (attach (ps ! i) w)) \<and>
     (\<forall>a k j h. nodes w a = Some (k, (j, h)) \<longrightarrow> j < length ps)"

lemma ports_inv_net_inv:
  assumes "ports_inv ps w" and "i < length ps"
  shows "net_inv (attach (ps ! i) w)"
proof -
  have "mEventLoop (com (ps ! i)) \<in> set (loops ps)" using assms(2) by simp
  then show ?thesis using assms(1) by (simp add: ports_inv_def loops_inv_def net_inv_def del: set_map)
qed

lemma ports_inv_step:
  assumes inv: "ports_inv ps w" and i: "i < length ps"
    and step: "own_change (attach (ps ! i) w) l'" and tag: "tagged (fds (com l')) l'"
  shows "ports_inv (ps[i := detach l']) (net l')"
proof -
  have loc: "local_step (loops ps ! i) w (mEventLoop (com l')) (net l')" using step i by (simp add: own_change_def)
  have "loops_inv ((loops ps)[i := mEventLoop (com l')]) (net l')"
    by (rule local_step_loops_inv [OF _ _ loc]) (use inv i in \<open>simp_all add: ports_inv_def\<close>)
  then have loops: "loops_inv (loops (ps[i := detach l'])) (net l')" by (simp add: map_update)
  have self: "self (com l') = i" using step inv i by (simp add: own_change_def ports_inv_def)
  have old: "nodes w a = Some (k, (j, h))" if "nodes (net l') a = Some (k, (j, h))" "j \<noteq> i" for a k j h
    using own_change_foreign [OF step that(1)] inv i that(2) by (simp add: ports_inv_def)
  have "tagged (fds (com (ps ! j))) (attach (ps ! j) (net l'))" if j: "j < length ps" "j \<noteq> i" for j
    unfolding tagged_def
  proof (intro allI impI)
    fix a k h assume n: "nodes (net (attach (ps ! j) (net l'))) a = Some (k, self (com (attach (ps ! j) (net l'))), h)"
    have sj: "self (com (ps ! j)) = j" and t: "tagged (fds (com (ps ! j))) (attach (ps ! j) w)"
      using inv j(1) by (simp_all add: ports_inv_def)
    have "nodes w a = Some (k, (j, h))" using n sj j(2) by (intro old) simp_all
    then show "(k, a) \<in> set (mHandlers (mEventLoop (com (attach (ps ! j) (net l'))))) \<and> handler_of k (fds (com (ps ! j))) h"
      using t sj by (simp add: tagged_def)
  qed
  then have "self (com (ps[i := detach l'] ! j)) = j \<and>
      tagged (fds (com (ps[i := detach l'] ! j))) (attach (ps[i := detach l'] ! j) (net l'))" if "j < length ps" for j
    using that self tag inv by (cases "j = i") (simp_all add: ports_inv_def)
  moreover have "j < length ps" if "nodes (net l') a = Some (k, (j, h))" for a k j h
  proof (cases "j = i")
    case False
    then have "nodes w a = Some (k, (j, h))" by (rule old [OF that])
    then show ?thesis using inv unfolding ports_inv_def by blast
  qed (use i in simp)
  ultimately show ?thesis using loops by (simp add: ports_inv_def)
qed

text \<open>Ports with different descriptors: what one does to the shared world leaves the others running.\<close>

definition apart :: "port list \<Rightarrow> bool" where
  "apart ps \<longleftrightarrow> (\<forall>i < length ps. \<forall>j < length ps. i \<noteq> j \<longrightarrow>
     watched (mEventLoop (com (ps ! i))) \<inter> watched (mEventLoop (com (ps ! j))) = {})"

lemma listens_watched: "listens l k ev h \<Longrightarrow> k \<in> watched (mEventLoop (com l))"
  by (auto simp: listens_def watched_def dest: map_of_SomeD intro: rev_image_eqI)

lemma running_elsewhere:
  assumes inv: "ports_inv ps w" and i: "i < length ps" and j: "j < length ps" "j \<noteq> i"
    and step: "own_step (attach (ps ! i) w) l'" and disj: "watched (mEventLoop (com l')) \<inter> watched (mEventLoop (com (ps ! j))) = {}"
    and run: "running (attach (ps ! j) w)"
  shows "running (attach (ps ! j) (net l'))"
proof -
  let ?el = "mEventLoop (com (ps ! j))"
  have w: "world_inv w" and own: "loop_owns ?el w"
    using ports_inv_net_inv [OF inv j(1)] by (simp_all add: net_inv_def)
  have "loops_inv (loops ps) w" using inv by (simp add: ports_inv_def)
  then have addrs: "addrs (loops ps ! i) \<inter> addrs (loops ps ! j) = {}" using i j by (simp add: loops_inv_def)
  have nodes: "nodes (net l') a = nodes w a" if "a \<in> addrs ?el" for a
    using that addrs owns_addr_less [OF w own that] step i j by (auto simp: own_step_def own_change_def local_step_def)
  have int: "interest (net l') k = interest w k" if "k \<in> watched ?el" for k
  proof -
    have "k \<notin> watched (mEventLoop (com l'))" using that disj by blast
    then show ?thesis using step by (simp add: own_step_def)
  qed
  have lis: "listens (attach (ps ! j) (net l')) k ev h" if l: "listens (attach (ps ! j) w) k ev h" for k ev h
  proof -
    obtain a where a: "map_of (mHandlers ?el) k = Some a" "interest w k = Some (ev, NodePtr a)"
      "nodes w a = Some (k, (self (com (ps ! j)), h))" using l by (auto simp: listens_def)
    then have "a \<in> addrs ?el" by (auto simp: addrs_def dest: map_of_SomeD intro: rev_image_eqI)
    then show ?thesis using a nodes int listens_watched [OF l] by (simp add: listens_def)
  qed
  have net: "net_inv (attach (ps ! j) (net l'))"
    using step owns_frame [OF w own nodes] by (simp add: net_inv_def own_step_def own_change_def local_step_def)
  have same: "epoll_open (net l') = epoll_open w" "nonblocking w - {-1} \<subseteq> nonblocking (net l')"
    using step by (simp_all add: own_step_def)
  have cl: "\<exists>ev. listens (attach (ps ! j) (net l')) fd ev (ClientEvent fd) \<and> flags_in (mEventFlags (com (ps ! j))) ev"
    if "fd \<in> set (clients (fds (com (ps ! j))))" for fd
  proof -
    have "\<exists>ev. listens (attach (ps ! j) w) fd ev (ClientEvent fd) \<and> flags_in (mEventFlags (com (ps ! j))) ev"
      using run that by (simp add: running_def)
    then show ?thesis using lis by blast
  qed
  have "set (clients (fds (com (ps ! j)))) \<subseteq> nonblocking (net l') - {-1}"
    using run same(2) by (auto simp: running_def)
  then show ?thesis using run net cl lis same(1) by (simp add: running_def)
qed

section \<open>Every step of a port is its own\<close>

lemma same_loop_own:
  assumes "net_inv l" and "tagged (fds (com l)) l"
    and "net l' = net l" and "mEventLoop (com l') = mEventLoop (com l)" and "self (com l') = self (com l)" and "fds (com l') = fds (com l)"
  shows "own_step l l' \<and> tagged (fds (com l')) l'"
  using own_step_frame [OF assms(1,3-5)] tagged_cong [OF assms(3-5)] assms(2,6) by simp

lemma line_step_own:
  assumes "line_step ctl settime l lab l'" and "net_inv l" and "tagged (fds (com l)) l"
  shows "own_step l l' \<and> tagged (fds (com l')) l'"
  using assms(1)
proof cases
  case (step_write a v)
  then show ?thesis using iowrite8_frame [of settime l a v l'] same_loop_own [OF assms(2,3), of l'] by simp
next
  case (step_read a v)
  then show ?thesis using ioread8_frame [of settime l a l' v] same_loop_own [OF assms(2,3), of l'] by simp
next
  case (step_ready fd ev e)
  then show ?thesis using handlers_own [OF assms(2)] handlers_tagged [OF assms(2,3)] by simp
next
  case (step_read_timeout n)
  then show ?thesis using handlers_own [OF assms(2)] handlers_tagged [OF assms(2,3)] by simp
next
  case (step_write_timeout n)
  then show ?thesis using handlers_own [OF assms(2)] handlers_tagged [OF assms(2,3)] by simp
next
  case (step_connect fd rest)
  then show ?thesis using handlers_own [OF assms(2)] handlers_tagged [OF assms(2,3)] by simp
next
  case (step_dial fd)
  then show ?thesis using same_loop_own [OF assms(2,3), of l'] by simp
next
  case (step_arrive fd bs)
  then show ?thesis using same_loop_own [OF assms(2,3), of l'] by simp
qed

text \<open>Only a new client adds a descriptor.\<close>

lemma add_handler_watched: "watched (mEventLoop (com (add_handler ctl fd ev h l))) \<subseteq> insert fd (watched (mEventLoop (com l)))"
proof -
  obtain ok el w where add: "addEvent ctl fd ev (self (com l), h) (mEventLoop (com l)) (net l) = (ok, el, w)" by (metis prod_cases3)
  then show ?thesis using addEvent_keys(1) [OF add] by (simp add: add_handler_def watched_def)
qed

lemma line_step_watched:
  assumes "line_step ctl settime l lab l'"
  shows "watched (mEventLoop (com l')) \<subseteq> watched (mEventLoop (com l)) \<union> (if lab = Connected then {hd (backlog (env l))} else {})"
proof -
  have reload: "mEventLoop (com (reloadEventLoop ctl l)) = mEventLoop (com l)" for l by simp
  have timer: "mEventLoop (com (read_timer_handler ctl e l)) = mEventLoop (com l)"
    "mEventLoop (com (write_timer_handler ctl e l)) = mEventLoop (com l)" for e l
    by (simp_all add: read_timer_handler_def write_timer_handler_def)
  have client: "mEventLoop (com (handleClientEvent ctl fd e l)) = mEventLoop (com l)" for fd e
    by (simp add: handleClientEvent_def Let_def conditions_net)
  show ?thesis
    using assms
  proof cases
    case (step_connect fd rest)
    then have "accept_fd (env l) = (fd, (env l)\<lparr>backlog := rest\<rparr>)" by (simp add: accept_fd_def)
    then show ?thesis
      using step_connect add_handler_watched [of ctl fd "mEventFlags (com l)" "ClientEvent fd" "l\<lparr>env := (env l)\<lparr>backlog := rest\<rparr>\<rparr>"]
      by (auto simp: server_handler_def Let_def)
  qed (auto simp: timer client dest!: iowrite8_frame ioread8_frame)
qed

section \<open>Starting one port after another\<close>

text \<open>What a successful \<open>start\<close> needs of the results of its system calls, and what it does.\<close>

lemma start_Inr_True:
  assumes "start ctl res socketName vmFd gsi l = Inr (True, l')"
  shows "l' = add_handler ctl (r_writeTimer res) EPOLLIN WriteTimerEvent
      (add_handler ctl (r_readTimer res) EPOLLIN ReadTimerEvent
        (add_handler ctl (r_socket res) EPOLLIN ServerEvent (prepared res socketName vmFd gsi (stop ctl l)))) \<and>
    -1 \<notin> {r_socket res, r_readTimer res, r_writeTimer res}"
  using assms by (auto simp: start_def prepared_def upd_fds_def Let_def split: if_splits)

lemma started:
  assumes "start ctl res socketName vmFd gsi (new_line i el w) = Inr (True, l)" and "world_inv w" and "interest w (-1) = None"
    and "\<And>a k h. nodes w a \<noteq> Some (k, (i, h))"
  shows "own_step (new_line i el w) l" and "tagged (fds (com l)) l" and "port_inv l" and "self (com l) = i"
    and "interest (net l) (-1) = None" and "watched (mEventLoop (com l)) \<subseteq> {r_socket res, r_readTimer res, r_writeTimer res}"
proof -
  define l0 where "l0 = prepared res socketName vmFd gsi (stop ctl (new_line i el w))"
  define l1 where "l1 = add_handler ctl (r_socket res) EPOLLIN ServerEvent l0"
  define l2 where "l2 = add_handler ctl (r_readTimer res) EPOLLIN ReadTimerEvent l1"
  have l: "l = add_handler ctl (r_writeTimer res) EPOLLIN WriteTimerEvent l2"
    and fresh: "-1 \<notin> {r_socket res, r_readTimer res, r_writeTimer res}"
    using start_Inr_True [OF assms(1)] by (simp_all add: l0_def l1_def l2_def)
  have com0: "mEventLoop (com l0) = copy_loop el" "regs (com l0) = registers_init" "self (com l0) = i"
    "server (fds (com l0)) = r_socket res" "readTimer (fds (com l0)) = r_readTimer res" "writeTimer (fds (com l0)) = r_writeTimer res"
    by (simp_all add: l0_def prepared_def stop_new_line) (simp_all add: new_line_def serial_init_def)
  have "net l0 = close_fd (-1) (close_fd (-1) w)"
    by (simp add: l0_def prepared_def stop_new_line close_line_fd_def) (simp add: new_line_def)
  then have net0: "net l0 = w\<lparr>nonblocking := nonblocking w - {-1}\<rparr>" using assms(3) by (simp add: close_fd_def fun_upd_idem)
  have new: "com (new_line i el w) = serial_init i el" "net (new_line i el w) = w" by (simp_all add: new_line_def)
  have inv: "net_inv (new_line i el w)"
    using assms(2) by (simp add: net_inv_def new serial_init_def copy_loop_def loop_owns_def)
  have s0: "own_step (new_line i el w) l0"
    by (rule own_step_flags [OF inv, of _ "nonblocking w - {-1}"]) (simp_all add: net0 com0 new serial_init_def)
  then have i0: "net_inv l0" by (rule own_step_net_inv)
  then have i1: "net_inv l1" unfolding l1_def by (rule add_handler_net_inv)
  then have i2: "net_inv l2" unfolding l2_def by (rule add_handler_net_inv)
  have "own_step (new_line i el w) l1" unfolding l1_def by (rule own_step_trans [OF s0 add_handler_own [OF i0] inv])
  then have "own_step (new_line i el w) l2" unfolding l2_def by (rule own_step_trans [OF _ add_handler_own [OF i1] inv])
  then show own: "own_step (new_line i el w) l" unfolding l by (rule own_step_trans [OF _ add_handler_own [OF i2] inv])
  let ?d = "fds (com l0)"
  have "tagged ?d l0" using assms(4) by (simp add: tagged_def net0 com0)
  then have "tagged ?d l1" unfolding l1_def by (rule add_handler_tagged [OF i0]) (simp add: com0)
  then have "tagged ?d l2" unfolding l2_def by (rule add_handler_tagged [OF i1]) (simp add: com0)
  then have "tagged ?d l" unfolding l by (rule add_handler_tagged [OF i2]) (simp add: com0)
  then show "tagged (fds (com l)) l" by (simp add: l l2_def l1_def)
  show "port_inv l" by (simp add: port_inv_def l l2_def l1_def com0 registers_init_inv)
  show "self (com l) = i" by (simp add: l l2_def l1_def com0)
  have "watched (mEventLoop (com l0)) = {}" by (simp add: watched_def com0 copy_loop_def)
  then show wat: "watched (mEventLoop (com l)) \<subseteq> {r_socket res, r_readTimer res, r_writeTimer res}"
    using add_handler_watched [of ctl "r_socket res" EPOLLIN ServerEvent l0, folded l1_def]
      add_handler_watched [of ctl "r_readTimer res" EPOLLIN ReadTimerEvent l1, folded l2_def]
      add_handler_watched [of ctl "r_writeTimer res" EPOLLIN WriteTimerEvent l2, folded l] by blast
  then have "-1 \<notin> watched (mEventLoop (com l))" using fresh by blast
  then show "interest (net l) (-1) = None" using own assms(3) by (simp add: own_step_def new)
qed

text \<open>A new port joins the others.\<close>

lemma new_line_attach: "new_line i el w = attach (detach (new_line i el w)) w"
  by (simp add: attach_def detach_def new_line_def)

lemma ports_inv_new:
  assumes inv: "ports_inv ps w"
  shows "ports_inv (ps @ [detach (new_line (length ps) el w)]) w"
proof -
  have none: "nodes w a \<noteq> Some (k, (length ps, h))" for a k h using inv unfolding ports_inv_def by blast
  have com: "com (new_line (length ps) el w) = serial_init (length ps) el" by (simp add: new_line_def)
  have "loops_inv (loops ps @ [copy_loop el]) w"
    by (rule loops_inv_reassign [where g = id and ls = "loops ps"])
      (use inv in \<open>auto simp: ports_inv_def nth_append copy_loop_def split: if_splits\<close>)
  then show ?thesis
    using inv none by (auto simp: ports_inv_def nth_append com serial_init_def tagged_def less_Suc_eq)
qed

lemma ports_inv_started:
  assumes inv: "ports_inv ps w" and "interest w (-1) = None"
    and st: "start ctl res socketName vmFd gsi (new_line (length ps) el w) = Inr (True, l)"
  shows "ports_inv (ps @ [detach l]) (net l) \<and> interest (net l) (-1) = None \<and> port_inv l \<and>
    own_step (attach ((ps @ [detach (new_line (length ps) el w)]) ! length ps) w) l"
proof -
  let ?n = "detach (new_line (length ps) el w)"
  have w: "world_inv w" using inv by (simp add: ports_inv_def loops_inv_def)
  have none: "nodes w a \<noteq> Some (k, (length ps, h))" for a k h using inv unfolding ports_inv_def by blast
  note s = started [OF st w assms(2) none]
  have own: "own_step (attach ((ps @ [?n]) ! length ps) w) l" using s(1) by (simp add: new_line_attach [symmetric])
  have "(ps @ [?n])[length ps := detach l] = ps @ [detach l]" by simp
  then show ?thesis using ports_inv_step [OF ports_inv_new [OF inv] _ own_step_change [OF own] s(2)] s(3,5) own by simp
qed

end
