(* ===== verification/Build_Config.thy ===== *)
theory Build_Config
  imports Prelude
begin

text \<open>
  The switches the program is built with: \<open>NDEBUG\<close>, the options \<open>VIRTUAL_DISK\<close> and \<open>DISASSEMBLE\<close> of
  CMakeLists.txt, which are off by default, and the macro \<open>HIGH_MEMORY_SIZE\<close> of src/main.cpp, zero as the
  sources have it. The definitions that translate code between \<open>#if\<close> and \<open>#endif\<close> take the build as an argument,
  and the theorems about them hold for every build.
\<close>

record build =
  NDEBUG :: bool
  VIRTUAL_DISK :: bool
  DISASSEMBLE :: bool
  HIGH_MEMORY_SIZE :: nat

definition LOW_MEMORY_SIZE :: nat where "LOW_MEMORY_SIZE = 0x70000"
definition PAGE_SIZE :: nat where "PAGE_SIZE = 4096"

text \<open>
  A size the macro can have: KVM takes whole pages, and the memory from one megabyte up must end below the flash
  chip at 0x3400000. The value in the comment of the source, one megabyte, is such a size, and so is zero.
\<close>

definition build_ok :: "build \<Rightarrow> bool" where
  "build_ok bd \<longleftrightarrow> PAGE_SIZE dvd HIGH_MEMORY_SIZE bd \<and> HIGH_MEMORY_SIZE bd \<le> 0x3300000"

text \<open>The build with the options off, and one with everything on.\<close>

definition default_build :: build where
  "default_build = \<lparr>NDEBUG = True, VIRTUAL_DISK = False, DISASSEMBLE = False, HIGH_MEMORY_SIZE = 0\<rparr>"

definition full_build :: build where
  "full_build = \<lparr>NDEBUG = True, VIRTUAL_DISK = True, DISASSEMBLE = True, HIGH_MEMORY_SIZE = 0x100000\<rparr>"

lemma builds_ok: "build_ok default_build" "build_ok full_build"
  by (simp_all add: build_ok_def default_build_def full_build_def PAGE_SIZE_def)

end
