(* ===== verification/Memory_Regions.thy ===== *)
theory Memory_Regions
  imports Build_Config
begin

text \<open>
  The guest's physical memory map (src/main.cpp): the memory regions \<open>main\<close> declares, their
  registration with KVM before the virtual CPU runs, and the two changes the run loop makes to
  them, the wrap-around of the first megabyte when the A20 line is off and the window on the
  disk image. KVM is not modelled: \<open>accept\<close> says which requests the ioctl accepts, and the state is
  the table of the accepted requests, in which a request of size zero empties its slot.
\<close>

section \<open>Regions\<close>

text \<open>The mapped host memory a region shows: the buffers \<open>ram\<close>, \<open>flashMemory\<close>, \<open>optionRom\<close>, \<open>diskData\<close>.\<close>

datatype host_buffer = RamBuffer | FlashBuffer | OptionRomBuffer | DiskBuffer

text \<open>The sizes passed to \<open>mmap\<close>.\<close>

fun buffer_size :: "build \<Rightarrow> host_buffer \<Rightarrow> nat" where
  "buffer_size bd RamBuffer = LOW_MEMORY_SIZE + HIGH_MEMORY_SIZE bd"
| "buffer_size bd FlashBuffer = 0x80000"
| "buffer_size bd OptionRomBuffer = 0x2000"
| "buffer_size bd DiskBuffer = PAGE_SIZE"

record mem_region =
  slot :: nat
  mr_readonly :: bool
  guest_phys_addr :: nat
  memory_size :: nat
  mr_buffer :: host_buffer
  mr_offset :: nat

definition regionRam :: mem_region where
  "regionRam = \<lparr>slot = 0, mr_readonly = False, guest_phys_addr = 0, memory_size = LOW_MEMORY_SIZE,
     mr_buffer = RamBuffer, mr_offset = 0\<rparr>"

definition regionRomDos :: mem_region where
  "regionRomDos = \<lparr>slot = 1, mr_readonly = True, guest_phys_addr = 0xE0000, memory_size = 0x10000,
     mr_buffer = FlashBuffer, mr_offset = 0x60000\<rparr>"

definition regionBios :: mem_region where
  "regionBios = \<lparr>slot = 2, mr_readonly = True, guest_phys_addr = 0xF0000, memory_size = 0x10000,
     mr_buffer = FlashBuffer, mr_offset = 0x70000\<rparr>"

definition regionRamWrap :: mem_region where
  "regionRamWrap = \<lparr>slot = 3, mr_readonly = False, guest_phys_addr = 0x100000, memory_size = 0x10000,
     mr_buffer = RamBuffer, mr_offset = 0\<rparr>"

definition regionRamWrapHighMem :: "build \<Rightarrow> mem_region" where
  "regionRamWrapHighMem bd = \<lparr>slot = 3, mr_readonly = False, guest_phys_addr = 0x100000, memory_size = HIGH_MEMORY_SIZE bd,
     mr_buffer = RamBuffer, mr_offset = LOW_MEMORY_SIZE\<rparr>"

definition regionFlash :: mem_region where
  "regionFlash = \<lparr>slot = 4, mr_readonly = True, guest_phys_addr = 0x03400000, memory_size = 0x80000,
     mr_buffer = FlashBuffer, mr_offset = 0\<rparr>"

definition regionFlashAlias :: mem_region where
  "regionFlashAlias = \<lparr>slot = 5, mr_readonly = True, guest_phys_addr = 0x03480000, memory_size = 0x80000,
     mr_buffer = FlashBuffer, mr_offset = 0\<rparr>"

definition regionOptionRom :: mem_region where
  "regionOptionRom = \<lparr>slot = 6, mr_readonly = False, guest_phys_addr = 0xC8000, memory_size = 0x1000,
     mr_buffer = OptionRomBuffer, mr_offset = 0\<rparr>"

definition regionOptionRom_Boot :: mem_region where
  "regionOptionRom_Boot = \<lparr>slot = 7, mr_readonly = True, guest_phys_addr = 0xC9000, memory_size = 0x1000,
     mr_buffer = OptionRomBuffer, mr_offset = 0x1000\<rparr>"

definition regionOptionRom_Disk :: mem_region where
  "regionOptionRom_Disk = \<lparr>slot = 7, mr_readonly = False, guest_phys_addr = 0xC9000, memory_size = 0x1000,
     mr_buffer = DiskBuffer, mr_offset = 0\<rparr>"

text \<open>
  The requests that empty a slot (\<open>regionRamWrapDisabled\<close>, \<open>regionFlash_Unmap\<close>,
  \<open>regionFlashAlias_Unmap\<close>, \<open>regionOptionRom_Unmap\<close>) have all other fields zero.
\<close>

definition region_unmap :: "nat \<Rightarrow> mem_region" where
  "region_unmap n = \<lparr>slot = n, mr_readonly = False, guest_phys_addr = 0, memory_size = 0,
     mr_buffer = RamBuffer, mr_offset = 0\<rparr>"

definition regionRamWrapDisabled :: mem_region where "regionRamWrapDisabled = region_unmap 3"
definition regionFlash_Unmap :: mem_region where "regionFlash_Unmap = region_unmap 4"
definition regionFlashAlias_Unmap :: mem_region where "regionFlashAlias_Unmap = region_unmap 5"
definition regionOptionRom_Unmap :: mem_region where "regionOptionRom_Unmap = region_unmap 7"

lemmas region_defs = regionRam_def regionRomDos_def regionBios_def regionRamWrap_def regionRamWrapHighMem_def regionFlash_def
  regionFlashAlias_def regionOptionRom_def regionOptionRom_Boot_def regionOptionRom_Disk_def
  region_unmap_def regionRamWrapDisabled_def regionFlash_Unmap_def regionFlashAlias_Unmap_def
  regionOptionRom_Unmap_def LOW_MEMORY_SIZE_def PAGE_SIZE_def

section \<open>Registration\<close>

type_synonym mem_slots = "nat \<rightharpoonup> mem_region"

definition set_region :: "(mem_region \<Rightarrow> bool) \<Rightarrow> mem_region \<Rightarrow> mem_slots \<Rightarrow> mem_slots result" where
  "set_region accept r s =
     (if \<not> accept r then Inl ExitFailure
      else if memory_size r = 0 then Inr (s(slot r := None)) else Inr (s(slot r \<mapsto> r)))"

fun set_regions :: "(mem_region \<Rightarrow> bool) \<Rightarrow> mem_region list \<Rightarrow> mem_slots \<Rightarrow> mem_slots result" where
  "set_regions accept [] s = Inr s"
| "set_regions accept (r # rs) s = and_then (set_region accept r s) (set_regions accept rs)"

definition boot_regions :: "build \<Rightarrow> mem_region list" where
  "boot_regions bd = [regionRam, regionRomDos, regionBios] @
     (if HIGH_MEMORY_SIZE bd \<noteq> 0 then [regionRamWrapHighMem bd] else []) @ [regionFlash, regionFlashAlias] @
     (if VIRTUAL_DISK bd then [regionOptionRom, regionOptionRom_Boot] else [])"

definition boot_slots :: "build \<Rightarrow> (mem_region \<Rightarrow> bool) \<Rightarrow> mem_slots result" where
  "boot_slots bd accept = set_regions accept (boot_regions bd) Map.empty"

section \<open>Changes while the guest runs\<close>

text \<open>
  After a port access the loop compares bit 1 of the A20 register with its last value. With high memory the slot
  is emptied before it is used again.
\<close>

definition update_a20 :: "build \<Rightarrow> (mem_region \<Rightarrow> bool) \<Rightarrow> u8 \<Rightarrow> u8 \<Rightarrow> mem_slots \<Rightarrow> (u8 \<times> mem_slots) result" where
  "update_a20 bd accept a20register lastA20Register s =
     (if lastA20Register AND 2 \<noteq> a20register AND 2 then
        and_then (if HIGH_MEMORY_SIZE bd \<noteq> 0 then set_region accept regionRamWrapDisabled s else Inr s) (\<lambda>s1.
        and_then (set_region accept
            (if a20register AND 2 \<noteq> 0
             then if HIGH_MEMORY_SIZE bd \<noteq> 0 then regionRamWrapHighMem bd else regionRamWrapDisabled
             else regionRamWrap) s1) (\<lambda>s2.
        Inr (a20register, s2)))
      else Inr (lastA20Register, s))"

text \<open>
  The window on the disk image: the old page is taken out of the guest and unmapped
  (\<open>munmap_ok\<close>), the page at the selected sector is mapped (\<open>mmap_ok\<close>) and shown to the guest. The
  first component of the result is the byte offset into the image that the new page starts at;
  \<open>off_t\<close> has 64 bits, so the product does not overflow.
\<close>

definition update_disk_window ::
    "(mem_region \<Rightarrow> bool) \<Rightarrow> bool \<Rightarrow> (nat \<Rightarrow> bool) \<Rightarrow> u32 \<Rightarrow> mem_slots \<Rightarrow> (nat \<times> mem_slots) result" where
  "update_disk_window accept munmap_ok mmap_ok selectedDiskLBA s =
     and_then (set_region accept regionOptionRom_Unmap s) (\<lambda>s1.
     if \<not> munmap_ok then Inl ExitFailure
     else let off = unat selectedDiskLBA * 512
          in if \<not> mmap_ok off then Inl ExitFailure
             else and_then (set_region accept regionOptionRom_Disk s1) (\<lambda>s2. Inr (off, s2)))"

section \<open>What a guest address shows\<close>

definition covers :: "mem_region \<Rightarrow> nat \<Rightarrow> bool" where
  "covers r a \<longleftrightarrow> guest_phys_addr r \<le> a \<and> a < guest_phys_addr r + memory_size r"

definition disjoint_regions :: "mem_region \<Rightarrow> mem_region \<Rightarrow> bool" where
  "disjoint_regions r q \<longleftrightarrow> guest_phys_addr r + memory_size r \<le> guest_phys_addr q \<or>
     guest_phys_addr q + memory_size q \<le> guest_phys_addr r"

text \<open>The slot number is given by a search of the eight slots \<open>main\<close> uses.\<close>

definition guest_to_host :: "mem_slots \<Rightarrow> nat \<Rightarrow> (host_buffer \<times> nat) option" where
  "guest_to_host s a =
     (case find (\<lambda>n. case s n of Some r \<Rightarrow> covers r a | None \<Rightarrow> False) [0..<8] of
        None \<Rightarrow> None
      | Some n \<Rightarrow> map_option (\<lambda>r. (mr_buffer r, mr_offset r + (a - guest_phys_addr r))) (s n))"

section \<open>The map stays sound\<close>

text \<open>The regions \<open>main\<close> may ever register for a slot.\<close>

definition slot_regions :: "build \<Rightarrow> nat \<Rightarrow> mem_region list" where
  "slot_regions bd n =
     (if n = 0 then [regionRam] else if n = 1 then [regionRomDos] else if n = 2 then [regionBios]
      else if n = 3 then regionRamWrap # (if HIGH_MEMORY_SIZE bd \<noteq> 0 then [regionRamWrapHighMem bd] else [])
      else if n = 4 then [regionFlash] else if n = 5 then [regionFlashAlias]
      else if VIRTUAL_DISK bd \<and> n = 6 then [regionOptionRom]
      else if VIRTUAL_DISK bd \<and> n = 7 then [regionOptionRom_Boot, regionOptionRom_Disk]
      else [])"

definition slots_inv :: "build \<Rightarrow> mem_slots \<Rightarrow> bool" where
  "slots_inv bd s \<longleftrightarrow> build_ok bd \<and> (\<forall>n r. s n = Some r \<longrightarrow> r \<in> set (slot_regions bd n))"

lemma slot_regions_slot: "r \<in> set (slot_regions bd n) \<Longrightarrow> slot r = n \<and> n < 8 \<and> 0 < memory_size r"
  by (auto simp: slot_regions_def region_defs split: if_splits)

lemma slot_regions_disjoint:
  assumes "build_ok bd" and "r \<in> set (slot_regions bd m)" and "q \<in> set (slot_regions bd n)" and "m \<noteq> n"
  shows "disjoint_regions r q"
proof -
  have "m \<in> {0,1,2,3,4,5,6,7}" "n \<in> {0,1,2,3,4,5,6,7}"
    using slot_regions_slot [OF assms(2)] slot_regions_slot [OF assms(3)] by auto
  with assms show ?thesis
    by (auto simp: slot_regions_def disjoint_regions_def region_defs build_ok_def split: if_splits)
qed

lemma slot_regions_in_buffer:
  assumes "build_ok bd" and "r \<in> set (slot_regions bd n)"
  shows "mr_offset r + memory_size r \<le> buffer_size bd (mr_buffer r) \<and> PAGE_SIZE dvd guest_phys_addr r \<and>
    PAGE_SIZE dvd memory_size r \<and> PAGE_SIZE dvd mr_offset r"
  using assms by (auto simp: slot_regions_def region_defs build_ok_def split: if_splits)

definition region_request :: "build \<Rightarrow> mem_region \<Rightarrow> bool" where
  "region_request bd r \<longleftrightarrow> memory_size r = 0 \<or> r \<in> set (slot_regions bd (slot r))"

lemma region_requests [simp]:
  "region_request bd regionRam" "region_request bd regionRomDos" "region_request bd regionBios"
  "region_request bd regionRamWrap" "region_request bd (regionRamWrapHighMem bd)"
  "region_request bd regionFlash" "region_request bd regionFlashAlias"
  "VIRTUAL_DISK bd \<Longrightarrow> region_request bd regionOptionRom"
  "VIRTUAL_DISK bd \<Longrightarrow> region_request bd regionOptionRom_Boot"
  "VIRTUAL_DISK bd \<Longrightarrow> region_request bd regionOptionRom_Disk"
  "region_request bd regionRamWrapDisabled" "region_request bd regionFlash_Unmap"
  "region_request bd regionFlashAlias_Unmap" "region_request bd regionOptionRom_Unmap"
  by (auto simp: region_request_def slot_regions_def region_defs)

lemma set_region_inv:
  "slots_inv bd s \<Longrightarrow> set_region accept r s = Inr s' \<Longrightarrow> region_request bd r \<Longrightarrow> slots_inv bd s'"
  by (auto simp: set_region_def slots_inv_def region_request_def split: if_splits)

lemma set_regions_inv:
  "slots_inv bd s \<Longrightarrow> set_regions accept rs s = Inr s' \<Longrightarrow> \<forall>r \<in> set rs. region_request bd r \<Longrightarrow> slots_inv bd s'"
  by (induction rs arbitrary: s) (auto simp: result_simps intro: set_region_inv)

lemma slots_inv_empty: "build_ok bd \<Longrightarrow> slots_inv bd Map.empty"
  by (simp add: slots_inv_def)

lemma boot_slots_inv:
  assumes "build_ok bd" and "boot_slots bd accept = Inr s"
  shows "slots_inv bd s"
  using slots_inv_empty [OF assms(1)] assms(2) [unfolded boot_slots_def]
  by (rule set_regions_inv) (auto simp: boot_regions_def)

lemma update_a20_inv: "slots_inv bd s \<Longrightarrow> update_a20 bd accept a l s = Inr (l', s') \<Longrightarrow> slots_inv bd s'"
  by (auto simp: update_a20_def result_simps split: if_splits
      elim!: set_region_inv [rotated] intro: set_region_inv)

lemma update_disk_window_inv:
  assumes "slots_inv bd s" and "VIRTUAL_DISK bd" and "update_disk_window accept mu mm lba s = Inr (off, s')"
  shows "slots_inv bd s'"
proof -
  obtain s1 where s1: "set_region accept regionOptionRom_Unmap s = Inr s1"
    and s': "set_region accept regionOptionRom_Disk s1 = Inr s'"
    using assms(3) by (auto simp: update_disk_window_def result_simps Let_def split: if_splits)
  have "slots_inv bd s1" using set_region_inv [OF assms(1) s1] by simp
  then show ?thesis using set_region_inv [OF _ s'] assms(2) by simp
qed

lemma slots_inv_disjoint:
  assumes "slots_inv bd s" and "s m = Some r" and "s n = Some q" and "m \<noteq> n"
  shows "disjoint_regions r q"
proof -
  have "build_ok bd" "r \<in> set (slot_regions bd m)" "q \<in> set (slot_regions bd n)"
    using assms(1-3) by (simp_all add: slots_inv_def)
  then show ?thesis using assms(4) by (rule slot_regions_disjoint)
qed

lemma slots_inv_slot: "slots_inv bd s \<Longrightarrow> s n = Some r \<Longrightarrow> n < 8"
  using slot_regions_slot by (fastforce simp: slots_inv_def)

lemma guest_to_host_Some:
  assumes "slots_inv bd s" and "s n = Some r" and "covers r a"
  shows "guest_to_host s a = Some (mr_buffer r, mr_offset r + (a - guest_phys_addr r))"
proof -
  let ?p = "\<lambda>n. case s n of Some r \<Rightarrow> covers r a | None \<Rightarrow> False"
  have unique: "m = n" if "?p m" for m
  proof (rule ccontr)
    assume "m \<noteq> n"
    moreover obtain q where "s m = Some q" "covers q a" using \<open>?p m\<close> by (auto split: option.splits)
    ultimately show False
      using slots_inv_disjoint [OF assms(1) _ assms(2)] assms(3)
      by (fastforce simp: disjoint_regions_def covers_def)
  qed
  have "n \<in> set [0..<8]" using slots_inv_slot [OF assms(1,2)] by simp
  moreover have "?p n" using assms(2,3) by simp
  ultimately obtain m where "find ?p [0..<8] = Some m"
    using find_None_iff [of ?p "[0..<8]"] by (cases "find ?p [0..<8]") auto
  moreover from this have "m = n" using unique by (auto simp: find_Some_iff)
  ultimately show ?thesis using assms(2) by (simp add: guest_to_host_def)
qed

lemma guest_to_host_None:
  assumes "\<And>n r. s n = Some r \<Longrightarrow> \<not> covers r a"
  shows "guest_to_host s a = None"
proof -
  have "find (\<lambda>n. case s n of Some r \<Rightarrow> covers r a | None \<Rightarrow> False) [0..<8] = None"
    using assms by (auto simp: find_None_iff split: option.splits)
  then show ?thesis by (simp add: guest_to_host_def)
qed

text \<open>
  C24. While the memory slots hold regions that main defines, a guest address that is mapped leads to a
  byte inside the host buffer that backs it.
\<close>

theorem guest_access_in_buffer:
  assumes "slots_inv bd s" and "guest_to_host s a = Some (b, off)"
  shows "off < buffer_size bd b"
proof -
  obtain n r where "s n = Some r" "covers r a"
    using assms(2) guest_to_host_None [of s a] by fastforce
  moreover from this assms(1) have "build_ok bd" "r \<in> set (slot_regions bd n)" by (simp_all add: slots_inv_def)
  ultimately show ?thesis
    using guest_to_host_Some [OF assms(1)] assms(2) slot_regions_in_buffer [of bd r n]
    by (fastforce simp: covers_def)
qed

section \<open>The map at start\<close>

definition initial_slots :: "build \<Rightarrow> mem_slots" where
  "initial_slots bd = (\<lambda>n. if n = 0 then Some regionRam else if n = 1 then Some regionRomDos
     else if n = 2 then Some regionBios
     else if n = 3 then if HIGH_MEMORY_SIZE bd \<noteq> 0 then Some (regionRamWrapHighMem bd) else None
     else if n = 4 then Some regionFlash else if n = 5 then Some regionFlashAlias
     else if VIRTUAL_DISK bd \<and> n = 6 then Some regionOptionRom
     else if VIRTUAL_DISK bd \<and> n = 7 then Some regionOptionRom_Boot else None)"

lemma set_regions_accepted:
  "\<forall>r \<in> set rs. accept r \<and> memory_size r \<noteq> 0 \<Longrightarrow>
     set_regions accept rs s = Inr (fold (\<lambda>r s. s(slot r \<mapsto> r)) rs s)"
  by (induction rs arbitrary: s) (simp_all add: set_region_def)

lemma set_regions_rejected:
  "\<exists>r \<in> set rs. \<not> accept r \<Longrightarrow> set_regions accept rs s = Inl ExitFailure"
proof (induction rs arbitrary: s)
  case (Cons r rs)
  then show ?case by (cases "accept r") (auto simp: set_region_def)
qed simp

lemma boot_regions_nonempty: "r \<in> set (boot_regions bd) \<Longrightarrow> memory_size r \<noteq> 0"
  by (auto simp: boot_regions_def region_defs split: if_splits)

lemma boot_fold: "fold (\<lambda>r s. s(slot r \<mapsto> r)) (boot_regions bd) Map.empty = initial_slots bd"
proof -
  have "slot regionRam = 0" "slot regionRomDos = 1" "slot regionBios = 2" "slot (regionRamWrapHighMem bd) = 3"
    "slot regionFlash = 4" "slot regionFlashAlias = 5" "slot regionOptionRom = 6" "slot regionOptionRom_Boot = 7"
    by (simp_all add: region_defs)
  then show ?thesis by (auto simp: boot_regions_def initial_slots_def fun_eq_iff)
qed

lemma boot_slots_eq: "boot_slots bd accept =
    (if \<forall>r \<in> set (boot_regions bd). accept r then Inr (initial_slots bd) else Inl ExitFailure)"
  using set_regions_accepted [of "boot_regions bd" accept Map.empty] boot_regions_nonempty
    set_regions_rejected [of "boot_regions bd" accept Map.empty]
  by (auto simp: boot_slots_def boot_fold)

lemma initial_slots_inv: "build_ok bd \<Longrightarrow> slots_inv bd (initial_slots bd)"
  using boot_slots_inv [of bd "\<lambda>_. True"] by (simp add: boot_slots_eq)

text \<open>
  The initial CPU state: real mode with the code segment based in the flash chip, at the reset
  vector.
\<close>

definition boot_cs_base :: nat where "boot_cs_base = 0x03470000"
definition boot_rip :: nat where "boot_rip = 0x0000FFF0"

theorem reset_vector_is_end_of_BIOS:
  assumes "build_ok bd"
  shows "guest_to_host (initial_slots bd) (boot_cs_base + boot_rip) = Some (FlashBuffer, 0x7FFF0) \<and>
   guest_to_host (initial_slots bd) 0xFFFF0 = Some (FlashBuffer, 0x7FFF0)"
proof -
  have "initial_slots bd 4 = Some regionFlash" "initial_slots bd 2 = Some regionBios"
    by (simp_all add: initial_slots_def)
  then show ?thesis
    using guest_to_host_Some [OF initial_slots_inv [OF assms], of 4 regionFlash "boot_cs_base + boot_rip"]
      guest_to_host_Some [OF initial_slots_inv [OF assms], of 2 regionBios "0xFFFF0"]
    by (simp add: covers_def region_defs boot_cs_base_def boot_rip_def)
qed

theorem reset_vector_is_end_of_BIOS_witness:
  "guest_to_host (initial_slots full_build) 0xFFFF0 = Some (FlashBuffer, 0x7FFF0)"
  using reset_vector_is_end_of_BIOS [OF builds_ok(2)] by simp

theorem boot_map_is_sound:
  assumes "build_ok bd" and "boot_slots bd accept = Inr s" and "s m = Some r" and "s n = Some q" and "m \<noteq> n"
  shows "disjoint_regions r q \<and> mr_offset r + memory_size r \<le> buffer_size bd (mr_buffer r) \<and>
    PAGE_SIZE dvd guest_phys_addr r \<and> PAGE_SIZE dvd memory_size r"
proof -
  have inv: "slots_inv bd s" using assms(1,2) by (rule boot_slots_inv)
  then have "r \<in> set (slot_regions bd m)" using assms(3) by (simp add: slots_inv_def)
  then show ?thesis
    using slots_inv_disjoint [OF inv assms(3-5)] slot_regions_in_buffer [OF assms(1), of r m] by simp
qed

theorem boot_map_is_sound_witness:
  "\<exists>s. boot_slots full_build (\<lambda>_. True) = Inr s \<and> s 0 = Some regionRam \<and> s 4 = Some regionFlash \<and>
     disjoint_regions regionRam regionFlash"
proof -
  have boot: "boot_slots full_build (\<lambda>_. True) = Inr (initial_slots full_build)" by (simp add: boot_slots_eq)
  have s: "initial_slots full_build 0 = Some regionRam" "initial_slots full_build 4 = Some regionFlash"
    by (simp_all add: initial_slots_def)
  show ?thesis using boot_map_is_sound [OF builds_ok(2) boot s] boot s by simp
qed

section \<open>The A20 gate\<close>

text \<open>The region slot 3 holds while the A20 line is on, and while it is off.\<close>

definition a20_region :: "build \<Rightarrow> bool \<Rightarrow> mem_region option" where
  "a20_region bd on =
     (if \<not> on then Some regionRamWrap else if HIGH_MEMORY_SIZE bd \<noteq> 0 then Some (regionRamWrapHighMem bd) else None)"

definition a20_consistent :: "build \<Rightarrow> u8 \<Rightarrow> mem_slots \<Rightarrow> bool" where
  "a20_consistent bd l s \<longleftrightarrow> s 3 = a20_region bd (l AND 2 \<noteq> 0)"

lemma update_a20_consistent:
  assumes "a20_consistent bd l s" and "update_a20 bd accept a l s = Inr (l', s')"
  shows "a20_consistent bd l' s' \<and> l' AND 2 = a AND 2 \<and> (\<forall>n. n \<noteq> 3 \<longrightarrow> s' n = s n)"
  using assms
  by (auto simp: update_a20_def set_region_def a20_consistent_def a20_region_def result_simps region_defs split: if_splits)

text \<open>What the guest sees from one megabyte up to the flash chip.\<close>

definition above_one_megabyte :: "build \<Rightarrow> bool \<Rightarrow> nat \<Rightarrow> (host_buffer \<times> nat) option" where
  "above_one_megabyte bd on x =
     (if on then if x < HIGH_MEMORY_SIZE bd then Some (RamBuffer, LOW_MEMORY_SIZE + x) else None
      else if x < 0x10000 then Some (RamBuffer, x) else None)"

lemma wrapped_address:
  assumes "slots_inv bd s" and "a20_consistent bd l s" and "x < 0x3300000"
  shows "guest_to_host s (0x100000 + x) = above_one_megabyte bd (l AND 2 \<noteq> 0) x"
proof -
  have other: "\<not> covers r (0x100000 + x)" if "s n = Some r" "n \<noteq> 3" for n r
  proof -
    have "r \<in> set (slot_regions bd n)" using assms(1) that by (simp add: slots_inv_def)
    with that(2) assms(3) show ?thesis
      by (auto simp: slot_regions_def covers_def region_defs split: if_splits)
  qed
  show ?thesis
  proof (cases "\<exists>r. s 3 = Some r \<and> covers r (0x100000 + x)")
    case True
    then obtain r where r: "s 3 = Some r" "covers r (0x100000 + x)" by blast
    from guest_to_host_Some [OF assms(1) r] r assms(2) show ?thesis
      by (auto simp: a20_consistent_def a20_region_def above_one_megabyte_def covers_def region_defs split: if_splits)
  next
    case False
    then have "guest_to_host s (0x100000 + x) = None"
      using other by (intro guest_to_host_None) metis
    moreover have "above_one_megabyte bd (l AND 2 \<noteq> 0) x = None"
      using False assms(2)
      by (auto simp: a20_consistent_def a20_region_def above_one_megabyte_def covers_def region_defs split: if_splits)
    ultimately show ?thesis by simp
  qed
qed

theorem a20_gate_wraps_the_first_megabyte:
  assumes "slots_inv bd s" and "a20_consistent bd l s"
    and "update_a20 bd accept a l s = Inr (l', s')" and "x < 0x3300000"
  shows "guest_to_host s' (0x100000 + x) = above_one_megabyte bd (a AND 2 \<noteq> 0) x"
  using wrapped_address [OF update_a20_inv [OF assms(1,3)] _ assms(4), of l'] update_a20_consistent [OF assms(2,3)]
  by simp

theorem a20_gate_wraps_the_first_megabyte_witness:
  "\<exists>s'. update_a20 full_build (\<lambda>_. True) 0 2 (initial_slots full_build) = Inr (0, s') \<and>
     guest_to_host s' 0x100010 = Some (RamBuffer, 0x10)"
proof -
  obtain s' where s': "update_a20 full_build (\<lambda>_. True) 0 2 (initial_slots full_build) = Inr (0, s')"
    by (simp add: update_a20_def set_region_def region_defs full_build_def)
  have "a20_consistent full_build 2 (initial_slots full_build)"
    by (simp add: a20_consistent_def a20_region_def initial_slots_def)
  from a20_gate_wraps_the_first_megabyte [OF initial_slots_inv [OF builds_ok(2)] this s', of "0x10"] s'
  show ?thesis by (simp add: above_one_megabyte_def)
qed

section \<open>The window on the disk\<close>

lemma update_disk_window_Inr:
  assumes "update_disk_window accept mu mm lba s = Inr (off, s')"
  shows "off = unat lba * 512 \<and> mm off \<and> s' 7 = Some regionOptionRom_Disk \<and> (\<forall>n. n \<noteq> 7 \<longrightarrow> s' n = s n)"
  using assms
  by (auto simp: update_disk_window_def set_region_def result_simps Let_def region_defs split: if_splits)

theorem disk_window_shows_selected_sectors:
  assumes "slots_inv bd s" and "VIRTUAL_DISK bd" and "update_disk_window accept mu mm lba s = Inr (off, s')"
    and "x < 8 * 512"
  shows "guest_to_host s' (0xC9000 + x) = Some (DiskBuffer, x) \<and> (off + x) div 512 = unat lba + x div 512"
proof -
  note w = update_disk_window_Inr [OF assms(3)]
  have "guest_to_host s' (0xC9000 + x) = Some (DiskBuffer, x)"
    using guest_to_host_Some [OF update_disk_window_inv [OF assms(1-3)], of 7 regionOptionRom_Disk "0xC9000 + x"]
      w assms(4) by (simp add: covers_def region_defs)
  then show ?thesis using w by simp
qed

theorem disk_window_shows_selected_sectors_witness:
  "\<exists>s'. update_disk_window (\<lambda>_. True) True (\<lambda>off. 4096 dvd off) 16 (initial_slots full_build) = Inr (8192, s') \<and>
     guest_to_host s' 0xC9200 = Some (DiskBuffer, 0x200)"
proof -
  obtain s' where s': "update_disk_window (\<lambda>_. True) True (\<lambda>off. 4096 dvd off) 16 (initial_slots full_build) = Inr (8192, s')"
    by (simp add: update_disk_window_def set_region_def region_defs)
  from disk_window_shows_selected_sectors [OF initial_slots_inv [OF builds_ok(2)] _ s', of "0x200"] s' show ?thesis
    by (simp add: full_build_def)
qed

text \<open>
  The sector register is not restricted to multiples of eight, but \<open>mmap\<close> only accepts offsets that
  are multiples of the page size: selecting any other sector ends the emulator.
\<close>

theorem unaligned_sector_ends_the_emulator:
  assumes "\<And>off. mm off \<Longrightarrow> PAGE_SIZE dvd off" and "unat lba mod 8 \<noteq> 0"
  shows "update_disk_window accept mu mm lba s = Inl ExitFailure"
proof -
  have "\<not> PAGE_SIZE dvd unat lba * 512" using assms(2) by (simp add: PAGE_SIZE_def) presburger
  then have "\<not> mm (unat lba * 512)" using assms(1) by blast
  then show ?thesis
    by (auto simp: update_disk_window_def set_region_def and_then_def Let_def split: sum.splits if_splits)
qed

theorem unaligned_sector_ends_the_emulator_witness:
  "update_disk_window (\<lambda>_. True) True (\<lambda>off. PAGE_SIZE dvd off) 63 (initial_slots full_build) = Inl ExitFailure"
  by (rule unaligned_sector_ends_the_emulator) simp_all

theorem guest_access_in_buffer_witness:
  "guest_to_host (initial_slots full_build) 0x100010 = Some (RamBuffer, 0x70010) \<and>
   0x70010 < buffer_size full_build RamBuffer"
proof -
  have s: "initial_slots full_build 3 = Some (regionRamWrapHighMem full_build)"
    by (simp add: initial_slots_def full_build_def)
  note inv = initial_slots_inv [OF builds_ok(2)]
  have g: "guest_to_host (initial_slots full_build) 0x100010 = Some (RamBuffer, 0x70010)"
    using guest_to_host_Some [OF inv s, of "0x100010"] by (simp add: covers_def region_defs full_build_def)
  then show ?thesis using guest_access_in_buffer [OF inv g] by simp
qed

end
