(* ===== verification/Flash_Disk.thy ===== *)
theory Flash_Disk
  imports Memory_Regions
begin

text \<open>
  The flash chip behind the MMIO exits (src/main.cpp, \<open>FlashState\<close> and the branch
  \<open>KVM_EXIT_MMIO\<close> of the run loop, built with \<open>VIRTUAL_DISK\<close>): the command decoder, one step per
  guest access, with the array \<open>flashMemory\<close> as a function of the byte offset (the offsets are
  masked to 19 bits, the size of the chip), and the mapping of the flash regions that the
  product identification mode switches off. The guard in front of the decoder is modelled as
  written; it is never true (\<open>flash_branch_is_dead\<close>), so the theorems about the decoder describe
  code that the program as it is cannot reach.
\<close>

section \<open>The command decoder\<close>

datatype flash_state =
    Read | CommandByte_1 | CommandByte_2 | CommandByte_3 | CommandByte_4 | CommandByte_5
  | Program | ProductIdentification | SectorErase

record flash =
  flashState :: flash_state
  flashMemory :: "nat \<Rightarrow> u8"

definition FLASH_SIZE :: nat where "FLASH_SIZE = 0x80000"

definition flash_offset :: "u64 \<Rightarrow> u64" where
  "flash_offset phys_addr = phys_addr AND 0x7FFFF"

text \<open>\<open>memset(flashMemory + start, 0xff, n)\<close>\<close>

definition erase :: "nat \<Rightarrow> nat \<Rightarrow> (nat \<Rightarrow> u8) \<Rightarrow> nat \<Rightarrow> u8" where
  "erase start n mem = (\<lambda>i. if start \<le> i \<and> i < start + n then 0xFF else mem i)"

text \<open>
  A write of one byte. The result is the new chip state and whether the flash regions are to be
  unmapped; an unknown sequence ends the program.
\<close>

definition flash_write :: "flash \<Rightarrow> u64 \<Rightarrow> u8 \<Rightarrow> (flash \<times> bool) result" where
  "flash_write f offset command =
     (if flashState f = Program then
        Inr (f\<lparr>flashMemory := (flashMemory f)(unat offset := command), flashState := Read\<rparr>, False)
      else if command = 0xF0 then Inr (f\<lparr>flashState := Read\<rparr>, False)
      else if flashState f = Read \<and> offset AND 0x7FF = 0x555 \<and> command = 0xAA then
        Inr (f\<lparr>flashState := CommandByte_1\<rparr>, False)
      else if flashState f = CommandByte_1 \<and> offset AND 0x7FF = 0x2AA \<and> command = 0x55 then
        Inr (f\<lparr>flashState := CommandByte_2\<rparr>, False)
      else if flashState f = CommandByte_2 \<and> offset AND 0x7FF = 0x555 \<and> command = 0x80 then
        Inr (f\<lparr>flashState := CommandByte_3\<rparr>, False)
      else if flashState f = CommandByte_3 \<and> offset AND 0x7FF = 0x555 \<and> command = 0xAA then
        Inr (f\<lparr>flashState := CommandByte_4\<rparr>, False)
      else if flashState f = CommandByte_4 \<and> offset AND 0x7FF = 0x2AA \<and> command = 0x55 then
        Inr (f\<lparr>flashState := CommandByte_5\<rparr>, False)
      else if flashState f = CommandByte_2 \<and> offset AND 0x7FF = 0x555 \<and> command = 0xA0 then
        Inr (f\<lparr>flashState := Program\<rparr>, False)
      else if flashState f = CommandByte_2 \<and> offset AND 0x7FF = 0x555 \<and> command = 0x90 then
        Inr (f\<lparr>flashState := ProductIdentification\<rparr>, True)
      else if flashState f = CommandByte_5 \<and> command = 0x30 then
        Inr (f\<lparr>flashMemory := erase (unat (offset AND 0x70000)) 0x10000 (flashMemory f), flashState := Read\<rparr>, False)
      else if flashState f = CommandByte_5 \<and> offset AND 0x7FF = 0x555 \<and> command = 0x10 then
        Inr (f\<lparr>flashMemory := erase 0 0x80000 (flashMemory f), flashState := Read\<rparr>, False)
      else Inl ExitFailure)"

text \<open>
  A read exit. The result is the new chip state, the byte stored in the exit's data, if any, and
  whether the flash regions are to be mapped again.
\<close>

definition flash_read :: "flash \<Rightarrow> u64 \<Rightarrow> flash \<times> u8 option \<times> bool" where
  "flash_read f offset =
     (if flashState f = ProductIdentification
      then (f\<lparr>flashState := Read\<rparr>, Some (if offset AND 1 \<noteq> 0 then 0xA4 else 0x01), True)
      else (f\<lparr>flashState := Read\<rparr>, None, False))"

section \<open>The MMIO exit\<close>

record mmio_exit =
  phys_addr :: u64
  mmio_is_write :: bool
  mmio_len :: nat
  mmio_data :: "u8 list"

record flash_board =
  fb_flash :: flash
  fb_slots :: mem_slots

definition in_flash_window :: "u64 \<Rightarrow> bool" where
  "in_flash_window a \<longleftrightarrow> 0x3400000 \<le> a \<and> a < 0x350000"

text \<open>The body of the branch for an access to the flash window.\<close>

definition flash_mmio ::
    "(mem_region \<Rightarrow> bool) \<Rightarrow> bool \<Rightarrow> flash_board \<Rightarrow> mmio_exit \<Rightarrow> (flash_board \<times> u8 list) result" where
  "flash_mmio accept ndebug b x =
     (let offset = flash_offset (phys_addr x) in
      if mmio_is_write x then
        and_then (c_assert ndebug (mmio_len x = 1)) (\<lambda>_.
        and_then (flash_write (fb_flash b) offset (mmio_data x ! 0)) (\<lambda>(f, unmap).
        and_then (if unmap then set_regions accept [regionFlash_Unmap, regionFlashAlias_Unmap] (fb_slots b)
                  else Inr (fb_slots b)) (\<lambda>s.
        Inr (\<lparr>fb_flash = f, fb_slots = s\<rparr>, mmio_data x))))
      else
        (case flash_read (fb_flash b) offset of (f, out, remap) \<Rightarrow>
         and_then (if remap then set_regions accept [regionFlash, regionFlashAlias] (fb_slots b)
                   else Inr (fb_slots b)) (\<lambda>s.
         Inr (\<lparr>fb_flash = f, fb_slots = s\<rparr>,
              case out of Some v \<Rightarrow> (mmio_data x)[0 := v] | None \<Rightarrow> mmio_data x))))"

text \<open>
  Every other MMIO exit: a write is dropped, a read returns zeros. Without \<open>VIRTUAL_DISK\<close> the decoder is not compiled.
\<close>

definition handle_mmio ::
    "build \<Rightarrow> (mem_region \<Rightarrow> bool) \<Rightarrow> flash_board \<Rightarrow> mmio_exit \<Rightarrow> (flash_board \<times> u8 list) result" where
  "handle_mmio bd accept b x =
     (if VIRTUAL_DISK bd \<and> in_flash_window (phys_addr x) then flash_mmio accept (NDEBUG bd) b x
      else Inr (b, if mmio_is_write x then mmio_data x else replicate (length (mmio_data x)) 0))"

lemma in_flash_window_False: "\<not> in_flash_window a"
proof
  assume "in_flash_window a"
  then have "0x3400000 \<le> a" and "a < 0x350000" by (simp_all add: in_flash_window_def)
  then have "(0x3400000 :: u64) < 0x350000" by (rule le_less_trans)
  then show False by simp
qed

theorem flash_branch_is_dead:
  "handle_mmio bd accept b x =
     Inr (b, if mmio_is_write x then mmio_data x else replicate (length (mmio_data x)) 0)"
  by (simp add: handle_mmio_def in_flash_window_False)

section \<open>What a write may change\<close>

lemma flash_offset_less: "unat (flash_offset a) < FLASH_SIZE"
proof -
  have "flash_offset a \<le> 0x7FFFF" unfolding flash_offset_def by (rule word_and_le1)
  then show ?thesis by (simp add: word_le_nat_alt FLASH_SIZE_def)
qed

lemma sector_in_chip: "unat (flash_offset a AND 0x70000) + 0x10000 \<le> FLASH_SIZE"
proof -
  have "flash_offset a AND 0x70000 \<le> 0x70000" by (rule word_and_le1)
  then show ?thesis by (simp add: word_le_nat_alt FLASH_SIZE_def)
qed

text \<open>The bytes a write may change, by the state it finds the decoder in.\<close>

definition flash_footprint :: "flash_state \<Rightarrow> u64 \<Rightarrow> u8 \<Rightarrow> nat set" where
  "flash_footprint st offset command =
     (if st = Program then {unat offset}
      else if st = CommandByte_5 \<and> command = 0x30 then
        {unat (offset AND 0x70000) ..< unat (offset AND 0x70000) + 0x10000}
      else if st = CommandByte_5 \<and> command = 0x10 \<and> offset AND 0x7FF = 0x555 then {..< FLASH_SIZE}
      else {})"

lemma flash_write_effect:
  assumes "flash_write f offset command = Inr (f', unmap)"
  shows "flashMemory f' i =
    (if i \<in> flash_footprint (flashState f) offset command
     then if flashState f = Program then command else 0xFF else flashMemory f i)"
  using assms
  by (auto simp: flash_write_def flash_footprint_def erase_def FLASH_SIZE_def split: if_splits)

section \<open>Command sequences\<close>

datatype flash_access = FlashWrite u64 u8 | FlashRead u64

text \<open>The states a chip can get into, with the accesses that led there, the latest first.\<close>

inductive flash_trace :: "flash \<Rightarrow> flash_access list \<Rightarrow> flash \<Rightarrow> bool" for f0 :: flash where
  traced_start: "flashState f0 = Read \<Longrightarrow> flash_trace f0 [] f0"
| traced_write: "flash_trace f0 h f \<Longrightarrow> flash_write f (flash_offset a) c = Inr (f', u) \<Longrightarrow>
     flash_trace f0 (FlashWrite (flash_offset a) c # h) f'"
| traced_read: "flash_trace f0 h f \<Longrightarrow> flash_read f (flash_offset a) = (f', d, m) \<Longrightarrow>
     flash_trace f0 (FlashRead (flash_offset a) # h) f'"

definition at_555 :: "u64 \<Rightarrow> bool" where "at_555 a \<longleftrightarrow> a AND 0x7FF = 0x555"
definition at_2AA :: "u64 \<Rightarrow> bool" where "at_2AA a \<longleftrightarrow> a AND 0x7FF = 0x2AA"

text \<open>What the decoder's state says about the latest accesses.\<close>

fun recent :: "flash_state \<Rightarrow> flash_access list \<Rightarrow> bool" where
  "recent Read h = True"
| "recent CommandByte_1 (FlashWrite a c # h) = (at_555 a \<and> c = 0xAA)"
| "recent CommandByte_2 (FlashWrite a c # h) = (at_2AA a \<and> c = 0x55 \<and> recent CommandByte_1 h)"
| "recent CommandByte_3 (FlashWrite a c # h) = (at_555 a \<and> c = 0x80 \<and> recent CommandByte_2 h)"
| "recent CommandByte_4 (FlashWrite a c # h) = (at_555 a \<and> c = 0xAA \<and> recent CommandByte_3 h)"
| "recent CommandByte_5 (FlashWrite a c # h) = (at_2AA a \<and> c = 0x55 \<and> recent CommandByte_4 h)"
| "recent Program (FlashWrite a c # h) = (at_555 a \<and> c = 0xA0 \<and> recent CommandByte_2 h)"
| "recent ProductIdentification (FlashWrite a c # h) = (at_555 a \<and> c = 0x90 \<and> recent CommandByte_2 h)"
| "recent st h = False"

lemma flash_trace_recent: "flash_trace f0 h f \<Longrightarrow> recent (flashState f) h"
proof (induction rule: flash_trace.induct)
  case (traced_write h f a c f' u)
  then show ?case
    by (auto simp: flash_write_def at_555_def at_2AA_def split: if_splits)
next
  case (traced_read h f a f' d m)
  then show ?case by (auto simp: flash_read_def split: if_splits)
qed simp

lemma recent_CommandByte_1: "recent CommandByte_1 h \<longleftrightarrow> (\<exists>a h'. h = FlashWrite a 0xAA # h' \<and> at_555 a)"
  by (cases "(CommandByte_1, h)" rule: recent.cases) auto

lemma recent_CommandByte_2:
  "recent CommandByte_2 h \<longleftrightarrow> (\<exists>a h'. h = FlashWrite a 0x55 # h' \<and> at_2AA a \<and> recent CommandByte_1 h')"
  by (cases "(CommandByte_2, h)" rule: recent.cases) auto

lemma recent_CommandByte_3:
  "recent CommandByte_3 h \<longleftrightarrow> (\<exists>a h'. h = FlashWrite a 0x80 # h' \<and> at_555 a \<and> recent CommandByte_2 h')"
  by (cases "(CommandByte_3, h)" rule: recent.cases) auto

lemma recent_CommandByte_4:
  "recent CommandByte_4 h \<longleftrightarrow> (\<exists>a h'. h = FlashWrite a 0xAA # h' \<and> at_555 a \<and> recent CommandByte_3 h')"
  by (cases "(CommandByte_4, h)" rule: recent.cases) auto

lemma recent_CommandByte_5:
  "recent CommandByte_5 h \<longleftrightarrow> (\<exists>a h'. h = FlashWrite a 0x55 # h' \<and> at_2AA a \<and> recent CommandByte_4 h')"
  by (cases "(CommandByte_5, h)" rule: recent.cases) auto

lemma recent_Program:
  "recent Program h \<longleftrightarrow> (\<exists>a h'. h = FlashWrite a 0xA0 # h' \<and> at_555 a \<and> recent CommandByte_2 h')"
  by (cases "(Program, h)" rule: recent.cases) auto

lemmas recent_unlock = recent_CommandByte_1 recent_CommandByte_2 recent_CommandByte_3
  recent_CommandByte_4 recent_CommandByte_5 recent_Program

definition program_unlock :: "flash_access list \<Rightarrow> bool" where
  "program_unlock h \<longleftrightarrow> (\<exists>a1 a2 a3 h'. at_555 a1 \<and> at_2AA a2 \<and> at_555 a3 \<and>
     h = FlashWrite a3 0xA0 # FlashWrite a2 0x55 # FlashWrite a1 0xAA # h')"

definition erase_unlock :: "flash_access list \<Rightarrow> bool" where
  "erase_unlock h \<longleftrightarrow> (\<exists>a1 a2 a3 a4 a5 h'. at_555 a1 \<and> at_2AA a2 \<and> at_555 a3 \<and> at_555 a4 \<and> at_2AA a5 \<and>
     h = FlashWrite a5 0x55 # FlashWrite a4 0xAA # FlashWrite a3 0x80 # FlashWrite a2 0x55 #
         FlashWrite a1 0xAA # h')"

lemma recent_program_unlock: "recent Program h \<Longrightarrow> program_unlock h"
  by (auto simp: recent_unlock program_unlock_def)

lemma recent_erase_unlock: "recent CommandByte_5 h \<Longrightarrow> erase_unlock h"
  by (auto simp: recent_unlock erase_unlock_def)

lemma sector_start: "unat (flash_offset a AND 0x70000) = 0x10000 * (unat (flash_offset a) div 0x10000)"
proof -
  have "flash_offset a AND 0x70000 = push_bit 16 (drop_bit 16 (flash_offset a))"
  proof -
    have m: "(0x7FFFF :: u64) = mask 19" "(0x70000 :: u64) = mask 19 AND NOT (mask 16)"
      by (simp_all add: mask_numeral)
    show ?thesis unfolding flash_offset_def m by (rule bit_word_eqI) (auto simp: bit_simps)
  qed
  also have "push_bit 16 (drop_bit 16 (flash_offset a)) = flash_offset a div 0x10000 * 0x10000"
    by (simp add: push_bit_eq_mult drop_bit_eq_div)
  also have "unat \<dots> = 0x10000 * (unat (flash_offset a) div 0x10000)"
  proof -
    have "unat (flash_offset a) div 0x10000 * 0x10000 < 2 ^ 64"
      using flash_offset_less [of a] by (simp add: FLASH_SIZE_def)
    then show ?thesis by (simp add: unat_word_ariths unat_div)
  qed
  finally show ?thesis .
qed

lemma in_sector: "i \<in> {0x10000 * s ..< 0x10000 * s + 0x10000} \<longleftrightarrow> i div 0x10000 = (s :: nat)"
  by (auto simp: div_nat_eqI)

text \<open>
  C21. A write changes flash contents only as the program byte after the three unlock writes, or as an
  erase of the addressed sector or of the chip after the five erase unlock writes, in the immediate
  history of accesses.
\<close>

theorem contents_change_only_after_unlock:
  assumes "flash_trace f0 h f" and "flash_write f (flash_offset a) c = Inr (f', u)"
    and "flashMemory f' i \<noteq> flashMemory f i"
  shows "(program_unlock h \<and> i = unat (flash_offset a) \<and> flashMemory f' i = c) \<or>
    (erase_unlock h \<and> flashMemory f' i = 0xFF \<and>
       (c = 0x30 \<and> i div 0x10000 = unat (flash_offset a) div 0x10000 \<or> c = 0x10 \<and> at_555 (flash_offset a)))"
proof -
  have "recent (flashState f) h" using assms(1) by (rule flash_trace_recent)
  moreover have foot: "i \<in> flash_footprint (flashState f) (flash_offset a) c"
    and new: "flashMemory f' i = (if flashState f = Program then c else 0xFF)"
    using flash_write_effect [OF assms(2)] assms(3) by (metis)+
  ultimately show ?thesis
    using in_sector [of i "unat (flash_offset a) div 0x10000"]
    by (auto simp: flash_footprint_def sector_start at_555_def split: if_splits
        dest: recent_program_unlock recent_erase_unlock)
qed

section \<open>The commands do what they are for\<close>

fun flash_writes :: "flash \<Rightarrow> (u64 \<times> u8) list \<Rightarrow> flash result" where
  "flash_writes f [] = Inr f"
| "flash_writes f ((a, c) # ws) = and_then (flash_write f a c) (\<lambda>(f', u). flash_writes f' ws)"

theorem byte_program_command:
  assumes "flashState f = Read" and "at_555 a1" and "at_2AA a2" and "at_555 a3"
  shows "flash_writes f [(a1, 0xAA), (a2, 0x55), (a3, 0xA0), (a, v)] =
    Inr (f\<lparr>flashMemory := (flashMemory f)(unat a := v)\<rparr>)"
  using assms by (simp add: flash_write_def at_555_def at_2AA_def)

text \<open>
  C23. The six-write sector erase sets exactly the 64 KiB sector of the last address to 0xFF and the
  chip erase exactly the whole chip, and both leave the decoder ready.
\<close>

theorem erase_commands:
  assumes "flashState f = Read" and "at_555 a1" and "at_2AA a2" and "at_555 a3" and "at_555 a4" and "at_2AA a5"
  shows "flash_writes f [(a1, 0xAA), (a2, 0x55), (a3, 0x80), (a4, 0xAA), (a5, 0x55), (flash_offset a, 0x30)] =
      Inr (f\<lparr>flashMemory := \<lambda>i. if i div 0x10000 = unat (flash_offset a) div 0x10000 then 0xFF else flashMemory f i\<rparr>) \<and>
    flash_writes f [(a1, 0xAA), (a2, 0x55), (a3, 0x80), (a4, 0xAA), (a5, 0x55), (a3, 0x10)] =
      Inr (f\<lparr>flashMemory := \<lambda>i. if i < FLASH_SIZE then 0xFF else flashMemory f i\<rparr>)"
proof -
  have "erase (unat (flash_offset a AND 0x70000)) 0x10000 (flashMemory f) =
      (\<lambda>i. if i div 0x10000 = unat (flash_offset a) div 0x10000 then 0xFF else flashMemory f i)"
    using in_sector [of _ "unat (flash_offset a) div 0x10000"] by (auto simp: erase_def sector_start fun_eq_iff)
  then show ?thesis
    using assms by (simp add: flash_write_def at_555_def at_2AA_def erase_def FLASH_SIZE_def)
qed

section \<open>Product identification\<close>

lemma set_regions_Inr_nth:
  "set_regions accept [r, q] s = Inr s' \<Longrightarrow> memory_size r \<noteq> 0 \<Longrightarrow> memory_size q \<noteq> 0 \<Longrightarrow> s' = s(slot r \<mapsto> r, slot q \<mapsto> q)"
  by (auto simp: set_region_def result_simps split: if_splits)

theorem identification_read_restores_the_map:
  assumes "flashState (fb_flash b) = ProductIdentification" and "\<not> mmio_is_write x"
    and "flash_mmio accept ndebug b x = Inr (b', out)" and "mmio_data x \<noteq> []"
  shows "flashState (fb_flash b') = Read \<and> flashMemory (fb_flash b') = flashMemory (fb_flash b) \<and>
    fb_slots b' 4 = Some regionFlash \<and> fb_slots b' 5 = Some regionFlashAlias \<and>
    out ! 0 = (if bit (phys_addr x) 0 then 0xA4 else 0x01)"
proof -
  have odd: "flash_offset (phys_addr x) AND 1 \<noteq> 0 \<longleftrightarrow> bit (phys_addr x) 0"
    by (simp add: flash_offset_def bit0_cases bit_simps)
  from assms obtain s where s: "set_regions accept [regionFlash, regionFlashAlias] (fb_slots b) = Inr s"
    and b': "b' = \<lparr>fb_flash = (fb_flash b)\<lparr>flashState := Read\<rparr>, fb_slots = s\<rparr>"
    and out: "out = (mmio_data x)[0 := (if flash_offset (phys_addr x) AND 1 \<noteq> 0 then 0xA4 else 0x01)]"
    by (auto simp: flash_mmio_def flash_read_def Let_def result_simps)
  have "slot regionFlash = 4" "slot regionFlashAlias = 5" "memory_size regionFlash \<noteq> 0"
    "memory_size regionFlashAlias \<noteq> 0" by (simp_all add: region_defs)
  with set_regions_Inr_nth [OF s] have "s 4 = Some regionFlash" "s 5 = Some regionFlashAlias" by simp_all
  then show ?thesis using b' out odd assms(4) by simp
qed

text \<open>
  A reset command leaves identification mode as well, but does not map the flash again; after it
  no later read does.
\<close>

theorem reset_leaves_the_flash_unmapped:
  assumes "flashState (fb_flash b) = ProductIdentification"
    and "mmio_is_write x" and "mmio_len x = 1" and "mmio_data x ! 0 = 0xF0"
    and "\<not> mmio_is_write y"
  shows "\<exists>b'. flash_mmio accept ndebug b x = Inr (b', mmio_data x) \<and> fb_slots b' = fb_slots b \<and>
    flashState (fb_flash b') = Read \<and> flash_mmio accept ndebug b' y = Inr (b', mmio_data y)"
  using assms by (simp add: flash_mmio_def flash_write_def flash_read_def Let_def)

section \<open>The theorems at concrete inputs\<close>

definition blank_flash :: flash where
  "blank_flash = \<lparr>flashState = Read, flashMemory = (\<lambda>i. 0)\<rparr>"

lemma example_command_addresses [simp]:
  "at_555 0x555" "at_2AA 0x2AA" "flash_offset 0x555 = 0x555" "flash_offset 0x2AA = 0x2AA" "flash_offset 0x12345 = 0x12345"
  by (simp_all add: at_555_def at_2AA_def flash_offset_def)

text \<open>The decoder after the three bytes of the program command.\<close>

lemma example_program_trace:
  "flash_trace blank_flash [FlashWrite 0x555 0xA0, FlashWrite 0x2AA 0x55, FlashWrite 0x555 0xAA]
     (blank_flash\<lparr>flashState := Program\<rparr>)"
proof -
  note st = traced_write [where ?f0.0 = blank_flash]
  have "flash_trace blank_flash [] blank_flash" by (rule traced_start) (simp add: blank_flash_def)
  from st [OF this, of "0x555" "0xAA" "blank_flash\<lparr>flashState := CommandByte_1\<rparr>" False]
  have "flash_trace blank_flash [FlashWrite 0x555 0xAA] (blank_flash\<lparr>flashState := CommandByte_1\<rparr>)"
    by (simp add: flash_write_def blank_flash_def)
  from st [OF this, of "0x2AA" "0x55" "blank_flash\<lparr>flashState := CommandByte_2\<rparr>" False]
  have "flash_trace blank_flash [FlashWrite 0x2AA 0x55, FlashWrite 0x555 0xAA] (blank_flash\<lparr>flashState := CommandByte_2\<rparr>)"
    by (simp add: flash_write_def blank_flash_def)
  from st [OF this, of "0x555" "0xA0" "blank_flash\<lparr>flashState := Program\<rparr>" False]
  show ?thesis by (simp add: flash_write_def blank_flash_def)
qed

theorem contents_change_only_after_unlock_witness:
  "\<exists>f' u. flash_write (blank_flash\<lparr>flashState := Program\<rparr>) (flash_offset 0x12345) 0x7E = Inr (f', u) \<and>
     flashMemory f' 0x12345 = 0x7E"
proof -
  obtain f' where w: "flash_write (blank_flash\<lparr>flashState := Program\<rparr>) (flash_offset 0x12345) 0x7E = Inr (f', False)"
    and "flashMemory f' 0x12345 \<noteq> flashMemory (blank_flash\<lparr>flashState := Program\<rparr>) 0x12345"
    by (simp add: flash_write_def blank_flash_def)
  from contents_change_only_after_unlock [OF example_program_trace this] w
  show ?thesis by (auto simp: erase_unlock_def)
qed

theorem byte_program_command_witness:
  "flash_writes blank_flash [(0x555, 0xAA), (0x2AA, 0x55), (0x555, 0xA0), (0x12345, 0x7E)] =
     Inr (blank_flash\<lparr>flashMemory := (flashMemory blank_flash)(0x12345 := 0x7E)\<rparr>)"
  using byte_program_command [of blank_flash "0x555" "0x2AA" "0x555" "0x12345" "0x7E"] by (simp add: blank_flash_def)

theorem erase_commands_witness:
  "flash_writes blank_flash [(0x555, 0xAA), (0x2AA, 0x55), (0x555, 0x80), (0x555, 0xAA), (0x2AA, 0x55), (0x555, 0x10)] =
     Inr (blank_flash\<lparr>flashMemory := \<lambda>i. if i < FLASH_SIZE then 0xFF else flashMemory blank_flash i\<rparr>)"
  using erase_commands [of blank_flash "0x555" "0x2AA" "0x555" "0x555" "0x2AA" 0] by (simp add: blank_flash_def)

definition identifying_board :: flash_board where
  "identifying_board = \<lparr>fb_flash = blank_flash\<lparr>flashState := ProductIdentification\<rparr>, fb_slots = Map.empty\<rparr>"

definition flash_exit :: "u64 \<Rightarrow> bool \<Rightarrow> u8 \<Rightarrow> mmio_exit" where
  "flash_exit a w v = \<lparr>phys_addr = a, mmio_is_write = w, mmio_len = 1, mmio_data = v # replicate 7 0\<rparr>"

theorem identification_read_restores_the_map_witness:
  "\<exists>b out. flash_mmio (\<lambda>_. True) False identifying_board (flash_exit 0x3400001 False 0) = Inr (b, out) \<and>
     fb_slots b 4 = Some regionFlash \<and> out ! 0 = 0xA4"
proof -
  have one: "bit (0x3400001 :: u64) 0" by simp
  obtain b out where r: "flash_mmio (\<lambda>_. True) False identifying_board (flash_exit 0x3400001 False 0) = Inr (b, out)"
    by (simp add: flash_mmio_def flash_read_def identifying_board_def flash_exit_def set_region_def region_defs)
  show ?thesis
    using identification_read_restores_the_map [OF _ _ r] r one
    by (simp add: identifying_board_def flash_exit_def)
qed

theorem reset_leaves_the_flash_unmapped_witness:
  "\<exists>b. flash_mmio (\<lambda>_. True) False identifying_board (flash_exit 0x3400000 True 0xF0) =
      Inr (b, mmio_data (flash_exit 0x3400000 True 0xF0)) \<and> fb_slots b = Map.empty"
  using reset_leaves_the_flash_unmapped [of identifying_board "flash_exit 0x3400000 True 0xF0"
      "flash_exit 0x3400000 False 0" "\<lambda>_. True" False]
  by (auto simp: identifying_board_def flash_exit_def)

end
