(* ===== verification/Address_Range.thy ===== *)
theory Address_Range
  imports Prelude
begin

text \<open>
  \<open>AddressRange\<close> (src/AddressRange.hpp) and the two operations the emulator uses of a
  \<open>std::map\<close> keyed by it: \<open>find\<close> and \<open>emplace\<close> (and the initialiser list, which emplaces its
  entries in order). A \<open>std::map\<close> only compares keys; two keys neither of which is less than the
  other count as the same key, so looking a port up with a range of length one finds the range
  that contains it. The locale \<open>ordered_keys\<close> states what the comparison must satisfy for that;
  it is interpreted on \<open>range_less\<close> for ranges that are not empty and do not wrap around.
\<close>

section \<open>Address ranges\<close>

record addr_range =
  ar_start :: u64
  ar_length :: u64

definition range_less :: "addr_range \<Rightarrow> addr_range \<Rightarrow> bool" where
  "range_less l r \<longleftrightarrow> ar_start l + ar_length l - 1 < ar_start r"

definition range_at :: "u64 \<Rightarrow> addr_range" where
  "range_at s = \<lparr>ar_start = s, ar_length = 1\<rparr>"

definition range_from :: "u64 \<Rightarrow> u64 \<Rightarrow> addr_range" where
  "range_from s n = \<lparr>ar_start = s, ar_length = n\<rparr>"

text \<open>A range the comparison is meant for: at least one address, and its last address is one.\<close>

definition range_ok :: "addr_range \<Rightarrow> bool" where
  "range_ok r \<longleftrightarrow> 0 < ar_length r \<and> unat (ar_start r) + unat (ar_length r) \<le> 2 ^ 64"

definition in_range :: "u64 \<Rightarrow> addr_range \<Rightarrow> bool" where
  "in_range p r \<longleftrightarrow> unat (ar_start r) \<le> unat p \<and> unat p < unat (ar_start r) + unat (ar_length r)"

section \<open>The ordered map\<close>

text \<open>
  The entries in key order. \<open>find\<close> takes the lower bound (the first entry whose key is not less
  than the one searched for) and accepts it when the searched key is not less than it;
  \<open>emplace\<close> inserts before the lower bound, unless that has an equivalent key.
\<close>

fun lower_bound :: "('k \<Rightarrow> 'k \<Rightarrow> bool) \<Rightarrow> 'k \<Rightarrow> ('k \<times> 'v) list \<Rightarrow> ('k \<times> 'v) list" where
  "lower_bound lt k [] = []"
| "lower_bound lt k ((x, v) # m) = (if lt x k then lower_bound lt k m else (x, v) # m)"

definition map_find :: "('k \<Rightarrow> 'k \<Rightarrow> bool) \<Rightarrow> 'k \<Rightarrow> ('k \<times> 'v) list \<Rightarrow> 'v option" where
  "map_find lt k m =
     (case lower_bound lt k m of [] \<Rightarrow> None | (x, v) # _ \<Rightarrow> if lt k x then None else Some v)"

fun map_emplace :: "('k \<Rightarrow> 'k \<Rightarrow> bool) \<Rightarrow> 'k \<Rightarrow> 'v \<Rightarrow> ('k \<times> 'v) list \<Rightarrow> ('k \<times> 'v) list" where
  "map_emplace lt k v [] = [(k, v)]"
| "map_emplace lt k v ((x, w) # m) =
     (if lt x k then (x, w) # map_emplace lt k v m
      else if lt k x then (k, v) # (x, w) # m else (x, w) # m)"

definition map_of_entries :: "('k \<Rightarrow> 'k \<Rightarrow> bool) \<Rightarrow> ('k \<times> 'v) list \<Rightarrow> ('k \<times> 'v) list" where
  "map_of_entries lt es = fold (\<lambda>(k, v). map_emplace lt k v) es []"

section \<open>What the comparison must satisfy\<close>

text \<open>
  \<open>ok\<close> marks the keys that may be stored, \<open>probe\<close> those that may be searched for. A probe may
  be equivalent to one stored key only, which is what \<open>lt_probe\<close> says.
\<close>

locale ordered_keys =
  fixes lt :: "'k \<Rightarrow> 'k \<Rightarrow> bool"
    and ok :: "'k \<Rightarrow> bool"
    and probe :: "'k \<Rightarrow> bool"
  assumes lt_irrefl: "ok x \<Longrightarrow> \<not> lt x x"
    and lt_trans: "ok x \<Longrightarrow> ok y \<Longrightarrow> ok z \<Longrightarrow> lt x y \<Longrightarrow> lt y z \<Longrightarrow> lt x z"
    and lt_probe: "ok x \<Longrightarrow> ok y \<Longrightarrow> probe k \<Longrightarrow> lt x y \<Longrightarrow> \<not> lt k y \<Longrightarrow> lt x k"
begin

definition table_inv :: "('k \<times> 'v) list \<Rightarrow> bool" where
  "table_inv m \<longleftrightarrow> (\<forall>(k, v) \<in> set m. ok k) \<and> sorted_wrt (\<lambda>a b. lt (fst a) (fst b)) m"

definition equivalent :: "'k \<Rightarrow> 'k \<Rightarrow> bool" where
  "equivalent a b \<longleftrightarrow> \<not> lt a b \<and> \<not> lt b a"

lemma table_inv_Nil: "table_inv []"
  by (simp add: table_inv_def)

lemma table_inv_Cons:
  "table_inv ((x, v) # m) \<longleftrightarrow> ok x \<and> (\<forall>(k, w) \<in> set m. lt x k) \<and> table_inv m"
  by (auto simp: table_inv_def)

lemma set_emplace_subset: "set (map_emplace lt k v m) \<subseteq> insert (k, v) (set m)"
  by (induction m) (auto split: if_splits)

lemma emplace_inv: "table_inv m \<Longrightarrow> ok k \<Longrightarrow> table_inv (map_emplace lt k v m)"
proof (induction m)
  case Nil
  then show ?case by (simp add: table_inv_def)
next
  case (Cons e m)
  obtain x w where e: "e = (x, w)" by (cases e)
  have x: "ok x" and m: "table_inv m" and above: "\<And>k' w'. (k', w') \<in> set m \<Longrightarrow> lt x k' \<and> ok k'"
    using Cons.prems(1) by (auto simp: e table_inv_Cons table_inv_def)
  consider "lt x k" | "\<not> lt x k" "lt k x" | "\<not> lt x k" "\<not> lt k x" by blast
  then show ?case
  proof cases
    case 1
    have "\<And>k' w'. (k', w') \<in> set (map_emplace lt k v m) \<Longrightarrow> lt x k'"
      using 1 above set_emplace_subset [of k v m] by blast
    with 1 x show ?thesis using Cons.IH [OF m Cons.prems(2)] by (auto simp: e table_inv_Cons)
  next
    case 2
    then have "\<And>k' w'. (k', w') \<in> set m \<Longrightarrow> lt k k'"
      using above lt_trans [OF Cons.prems(2) x] by blast
    with 2 Cons.prems show ?thesis by (auto simp: e table_inv_Cons)
  next
    case 3
    with Cons.prems show ?thesis by (simp add: e)
  qed
qed

lemma entries_inv:
  assumes "\<forall>(k, v) \<in> set es. ok k"
  shows "table_inv (map_of_entries lt es)"
proof -
  have "table_inv m \<Longrightarrow> table_inv (fold (\<lambda>(k, v). map_emplace lt k v) es m)" for m
    using assms by (induction es arbitrary: m) (auto simp: emplace_inv)
  then show ?thesis by (simp add: map_of_entries_def table_inv_Nil)
qed

lemma find_sound:
  assumes "map_find lt k m = Some v"
  shows "\<exists>x. (x, v) \<in> set m \<and> equivalent x k"
proof -
  have lb: "lower_bound lt k m = (x, w) # r \<Longrightarrow> (x, w) \<in> set m \<and> \<not> lt x k" for x w r
    by (induction m) (auto split: if_splits)
  from assms show ?thesis
    by (auto simp: map_find_def equivalent_def split: list.splits prod.splits if_splits dest!: lb)
qed

lemma find_complete:
  "table_inv m \<Longrightarrow> probe k \<Longrightarrow> (x, v) \<in> set m \<Longrightarrow> equivalent x k \<Longrightarrow> map_find lt k m = Some v"
proof (induction m)
  case (Cons e m)
  obtain y w where e: "e = (y, w)" by (cases e)
  show ?case
  proof (cases "(x, v) = (y, w)")
    case True
    with Cons.prems show ?thesis by (simp add: e map_find_def equivalent_def)
  next
    case False
    with Cons.prems have "lt y x" and "ok y" and "ok x" and m: "table_inv m" and "(x, v) \<in> set m"
      by (auto simp: e table_inv_Cons table_inv_def)
    with Cons.prems have "lt y k" using lt_probe [of y x k] by (simp add: equivalent_def)
    then show ?thesis using Cons.IH [OF m Cons.prems(2)] Cons.prems(4) \<open>(x, v) \<in> set m\<close>
      by (simp add: e map_find_def)
  qed
qed simp

lemma find_iff:
  assumes "table_inv m" and "probe k"
  shows "map_find lt k m = Some v \<longleftrightarrow> (\<exists>x. (x, v) \<in> set m \<and> equivalent x k)"
  using find_sound [of k m v] find_complete [OF assms] by blast

lemma find_None_iff_absent:
  assumes "table_inv m" and "probe k"
  shows "map_find lt k m = None \<longleftrightarrow> (\<forall>(x, v) \<in> set m. \<not> equivalent x k)"
proof
  assume "map_find lt k m = None"
  then show "\<forall>(x, v) \<in> set m. \<not> equivalent x k" using find_complete [OF assms] by fastforce
next
  assume "\<forall>(x, v) \<in> set m. \<not> equivalent x k"
  then show "map_find lt k m = None" using find_sound [of k m] by (cases "map_find lt k m") fastforce+
qed

end

section \<open>Ranges are ordered keys\<close>

lemma range_ok_iff:
  "range_ok r \<longleftrightarrow> 0 < unat (ar_length r) \<and> unat (ar_start r) + unat (ar_length r) \<le> 2 ^ 64"
  by (simp add: range_ok_def word_less_nat_alt)

lemma range_last:
  assumes "range_ok r"
  shows "unat (ar_start r + ar_length r - 1) = unat (ar_start r) + unat (ar_length r) - 1"
proof -
  have len: "unat (ar_length r - 1) = unat (ar_length r) - 1"
    using assms unat_minus_one [of "ar_length r"] by (fastforce simp: range_ok_iff)
  have "ar_start r + ar_length r - 1 = ar_start r + (ar_length r - 1)" by simp
  also have "unat \<dots> = (unat (ar_start r) + (unat (ar_length r) - 1)) mod 2 ^ 64"
    by (simp only: unat_word_ariths len) simp
  also have "\<dots> = unat (ar_start r) + unat (ar_length r) - 1"
    using assms by (subst mod_less) (auto simp: range_ok_iff)
  finally show ?thesis .
qed

lemma range_less_iff:
  assumes "range_ok l"
  shows "range_less l r \<longleftrightarrow> unat (ar_start l) + unat (ar_length l) \<le> unat (ar_start r)"
  unfolding range_less_def word_less_nat_alt range_last [OF assms]
  using assms by (simp add: range_ok_iff) arith

lemma range_ok_at [simp]: "range_ok (range_at p)"
  using unat_bound [of p] by (simp add: range_ok_iff range_at_def)

interpretation ranges: ordered_keys range_less range_ok "\<lambda>k. ar_length k = 1"
proof unfold_locales
  fix x y z k :: addr_range
  show "range_ok x \<Longrightarrow> \<not> range_less x x"
    by (simp add: range_less_iff) (simp add: range_ok_iff)
  show "range_ok x \<Longrightarrow> range_ok y \<Longrightarrow> range_ok z \<Longrightarrow> range_less x y \<Longrightarrow> range_less y z \<Longrightarrow> range_less x z"
    by (simp add: range_less_iff)
  assume "range_ok x" "range_ok y" "ar_length k = 1" "range_less x y" "\<not> range_less k y"
  moreover from this(3) have "range_ok k"
    using unat_bound [of "ar_start k"] by (simp add: range_ok_iff)
  ultimately show "range_less x k" by (simp add: range_less_iff)
qed

lemma equivalent_at: "range_ok r \<Longrightarrow> ranges.equivalent r (range_at p) \<longleftrightarrow> in_range p r"
  by (simp add: ranges.equivalent_def range_less_iff) (auto simp: in_range_def range_at_def)

lemma range_find_iff:
  assumes "ranges.table_inv m"
  shows "map_find range_less (range_at p) m = Some v \<longleftrightarrow> (\<exists>r. (r, v) \<in> set m \<and> in_range p r)"
proof -
  have "\<And>r w. (r, w) \<in> set m \<Longrightarrow> range_ok r" using assms by (auto simp: ranges.table_inv_def)
  then show ?thesis
    using ranges.find_iff [OF assms, of "range_at p" v] equivalent_at by (fastforce simp: range_at_def)
qed

lemma range_find_None_iff:
  assumes "ranges.table_inv m"
  shows "map_find range_less (range_at p) m = None \<longleftrightarrow> (\<forall>(r, v) \<in> set m. \<not> in_range p r)"
proof -
  have "\<And>r w. (r, w) \<in> set m \<Longrightarrow> range_ok r" using assms by (auto simp: ranges.table_inv_def)
  then show ?thesis
    using ranges.find_None_iff_absent [OF assms, of "range_at p"] equivalent_at
    by (fastforce simp: range_at_def)
qed

end
