(* ===== verification/Io_Handlers.thy ===== *)
theory Io_Handlers
  imports Address_Range Build_Config
begin

text \<open>
  The static port handlers of src/main.cpp and the table \<open>ioHandlerTable\<close> they are found in
  (that of the disk only with \<open>VIRTUAL_DISK\<close>). The file-scope variables the handlers keep are the record \<open>board\<close>;
  \<open>data\<close> is the part of the KVM run page the exit refers to, and an access outside it is the
  error \<open>OutOfBounds\<close>. \<open>ndebug\<close> says whether the asserts are compiled away. What the handlers print is
  not modelled.
\<close>

section \<open>State\<close>

record board =
  timer_configuration :: u8
  a20register :: u8
  selectedDiskLBA :: u32
  updateDiskMapping :: bool

definition board_init :: board where
  "board_init = \<lparr>timer_configuration = 0, a20register = 2, selectedDiskLBA = 0, updateDiskMapping = False\<rparr>"

section \<open>Access to the exit's data\<close>

definition load8 :: "u8 list \<Rightarrow> u8 result" where
  "load8 buf = (if buf = [] then Inl OutOfBounds else Inr (buf ! 0))"

definition store8 :: "u8 \<Rightarrow> u8 list \<Rightarrow> u8 list result" where
  "store8 v buf = (if buf = [] then Inl OutOfBounds else Inr (buf[0 := v]))"

definition memset_zero :: "nat \<Rightarrow> u8 list \<Rightarrow> u8 list result" where
  "memset_zero n buf = (if length buf < n then Inl OutOfBounds else Inr (replicate n 0 @ drop n buf))"

text \<open>\<open>memcpy(dst + off, src, n)\<close> for the objects \<open>dst\<close> and \<open>src\<close>.\<close>

definition memcpy_to :: "u8 list \<Rightarrow> nat \<Rightarrow> u8 list \<Rightarrow> nat \<Rightarrow> u8 list result" where
  "memcpy_to dst off src n =
     (if length dst < off + n \<or> length src < n then Inl OutOfBounds
      else Inr (take off dst @ take n src @ drop (off + n) dst))"

definition assert_single_byte :: "bool \<Rightarrow> nat \<Rightarrow> nat \<Rightarrow> unit result" where
  "assert_single_byte ndebug len count =
     and_then (c_assert ndebug (len = 1)) (\<lambda>_. c_assert ndebug (count = 1))"

section \<open>The handlers\<close>

type_synonym handler = "bool \<Rightarrow> u16 \<Rightarrow> u8 list \<Rightarrow> nat \<Rightarrow> nat \<Rightarrow> board \<Rightarrow> (board \<times> u8 list) result"

definition handlerTimerConfiguration :: "bool \<Rightarrow> handler" where
  "handlerTimerConfiguration ndebug is_write addr data len count b =
     and_then (assert_single_byte ndebug len count) (\<lambda>_.
       if is_write then and_then (load8 data) (\<lambda>v. Inr (b\<lparr>timer_configuration := v\<rparr>, data))
       else and_then (store8 (timer_configuration b) data) (\<lambda>data'. Inr (b, data')))"

definition handlerPOSTCode :: "bool \<Rightarrow> handler" where
  "handlerPOSTCode ndebug is_write addr data len count b =
     and_then (assert_single_byte ndebug len count) (\<lambda>_.
       if is_write then and_then (load8 data) (\<lambda>_. Inr (b, data)) else Inr (b, data))"

definition handlerKeyboard :: handler where
  "handlerKeyboard is_write addr data len count b =
     (if \<not> is_write then and_then (store8 0 data) (\<lambda>data'. Inr (b, data')) else Inr (b, data))"

definition handlerUnhandled :: handler where
  "handlerUnhandled is_write addr data len count b =
     (if is_write \<and> count = 1 then
        if len \<in> {1, 2, 4, 8} \<and> length data < len then Inl OutOfBounds else Inr (b, data)
      else and_then (memset_zero len data) (\<lambda>data'. Inr (b, data')))"

definition handlerLCD :: handler where
  "handlerLCD is_write addr data len count b = Inr (b, data)"

text \<open>Six of the handlers answer every read with a fixed byte and ignore writes.\<close>

definition reads_constant :: "u8 \<Rightarrow> bool \<Rightarrow> handler" where
  "reads_constant v ndebug is_write addr data len count b =
     and_then (assert_single_byte ndebug len count) (\<lambda>_.
       if \<not> is_write then and_then (store8 v data) (\<lambda>data'. Inr (b, data')) else Inr (b, data))"

definition handlerProductCode :: "bool \<Rightarrow> handler" where
  "handlerProductCode = reads_constant 0x01"

definition handlerOptionCode :: "bool \<Rightarrow> handler" where
  "handlerOptionCode = reads_constant 0x00"

definition handlerJumperRegister :: "bool \<Rightarrow> handler" where
  "handlerJumperRegister = reads_constant 0x02"

definition handlerManufacturerSpecific :: "bool \<Rightarrow> handler" where
  "handlerManufacturerSpecific = reads_constant 0x00"

definition handlerPort1Pin :: "bool \<Rightarrow> handler" where
  "handlerPort1Pin = reads_constant 0x80"

definition handlerPort3Pin :: "bool \<Rightarrow> handler" where
  "handlerPort3Pin = reads_constant 0x04"

definition handlerA20Gate :: "bool \<Rightarrow> handler" where
  "handlerA20Gate ndebug is_write addr data len count b =
     and_then (assert_single_byte ndebug len count) (\<lambda>_.
       if is_write then and_then (load8 data) (\<lambda>v. Inr (b\<lparr>a20register := v\<rparr>, data))
       else and_then (store8 (a20register b) data) (\<lambda>data'. Inr (b, data')))"

text \<open>The bytes of \<open>selectedDiskLBA\<close> in memory, on a little-endian host.\<close>

definition lba_bytes :: "u32 \<Rightarrow> u8 list" where
  "lba_bytes w = le_bytes 4 (unat w)"

definition lba_of_bytes :: "u8 list \<Rightarrow> u32" where
  "lba_of_bytes bs = word_of_nat (le_val bs)"

definition handlerDiskRegisters :: "bool \<Rightarrow> handler" where
  "handlerDiskRegisters ndebug is_write addr data len count b =
     and_then (c_assert ndebug (count = 1)) (\<lambda>_.
       if is_write then
         if addr AND 0x07 < 4 then
           and_then (memcpy_to (lba_bytes (selectedDiskLBA b)) (unat (addr AND 0x03)) data len)
             (\<lambda>bs. Inr (b\<lparr>selectedDiskLBA := lba_of_bytes bs\<rparr>, data))
         else Inr (b\<lparr>updateDiskMapping := True\<rparr>, data)
       else
         and_then (memcpy_to data 0 (drop (unat (addr AND 0x03)) (lba_bytes (selectedDiskLBA b))) len)
           (\<lambda>data'. Inr (b, data')))"

section \<open>The handler table\<close>

text \<open>A function pointer is the name of the handler it points to.\<close>

datatype io_handler = Keyboard | LCD | ProductCode | OptionCode | JumperRegister | POSTCode | A20Gate
  | ManufacturerSpecific | DiskRegisters | TimerConfiguration | Port1Pin | Port3Pin | Unhandled

fun call_handler :: "bool \<Rightarrow> io_handler \<Rightarrow> handler" where
  "call_handler ndebug Keyboard = handlerKeyboard"
| "call_handler ndebug LCD = handlerLCD"
| "call_handler ndebug ProductCode = handlerProductCode ndebug"
| "call_handler ndebug OptionCode = handlerOptionCode ndebug"
| "call_handler ndebug JumperRegister = handlerJumperRegister ndebug"
| "call_handler ndebug POSTCode = handlerPOSTCode ndebug"
| "call_handler ndebug A20Gate = handlerA20Gate ndebug"
| "call_handler ndebug ManufacturerSpecific = handlerManufacturerSpecific ndebug"
| "call_handler ndebug DiskRegisters = handlerDiskRegisters ndebug"
| "call_handler ndebug TimerConfiguration = handlerTimerConfiguration ndebug"
| "call_handler ndebug Port1Pin = handlerPort1Pin ndebug"
| "call_handler ndebug Port3Pin = handlerPort3Pin ndebug"
| "call_handler ndebug Unhandled = handlerUnhandled"

definition ioHandlerTable_entries :: "build \<Rightarrow> (addr_range \<times> io_handler) list" where
  "ioHandlerTable_entries bd =
    [(range_from 0x60 0x05, Keyboard),
     (range_from 0x72 0x02, LCD),
     (range_from 0x74 0x01, ProductCode),
     (range_from 0x75 0x01, OptionCode),
     (range_from 0x77 0x01, JumperRegister),
     (range_from 0x80 0x01, POSTCode),
     (range_from 0x92 0x01, A20Gate),
     (range_from 0x198 0x08, ManufacturerSpecific)] @
    (if VIRTUAL_DISK bd then [(range_from 0xD000 0x08, DiskRegisters)] else []) @
    [(range_from 0xF834 0x01, TimerConfiguration),
     (range_from 0xF860 0x01, Port1Pin),
     (range_from 0xF870 0x01, Port3Pin)]"

definition ioHandlerTable :: "build \<Rightarrow> (addr_range \<times> io_handler) list" where
  "ioHandlerTable bd = map_of_entries range_less (ioHandlerTable_entries bd)"

text \<open>The lookup of the run loop, and its fallback.\<close>

definition handler_for :: "build \<Rightarrow> u16 \<Rightarrow> io_handler" where
  "handler_for bd port =
     (case map_find range_less (range_at (ucast port)) (ioHandlerTable bd) of Some h \<Rightarrow> h | None \<Rightarrow> Unhandled)"

section \<open>The table holds what was written in it\<close>

lemma ioHandlerTable_set: "set (ioHandlerTable bd) = set (ioHandlerTable_entries bd)"
  by (cases "VIRTUAL_DISK bd") (simp_all add: ioHandlerTable_def ioHandlerTable_entries_def map_of_entries_def range_less_def range_from_def)

lemma ioHandlerTable_inv: "ranges.table_inv (ioHandlerTable bd)"
  unfolding ioHandlerTable_def
  by (rule ranges.entries_inv)
    (cases "VIRTUAL_DISK bd"; simp add: ioHandlerTable_entries_def range_ok_def range_from_def)

text \<open>The ports each handler is meant for.\<close>

fun serves :: "build \<Rightarrow> io_handler \<Rightarrow> nat \<Rightarrow> bool" where
  "serves bd Keyboard p \<longleftrightarrow> p \<in> {0x60..0x64}"
| "serves bd LCD p \<longleftrightarrow> p \<in> {0x72, 0x73}"
| "serves bd ProductCode p \<longleftrightarrow> p = 0x74"
| "serves bd OptionCode p \<longleftrightarrow> p = 0x75"
| "serves bd JumperRegister p \<longleftrightarrow> p = 0x77"
| "serves bd POSTCode p \<longleftrightarrow> p = 0x80"
| "serves bd A20Gate p \<longleftrightarrow> p = 0x92"
| "serves bd ManufacturerSpecific p \<longleftrightarrow> p \<in> {0x198..0x19F}"
| "serves bd DiskRegisters p \<longleftrightarrow> VIRTUAL_DISK bd \<and> p \<in> {0xD000..0xD007}"
| "serves bd TimerConfiguration p \<longleftrightarrow> p = 0xF834"
| "serves bd Port1Pin p \<longleftrightarrow> p = 0xF860"
| "serves bd Port3Pin p \<longleftrightarrow> p = 0xF870"
| "serves bd Unhandled p \<longleftrightarrow> p \<notin> {0x60..0x64} \<union> {0x72..0x75} \<union> {0x77, 0x80, 0x92} \<union> {0x198..0x19F} \<union>
     {0xF834, 0xF860, 0xF870} \<and> (VIRTUAL_DISK bd \<longrightarrow> p \<notin> {0xD000..0xD007})"

lemma port_key: "unat (ucast (p :: u16) :: u64) = unat p"
  by (simp add: unsigned_ucast_eq take_bit_nat_eq_self_iff unat_bound [THEN less_trans])

lemma table_entry_iff:
  "(\<exists>r. (r, h) \<in> set (ioHandlerTable bd) \<and> in_range (ucast (p :: u16)) r) \<longleftrightarrow> h \<noteq> Unhandled \<and> serves bd h (unat p)"
proof (cases h)
qed (auto simp: ioHandlerTable_set ioHandlerTable_entries_def in_range_def port_key range_from_def)

lemma ioHandlerTable_find:
  "map_find range_less (range_at (ucast (p :: u16))) (ioHandlerTable bd) = Some h \<longleftrightarrow> h \<noteq> Unhandled \<and> serves bd h (unat p)"
  by (simp add: range_find_iff [OF ioHandlerTable_inv] table_entry_iff)

lemma handler_for_iff: "handler_for bd p = h \<longleftrightarrow> serves bd h (unat p)"
proof (cases "map_find range_less (range_at (ucast p)) (ioHandlerTable bd)")
  case None
  then have none: "\<not> serves bd h' (unat p)" if "h' \<noteq> Unhandled" for h'
    using ioHandlerTable_find [of p bd h'] that by simp
  have "serves bd Unhandled (unat p)"
    using none [of Keyboard] none [of LCD] none [of ProductCode] none [of OptionCode]
      none [of JumperRegister] none [of POSTCode] none [of A20Gate] none [of ManufacturerSpecific]
      none [of DiskRegisters] none [of TimerConfiguration] none [of Port1Pin] none [of Port3Pin] by auto
  then show ?thesis using None none [of h] by (cases "h = Unhandled") (simp_all add: handler_for_def)
next
  case (Some k)
  then have k: "k \<noteq> Unhandled" "serves bd k (unat p)" by (simp_all add: ioHandlerTable_find)
  have "serves bd h (unat p) \<Longrightarrow> h = k"
  proof (cases "h = Unhandled")
    case True
    moreover assume "serves bd h (unat p)"
    ultimately show ?thesis using k by (cases k) auto
  next
    case False
    moreover assume "serves bd h (unat p)"
    ultimately show ?thesis using Some ioHandlerTable_find [of p bd h] by simp
  qed
  then show ?thesis using Some k by (auto simp: handler_for_def)
qed

theorem every_port_has_its_handler: "handler_for bd p = h \<longleftrightarrow> serves bd h (unat p)"
  by (rule handler_for_iff)

section \<open>Calls that return\<close>

lemma length_lba_bytes [simp]: "length (lba_bytes w) = 4"
  by (simp add: lba_bytes_def)

lemma memcpy_length: "memcpy_to dst off src n = Inr dst' \<Longrightarrow> length dst' = length dst"
  by (auto simp: memcpy_to_def split: if_splits)

lemma and_3_less: "unat (a AND 3 :: u16) < 4"
proof -
  have "a AND 3 \<le> 3" by (rule word_and_le1)
  then show ?thesis by (simp add: word_le_nat_alt)
qed

text \<open>The disk registers an access of \<open>len\<close> bytes reaches are those of the LBA register.\<close>

definition disk_access_ok :: "bool \<Rightarrow> u16 \<Rightarrow> nat \<Rightarrow> bool" where
  "disk_access_ok is_write addr len \<longleftrightarrow>
     (is_write \<and> \<not> addr AND 0x07 < 4) \<or> unat (addr AND 0x03) + len \<le> 4"

lemma disk_registers_bounds:
  assumes "len \<le> length data"
  shows "(\<exists>r. handlerDiskRegisters True is_write addr data len count b = Inr r) \<longleftrightarrow> disk_access_ok is_write addr len"
    and "\<not> disk_access_ok is_write addr len \<Longrightarrow>
      handlerDiskRegisters True is_write addr data len count b = Inl OutOfBounds"
  using assms and_3_less [of addr]
  by (auto simp: handlerDiskRegisters_def memcpy_to_def disk_access_ok_def)

text \<open>
  C39. An access to the disk registers stays inside the four bytes of the LBA register exactly when its
  offset plus its length is at most four, or it is a write to the mapping register.
\<close>

theorem disk_register_accesses_in_bounds:
  assumes "len \<le> length data"
  shows "(\<exists>r. handlerDiskRegisters True is_write addr data len count b = Inr r) \<longleftrightarrow> disk_access_ok is_write addr len"
  using assms by (rule disk_registers_bounds)

theorem disk_register_accesses_in_bounds_witness:
  "handlerDiskRegisters True True 0xD002 [1, 2, 3, 4] 4 1 board_init = Inl OutOfBounds \<and>
   \<not> (\<exists>r. handlerDiskRegisters True True 0xD002 [1, 2, 3, 4] 4 1 board_init = Inr r) \<and>
   (\<exists>r. handlerDiskRegisters True True 0xD000 [1, 2, 3, 4] 4 1 board_init = Inr r)"
  using disk_register_accesses_in_bounds [of 4 "[1, 2, 3, 4]" True "0xD002" 1 board_init]
    disk_register_accesses_in_bounds [of 4 "[1, 2, 3, 4]" True "0xD000" 1 board_init]
  by (simp add: disk_access_ok_def handlerDiskRegisters_def memcpy_to_def)

lemma handlers_return:
  assumes "0 < len" and "len \<le> length data" and "h = DiskRegisters \<Longrightarrow> disk_access_ok is_write addr len"
  shows "\<exists>b' data'. call_handler True h is_write addr data len count b = Inr (b', data') \<and>
    length data' = length data"
proof -
  have data: "data \<noteq> []" using assms by auto
  show ?thesis
  proof (cases "h = DiskRegisters")
    case True
    have "\<exists>r. handlerDiskRegisters True is_write addr data len count b = Inr r"
      using disk_registers_bounds(1) [OF assms(2)] assms(3) [OF True] by blast
    moreover have "length data' = length data"
      if "handlerDiskRegisters True is_write addr data len count b = Inr (b', data')" for b' data'
      using that by (auto simp: handlerDiskRegisters_def result_simps split: if_splits dest: memcpy_length)
    ultimately show ?thesis using True by (metis call_handler.simps(9) surj_pair)
  next
    case False
    then show ?thesis using assms(2) data
      by (cases h) (auto simp: handlerTimerConfiguration_def handlerPOSTCode_def handlerKeyboard_def
          handlerUnhandled_def handlerLCD_def handlerProductCode_def handlerOptionCode_def
          handlerJumperRegister_def handlerManufacturerSpecific_def handlerPort1Pin_def
          handlerPort3Pin_def reads_constant_def handlerA20Gate_def assert_single_byte_def
          load8_def store8_def memset_zero_def)
  qed
qed

text \<open>With the asserts compiled in, all but four of the handlers abort on a wider access.\<close>

definition single_byte :: "io_handler \<Rightarrow> bool" where
  "single_byte h \<longleftrightarrow> h \<notin> {Keyboard, LCD, DiskRegisters, Unhandled}"

theorem wide_access_aborts:
  assumes "single_byte h" and "len \<noteq> 1 \<or> count \<noteq> 1"
  shows "call_handler False h is_write addr data len count b = Inl AssertionFailed"
  using assms
  by (cases h) (auto simp: single_byte_def handlerTimerConfiguration_def handlerPOSTCode_def
      handlerProductCode_def handlerOptionCode_def handlerJumperRegister_def
      handlerManufacturerSpecific_def handlerPort1Pin_def handlerPort3Pin_def reads_constant_def
      handlerA20Gate_def assert_single_byte_def c_assert_def)

theorem wide_access_aborts_witness:
  "call_handler False A20Gate True 0x92 [2, 0] 2 1 board_init = Inl AssertionFailed"
  by (rule wide_access_aborts) (simp_all add: single_byte_def)

section \<open>The LBA register\<close>

lemma le_bytes_le_val: "length bs = n \<Longrightarrow> le_bytes n (le_val bs) = bs"
proof (induction bs arbitrary: n)
  case (Cons b bs)
  have "(word_of_nat (unat b + 256 * le_val bs) :: u8) = b"
  proof -
    have "(unat b + 256 * le_val bs) mod 256 = unat b" using unat_bound [of b] by simp
    then show ?thesis by (simp only: word_unat_eq_iff unat_of_nat) simp
  qed
  moreover have "(unat b + 256 * le_val bs) div 256 = le_val bs" using unat_bound [of b] by simp
  ultimately show ?case using Cons by auto
qed simp

lemma lba_bytes_of_bytes: "length bs = 4 \<Longrightarrow> lba_bytes (lba_of_bytes bs) = bs"
proof -
  assume len: "length bs = 4"
  then have "le_val bs < 2 ^ 32" using le_val_bound [of bs] by simp
  then have "unat (word_of_nat (le_val bs) :: u32) = le_val bs" by (simp add: unat_of_nat)
  then show ?thesis using len by (simp add: lba_bytes_def lba_of_bytes_def le_bytes_le_val)
qed

lemma lba_of_bytes_bytes: "lba_of_bytes (lba_bytes w) = w"
proof -
  have "unat w < 256 ^ 4" using unat_bound [of w] by simp
  then show ?thesis by (simp add: lba_bytes_def lba_of_bytes_def)
qed

definition disk_write8 :: "u16 \<Rightarrow> u8 \<Rightarrow> board \<Rightarrow> board" where
  "disk_write8 a v b = (case handlerDiskRegisters True True a [v] 1 1 b of Inr (b', _) \<Rightarrow> b' | Inl _ \<Rightarrow> b)"

definition disk_read8 :: "board \<Rightarrow> u16 \<Rightarrow> u8" where
  "disk_read8 b a = (case handlerDiskRegisters True False a [0] 1 1 b of Inr (_, d) \<Rightarrow> d ! 0 | Inl _ \<Rightarrow> 0)"

definition same_lba_byte :: "u16 \<Rightarrow> u16 \<Rightarrow> bool" where
  "same_lba_byte w r \<longleftrightarrow> w AND 0x07 < 4 \<and> w AND 0x03 = r AND 0x03"

lemma disk_read8_byte: "disk_read8 b a = lba_bytes (selectedDiskLBA b) ! unat (a AND 3)"
  using and_3_less [of a]
  by (simp add: disk_read8_def handlerDiskRegisters_def memcpy_to_def nth_append take_Suc_conv_app_nth)

lemma disk_write8_bytes:
  "lba_bytes (selectedDiskLBA (disk_write8 a v b)) =
     (if a AND 0x07 < 4 then (lba_bytes (selectedDiskLBA b))[unat (a AND 3) := v]
      else lba_bytes (selectedDiskLBA b))"
  using and_3_less [of a]
  by (simp add: disk_write8_def handlerDiskRegisters_def memcpy_to_def lba_bytes_of_bytes upd_conv_take_nth_drop)

interpretation lba_register: register_file disk_read8 disk_write8 "\<lambda>_. True" "\<lambda>_. True" same_lba_byte
proof unfold_locales
  fix b :: board and w r :: u16 and v :: u8
  show "same_lba_byte w r \<Longrightarrow> disk_read8 (disk_write8 w v b) r = v"
    using and_3_less [of r] by (simp add: disk_read8_byte disk_write8_bytes same_lba_byte_def)
  assume "\<not> same_lba_byte w r"
  moreover have "unat (w AND 3) = unat (r AND 3) \<longleftrightarrow> w AND 3 = r AND 3" by (simp add: word_unat_eq_iff)
  ultimately show "disk_read8 (disk_write8 w v b) r = disk_read8 b r"
    by (auto simp: disk_read8_byte disk_write8_bytes same_lba_byte_def)
qed simp

text \<open>The sector number is what the four bytes last written to the LBA register spell, low byte first.\<close>

lemma lba_spelled:
  "selectedDiskLBA b = lba_of_bytes (map (disk_read8 b) [0xD000, 0xD001, 0xD002, 0xD003])"
proof -
  let ?bs = "lba_bytes (selectedDiskLBA b)"
  have "map (disk_read8 b) [0xD000, 0xD001, 0xD002, 0xD003] = map ((!) ?bs) [0, 1, 2, 3]"
    by (simp add: disk_read8_byte)
  also have "\<dots> = ?bs"
    by (rule nth_equalityI) (auto simp: less_Suc_eq numeral_eq_Suc nth_Cons')
  finally show ?thesis by (simp add: lba_of_bytes_bytes)
qed

text \<open>A sector is selected by writing the four bytes of its number, in any order.\<close>

theorem sector_number_by_bytes:
  assumes "set ws = {(0xD000, v0), (0xD001, v1), (0xD002, v2), (0xD003, v3)}" and "distinct ws"
  shows "selectedDiskLBA (fold (\<lambda>(a, v). disk_write8 a v) ws b) = lba_of_bytes [v0, v1, v2, v3]"
proof -
  have rd: "disk_read8 (fold (\<lambda>(a, v). disk_write8 a v) ws b) a = v"
    if av: "(a, v) \<in> {(0xD000, v0), (0xD001, v1), (0xD002, v2), (0xD003, v3)}" for a v
  proof -
    let ?hit = "\<lambda>(w, u :: u8). same_lba_byte w a"
    have hits: "w = a \<and> u = v" if "(w, u) \<in> set ws" "same_lba_byte w a" for w u
      using that av assms(1) by (auto simp: same_lba_byte_def)
    have "same_lba_byte a a" using av by (auto simp: same_lba_byte_def)
    moreover have "(a, v) \<in> set ws" using av assms(1) by simp
    ultimately obtain x where x: "find ?hit (rev ws) = Some x"
      by (cases "find ?hit (rev ws)") (auto simp: find_None_iff)
    moreover obtain w u where "x = (w, u)" by (cases x)
    ultimately have "(w, u) \<in> set ws" "same_lba_byte w a" using find_SomeD [OF x] by simp_all
    with hits x \<open>x = (w, u)\<close> have "find ?hit (rev ws) = Some (a, v)" by simp
    then show ?thesis using lba_register.rd_fold_wr [where d = b and a = a and ws = ws] by simp
  qed
  show ?thesis
    using rd [of "0xD000" v0] rd [of "0xD001" v1] rd [of "0xD002" v2] rd [of "0xD003" v3]
    by (subst lba_spelled) simp
qed

theorem sector_number_by_bytes_witness:
  "selectedDiskLBA (fold (\<lambda>(a, v). disk_write8 a v) [(0xD003, 0), (0xD001, 2), (0xD000, 1), (0xD002, 0)] board_init) =
     lba_of_bytes [1, 2, 0, 0] \<and> lba_of_bytes [1, 2, 0, 0] = 0x201"
proof
  show "selectedDiskLBA (fold (\<lambda>(a, v). disk_write8 a v) [(0xD003, 0), (0xD001, 2), (0xD000, 1), (0xD002, 0)] board_init) =
     lba_of_bytes [1, 2, 0, 0]"
    by (rule sector_number_by_bytes) auto
qed (simp add: lba_of_bytes_def)

end
