(* ===== verification/Kvm_Machine.thy ===== *)
theory Kvm_Machine
  imports Interval_Timer Chip_Select_Unit Hex_Display Rtc_DS12887 Shared_Ports Flash_Disk Io_Handlers
begin

text \<open>
  The emulator as \<open>main\<close> puts it together (src/main.cpp): the table of port-mapped devices, the
  dispatch of a port access to a device or to a static handler, what the run loop does after a
  port access, and the loop itself over the exits of the virtual CPU. KVM and the C library are
  arguments: what a call of \<open>KVM_RUN\<close> returns is an element of a list, \<open>ambient\<close> holds what the
  devices ask the host during it, and \<open>kvm_env\<close> holds the build and says which memory requests succeed.
\<close>

section \<open>The machine\<close>

datatype device = PrescalerDev | ComDev nat | HexDev | CsuDev nat | RtcDev

record machine =
  m_prescaler :: "pit clock_prescaler"
  m_coms :: "port list"
  m_net :: port_world
  m_hex :: hex_display
  m_csus :: "csu list"
  m_rtc :: rtc
  m_board :: board
  m_memory :: flash_board
  m_disk :: "nat option"
  m_lastA20 :: u8
  m_requestExit :: bool

record ambient =
  am_now :: u64
  am_time :: tm
  am_settime :: "nat \<Rightarrow> nat option \<Rightarrow> nat option"

record kvm_env =
  ke_build :: build
  ke_accept :: "mem_region \<Rightarrow> bool"
  ke_munmap :: bool
  ke_mmap :: "nat \<Rightarrow> bool"

text \<open>
  The devices in the order \<open>main\<close> creates them. The prescaler's list of devices is empty; the serial
  ports are the four that \<open>start\<close> returned, and \<open>m_net\<close> is the event loop they share.
\<close>

definition chip_selects :: "csu list" where
  "chip_selects = replicate 7 csu_default @ [csu_init 0xFFFF 0xFF6F 0xFFFF 0xFFFF]"

definition machine_init :: "port list \<Rightarrow> port_world \<Rightarrow> u8 list option \<Rightarrow> flash \<Rightarrow> mem_slots \<Rightarrow> machine" where
  "machine_init coms w nvram f slots = \<lparr>m_prescaler = prescaler_init [], m_coms = coms, m_net = w, m_hex = [],
     m_csus = chip_selects, m_rtc = rtc_init nvram, m_board = board_init,
     m_memory = \<lparr>fb_flash = f, fb_slots = slots\<rparr>, m_disk = None, m_lastA20 = a20register board_init,
     m_requestExit = False\<rparr>"

section \<open>The device table\<close>

definition pioDeviceTable_entries :: "(addr_range \<times> device) list" where
  "pioDeviceTable_entries =
    [(range_from 0xF804 0x02, PrescalerDev),
     (range_from 0x03F8 0x08, ComDev 0),
     (range_from 0x02F8 0x08, ComDev 1),
     (range_from 0x03E8 0x08, ComDev 2),
     (range_from 0x02E8 0x08, ComDev 3),
     (range_from 0xE000 0x08, HexDev)] @
    map (\<lambda>i. (range_from (0xF400 + 0x08 * word_of_nat i) 0x08, CsuDev i)) [0..<8] @
    [(range_from 0x70 0x02, RtcDev)]"

definition pioDeviceTable :: "(addr_range \<times> device) list" where
  "pioDeviceTable = map_of_entries range_less pioDeviceTable_entries"

definition device_for :: "u16 \<Rightarrow> device option" where
  "device_for port = map_find range_less (range_at (ucast port)) pioDeviceTable"

section \<open>A port access\<close>

record io_exit =
  io_out :: bool
  io_port :: u16
  io_size :: nat
  io_count :: nat
  io_data :: "u8 list"

text \<open>Port \<open>i\<close> as its methods see it, and the machine after one of them.\<close>

definition line_of :: "machine \<Rightarrow> nat \<Rightarrow> line" where
  "line_of m i = attach (m_coms m ! i) (m_net m)"

definition put_line :: "nat \<Rightarrow> machine \<Rightarrow> line \<Rightarrow> machine" where
  "put_line i m l = m\<lparr>m_coms := (m_coms m)[i := detach l], m_net := net l\<rparr>"

definition on_device :: "'d pio_ops \<Rightarrow> 'd \<Rightarrow> ('d \<Rightarrow> machine) \<Rightarrow> io_exit \<Rightarrow> (machine \<times> u8 list) result" where
  "on_device ops d put x =
     and_then (performKVMExitOperation ops d (io_out x) (io_port x) (io_data x) (io_size x))
       (\<lambda>(d', buf). Inr (put d', buf))"

definition perform_device :: "ambient \<Rightarrow> device \<Rightarrow> io_exit \<Rightarrow> machine \<Rightarrow> (machine \<times> u8 list) result" where
  "perform_device am dev x m =
     (case dev of
        PrescalerDev \<Rightarrow> on_device (prescaler_ops (pit_setPrescaler (am_now am))) (m_prescaler m) (\<lambda>d. m\<lparr>m_prescaler := d\<rparr>) x
      | ComDev i \<Rightarrow> on_device (serial_ops (am_settime am)) (line_of m i) (put_line i m) x
      | HexDev \<Rightarrow> on_device hex_ops (m_hex m) (\<lambda>d. m\<lparr>m_hex := d\<rparr>) x
      | CsuDev i \<Rightarrow> on_device csu_ops (m_csus m ! i) (\<lambda>d. m\<lparr>m_csus := (m_csus m)[i := d]\<rparr>) x
      | RtcDev \<Rightarrow> on_device (rtc_ops (am_time am)) (m_rtc m) (\<lambda>d. m\<lparr>m_rtc := d\<rparr>) x)"

definition dispatch_io :: "build \<Rightarrow> ambient \<Rightarrow> io_exit \<Rightarrow> machine \<Rightarrow> (machine \<times> u8 list) result" where
  "dispatch_io bd am x m =
     (case device_for (io_port x) of
        Some dev \<Rightarrow> and_then (c_assert (NDEBUG bd) (io_count x = 1)) (\<lambda>_. perform_device am dev x m)
      | None \<Rightarrow>
          and_then (call_handler (NDEBUG bd) (handler_for bd (io_port x)) (io_out x) (io_port x) (io_data x)
                      (io_size x) (io_count x) (m_board m))
            (\<lambda>(b, data). Inr (m\<lparr>m_board := b\<rparr>, data)))"

text \<open>After the access: the A20 line, then the disk window.\<close>

definition set_slots :: "mem_slots \<Rightarrow> machine \<Rightarrow> machine" where
  "set_slots s m = m\<lparr>m_memory := (m_memory m)\<lparr>fb_slots := s\<rparr>\<rparr>"

definition check_a20 :: "kvm_env \<Rightarrow> machine \<Rightarrow> machine result" where
  "check_a20 ke m =
     and_then (update_a20 (ke_build ke) (ke_accept ke) (a20register (m_board m)) (m_lastA20 m) (fb_slots (m_memory m)))
       (\<lambda>(a, s). Inr ((set_slots s m)\<lparr>m_lastA20 := a\<rparr>))"

definition check_disk :: "kvm_env \<Rightarrow> machine \<Rightarrow> machine result" where
  "check_disk ke m =
     (if VIRTUAL_DISK (ke_build ke) \<and> updateDiskMapping (m_board m) then
        and_then (update_disk_window (ke_accept ke) (ke_munmap ke) (ke_mmap ke)
                    (selectedDiskLBA (m_board m)) (fb_slots (m_memory m)))
          (\<lambda>(off, s). Inr ((set_slots s m)\<lparr>m_disk := Some off,
             m_board := (m_board m)\<lparr>updateDiskMapping := False\<rparr>\<rparr>))
      else Inr m)"

definition handle_io :: "kvm_env \<Rightarrow> ambient \<Rightarrow> io_exit \<Rightarrow> machine \<Rightarrow> (machine \<times> u8 list) result" where
  "handle_io ke am x m =
     and_then (dispatch_io (ke_build ke) am x m) (\<lambda>(m1, data).
     and_then (check_a20 ke m1) (\<lambda>m2.
     and_then (check_disk ke m2) (\<lambda>m3. Inr (m3, data))))"

section \<open>The run loop\<close>

datatype kvm_exit = ExitHlt | ExitDebug | ExitIo io_exit | ExitMmio mmio_exit | ExitOther

text \<open>
  What \<open>KVM_RUN\<close> returns: an exit, \<open>EINTR\<close> (with whether the signal was \<open>SIGINT\<close>, whose handler sets
  \<open>requestExit\<close>), or another error.
\<close>

datatype run_result = Exited kvm_exit | Eintr bool | RunError

definition sigintHandler :: "machine \<Rightarrow> machine" where
  "sigintHandler m = m\<lparr>m_requestExit := True\<rparr>"

definition handle_exit :: "kvm_env \<Rightarrow> ambient \<Rightarrow> kvm_exit \<Rightarrow> machine \<Rightarrow> (machine \<times> u8 list) result" where
  "handle_exit ke am e m =
     (case e of
        ExitHlt \<Rightarrow> Inr (m\<lparr>m_requestExit := True\<rparr>, [])
      | ExitDebug \<Rightarrow> Inr (m, [])
      | ExitIo x \<Rightarrow> handle_io ke am x m
      | ExitMmio x \<Rightarrow> and_then (handle_mmio (ke_build ke) (ke_accept ke) (m_memory m) x)
          (\<lambda>(fb, data). Inr (m\<lparr>m_memory := fb\<rparr>, data))
      | ExitOther \<Rightarrow> Inl ExitFailure)"

text \<open>
  The loop over the results of the successive calls. The result says whether \<open>main\<close> has returned
  \<open>EXIT_SUCCESS\<close>, and holds the machine and the data handed back at each exit.
\<close>

fun run_loop :: "kvm_env \<Rightarrow> (ambient \<times> run_result) list \<Rightarrow> machine \<Rightarrow> (bool \<times> machine \<times> u8 list list) result" where
  "run_loop ke [] m = Inr (m_requestExit m, m, [])"
| "run_loop ke ((am, r) # rs) m =
     (if m_requestExit m then Inr (True, m, [])
      else case r of
        Eintr sigint \<Rightarrow> run_loop ke rs (if sigint then sigintHandler m else m)
      | RunError \<Rightarrow> Inr (True, m, [])
      | Exited e \<Rightarrow>
          and_then (handle_exit ke am e m) (\<lambda>(m', data).
          and_then (run_loop ke rs m') (\<lambda>(stopped, m'', outs). Inr (stopped, m'', data # outs))))"

section \<open>The tables\<close>

lemma chip_select_ranges:
  "map (\<lambda>i. (range_from (0xF400 + 0x08 * word_of_nat i) 0x08, CsuDev i)) [0..<8] =
    [(range_from 0xF400 8, CsuDev 0), (range_from 0xF408 8, CsuDev 1), (range_from 0xF410 8, CsuDev 2),
     (range_from 0xF418 8, CsuDev 3), (range_from 0xF420 8, CsuDev 4), (range_from 0xF428 8, CsuDev 5),
     (range_from 0xF430 8, CsuDev 6), (range_from 0xF438 8, CsuDev 7)]"
  by (simp add: upt_rec)

lemmas device_entries = pioDeviceTable_entries_def [unfolded chip_select_ranges, simplified append.simps]

lemma pioDeviceTable_set: "set pioDeviceTable = set pioDeviceTable_entries"
  unfolding pioDeviceTable_def device_entries
  by (rule equalityI) (simp_all add: map_of_entries_def range_less_def range_from_def)

lemma pioDeviceTable_inv: "ranges.table_inv pioDeviceTable"
  unfolding pioDeviceTable_def
  by (rule ranges.entries_inv) (unfold device_entries, simp add: range_ok_def range_from_def)

fun device_ports :: "device \<Rightarrow> nat set" where
  "device_ports PrescalerDev = {0xF804, 0xF805}"
| "device_ports (ComDev i) = (if i = 0 then {0x3F8..0x3FF} else if i = 1 then {0x2F8..0x2FF}
     else if i = 2 then {0x3E8..0x3EF} else if i = 3 then {0x2E8..0x2EF} else {})"
| "device_ports HexDev = {0xE000..0xE007}"
| "device_ports (CsuDev i) = (if i < 8 then {0xF400 + 8 * i..0xF407 + 8 * i} else {})"
| "device_ports RtcDev = {0x70, 0x71}"

lemma device_entry_ports:
  "(\<exists>r. (r, d) \<in> set pioDeviceTable_entries \<and> in_range (ucast (p :: u16)) r) \<longleftrightarrow> unat p \<in> device_ports d"
proof -
  have ex: "(\<exists>r. (r, d) \<in> set es \<and> in_range (ucast p) r) \<longleftrightarrow>
      list_ex (\<lambda>(r, e). e = d \<and> unat (ar_start r) \<le> unat p \<and> unat p < unat (ar_start r) + unat (ar_length r)) es"
    for d and es :: "(addr_range \<times> device) list"
    by (induction es) (auto simp: in_range_def port_key)
  show ?thesis
  proof (cases d)
    case (CsuDev i)
    show ?thesis
    proof (cases "i < 8")
      case True
      then have "i \<in> {0, 1, 2, 3, 4, 5, 6, 7}" by auto
      then show ?thesis unfolding CsuDev ex device_entries by (elim insertE; simp add: range_from_def; arith)
    qed (simp add: CsuDev ex device_entries)
  next
    case (ComDev i)
    then show ?thesis unfolding ex device_entries by (simp add: range_from_def) arith
  qed (auto simp: device_entries range_from_def in_range_def port_key)
qed

lemma device_for_iff: "device_for p = Some d \<longleftrightarrow> unat p \<in> device_ports d"
  by (simp add: device_for_def range_find_iff [OF pioDeviceTable_inv] pioDeviceTable_set device_entry_ports)

text \<open>A static handler is never hidden behind a device.\<close>

lemma device_ports_static:
  assumes "p \<in> device_ports d"
  shows "serves bd Unhandled p"
proof (cases d)
  case (CsuDev i)
  then show ?thesis using assms by (auto split: if_splits)
next
  case (ComDev i)
  then show ?thesis using assms by (auto split: if_splits)
qed (use assms in auto)

text \<open>
  C5. The lookups in the two std::map tables, keyed by address ranges under the interval order, find
  for each of the 65536 ports exactly the device whose range holds it, and no port with a static
  handler is shadowed by a device.
\<close>

theorem every_port_has_its_device:
  "(device_for p = Some d \<longleftrightarrow> unat p \<in> device_ports d) \<and>
   (handler_for bd p = Unhandled \<or> device_for p = None)"
proof -
  have "serves bd Unhandled (unat p)" if "device_for p = Some e" for e
    using that device_ports_static by (simp add: device_for_iff)
  then have "handler_for bd p = Unhandled \<or> device_for p = None"
    by (cases "device_for p") (simp_all add: handler_for_iff)
  then show ?thesis using device_for_iff by blast
qed

section \<open>The invariant of the machine\<close>

definition device_inv :: "machine \<Rightarrow> bool" where
  "device_inv m \<longleftrightarrow> cp_devices (m_prescaler m) = [] \<and> length (m_coms m) = 4 \<and> list_all port_inv (m_coms m) \<and>
     ports_inv (m_coms m) (m_net m) \<and>
     hex_inv (m_hex m) \<and> length (m_csus m) = 8 \<and> rtc_inv (m_rtc m)"

definition memory_inv :: "build \<Rightarrow> machine \<Rightarrow> bool" where
  "memory_inv bd m \<longleftrightarrow> slots_inv bd (fb_slots (m_memory m)) \<and> fb_slots (m_memory m) 0 = Some regionRam \<and>
     a20_consistent bd (m_lastA20 m) (fb_slots (m_memory m)) \<and>
     fb_slots (m_memory m) 7 =
       (if \<not> VIRTUAL_DISK bd then None
        else Some (if m_disk m = None then regionOptionRom_Boot else regionOptionRom_Disk))"

text \<open>Between two exits, no change of the memory map is outstanding.\<close>

definition settled :: "machine \<Rightarrow> bool" where
  "settled m \<longleftrightarrow> m_lastA20 m AND 2 = a20register (m_board m) AND 2 \<and> \<not> updateDiskMapping (m_board m)"

definition machine_inv :: "build \<Rightarrow> machine \<Rightarrow> bool" where
  "machine_inv bd m \<longleftrightarrow> device_inv m \<and> memory_inv bd m \<and> settled m"

lemma machine_inv_request: "machine_inv bd (m\<lparr>m_requestExit := b\<rparr>) \<longleftrightarrow> machine_inv bd m"
  by (simp add: machine_inv_def device_inv_def memory_inv_def settled_def)

lemma machine_inv_sigint [simp]: "machine_inv bd (sigintHandler m) \<longleftrightarrow> machine_inv bd m"
  by (simp add: sigintHandler_def machine_inv_request)

lemma sigint_memory [simp]: "m_memory (sigintHandler m) = m_memory m"
  by (simp add: sigintHandler_def)

lemma machine_init_inv:
  assumes "build_ok bd" and "length coms = 4" and "list_all port_inv coms" and "ports_inv coms w"
  shows "machine_inv bd (machine_init coms w nvram f (initial_slots bd))"
proof -
  have "a20_consistent bd (a20register board_init) (initial_slots bd)"
    by (simp add: a20_consistent_def a20_region_def board_init_def initial_slots_def)
  then show ?thesis
    using assms initial_slots_inv [OF assms(1)]
    by (simp add: machine_inv_def device_inv_def memory_inv_def settled_def machine_init_def
        prescaler_init_def hex_inv_def chip_selects_def rtc_init_inv board_init_def)
      (simp add: initial_slots_def)
qed

section \<open>Dispatch\<close>

text \<open>Everything of the machine but one device.\<close>

definition same_but_devices :: "machine \<Rightarrow> machine \<Rightarrow> bool" where
  "same_but_devices m m' \<longleftrightarrow> m_net m' = m_net m \<and> m_board m' = m_board m \<and> m_memory m' = m_memory m \<and> m_disk m' = m_disk m \<and>
     m_lastA20 m' = m_lastA20 m \<and> m_requestExit m' = m_requestExit m"

fun device_exists :: "device \<Rightarrow> bool" where
  "device_exists (ComDev i) \<longleftrightarrow> i < 4"
| "device_exists (CsuDev i) \<longleftrightarrow> i < 8"
| "device_exists d \<longleftrightarrow> True"

lemma device_for_exists: "device_for p = Some d \<Longrightarrow> device_exists d"
  unfolding device_for_iff by (cases d) (auto split: if_splits)

lemma on_device_Inr:
  assumes "on_device ops d put x = Inr (m', buf)"
  shows "\<exists>d'. performKVMExitOperation ops d (io_out x) (io_port x) (io_data x) (io_size x) = Inr (d', buf) \<and> m' = put d'"
  using assms by (auto simp: on_device_def result_simps)

text \<open>\<open>main\<close> puts no device behind the prescaler, and none ever comes there.\<close>

interpretation idle_prescaler: pio_device "prescaler_ops setPrescaler" "\<lambda>c. cp_devices c = []" for setPrescaler
  by unfold_locales
    (auto simp: prescaler_ops_def DevicePio_def prescaler_iowrite8_def prescaler_iowrite16_def
      set_prescalers_def result_simps)

text \<open>What a method of a port leaves behind fits the machine again.\<close>

lemma line_of_inv:
  assumes "device_inv m" and "i < length (m_coms m)"
  shows "net_inv (line_of m i)" and "tagged (fds (com (line_of m i))) (line_of m i)" and "port_inv (line_of m i)"
    and "self (com (line_of m i)) = i"
proof -
  have inv: "ports_inv (m_coms m) (m_net m)" using assms(1) by (simp add: device_inv_def)
  show "net_inv (line_of m i)" using ports_inv_net_inv [OF inv assms(2)] by (simp add: line_of_def)
  show "tagged (fds (com (line_of m i))) (line_of m i)" "self (com (line_of m i)) = i"
    using inv assms(2) by (simp_all add: ports_inv_def line_of_def)
  show "port_inv (line_of m i)" using assms by (simp add: device_inv_def list_all_length port_inv_def line_of_def)
qed

lemma put_line_inv:
  assumes "device_inv m" and "i < length (m_coms m)" and "own_change (line_of m i) l'" and "tagged (fds (com l')) l'"
    and "port_inv l'"
  shows "device_inv (put_line i m l')"
proof -
  have "ports_inv ((m_coms m)[i := detach l']) (net l')"
    by (rule ports_inv_step [OF _ assms(2) _ assms(4)]) (use assms(1,3) in \<open>simp_all add: device_inv_def line_of_def\<close>)
  then show ?thesis using assms(1,5) by (simp add: device_inv_def put_line_def list_all_update port_inv_def)
qed

lemma put_line_machine_inv:
  assumes "machine_inv bd m" and "device_inv (put_line i m l')"
  shows "machine_inv bd (put_line i m l')"
  using assms by (simp add: machine_inv_def memory_inv_def settled_def) (simp add: put_line_def)

lemma perform_device_inv:
  assumes "device_inv m" and "device_exists dev" and "perform_device am dev x m = Inr (m', buf)"
  shows "device_inv m' \<and> same_but_devices m m' \<and> length buf = length (io_data x)"
proof (cases dev)
  case PrescalerDev
  with assms(3) obtain d' where
    d': "performKVMExitOperation (prescaler_ops (pit_setPrescaler (am_now am))) (m_prescaler m)
      (io_out x) (io_port x) (io_data x) (io_size x) = Inr (d', buf)" and m': "m' = m\<lparr>m_prescaler := d'\<rparr>"
    by (auto simp: perform_device_def dest!: on_device_Inr)
  then show ?thesis
    using idle_prescaler.perform_inv [OF _ d'] idle_prescaler.perform_buffer [OF d'] assms(1)
    by (simp add: device_inv_def same_but_devices_def)
next
  case (ComDev i)
  with assms(3) obtain d' where
    d': "performKVMExitOperation (serial_ops (am_settime am)) (line_of m i)
      (io_out x) (io_port x) (io_data x) (io_size x) = Inr (d', buf)" and m': "m' = put_line i m d'"
    by (auto simp: perform_device_def dest!: on_device_Inr)
  note frame = com_access_frame [OF d']
  have i: "i < length (m_coms m)" using assms(1,2) ComDev by (simp add: device_inv_def)
  note l = line_of_inv [OF assms(1) i]
  have "own_step (line_of m i) d'" by (rule own_step_frame [OF l(1)]) (use frame in simp_all)
  moreover have "tagged (fds (com d')) d'" using l(2) frame tagged_cong [of d' "line_of m i"] by simp
  moreover have "port_inv d'" by (rule serial_device.perform_inv [OF l(3) d'])
  ultimately have "device_inv m'" unfolding m' using put_line_inv [OF assms(1) i] own_step_change by blast
  then show ?thesis
    using serial_device.perform_buffer [OF d'] frame
    by (simp add: same_but_devices_def m' put_line_def line_of_def)
next
  case HexDev
  with assms(3) obtain d' where
    d': "performKVMExitOperation hex_ops (m_hex m) (io_out x) (io_port x) (io_data x) (io_size x) = Inr (d', buf)"
      and m': "m' = m\<lparr>m_hex := d'\<rparr>"
    by (auto simp: perform_device_def dest!: on_device_Inr)
  then show ?thesis
    using hex_device.perform_inv [OF _ d'] hex_device.perform_buffer [OF d'] assms(1)
    by (simp add: device_inv_def same_but_devices_def)
next
  case (CsuDev i)
  with assms(3) obtain d' where
    d': "performKVMExitOperation csu_ops (m_csus m ! i) (io_out x) (io_port x) (io_data x) (io_size x) = Inr (d', buf)"
      and m': "m' = m\<lparr>m_csus := (m_csus m)[i := d']\<rparr>"
    by (auto simp: perform_device_def dest!: on_device_Inr)
  then show ?thesis
    using csu_device.perform_buffer [OF d'] assms(1) by (simp add: device_inv_def same_but_devices_def)
next
  case RtcDev
  with assms(3) obtain d' where
    d': "performKVMExitOperation (rtc_ops (am_time am)) (m_rtc m) (io_out x) (io_port x) (io_data x) (io_size x) = Inr (d', buf)"
      and m': "m' = m\<lparr>m_rtc := d'\<rparr>"
    by (auto simp: perform_device_def dest!: on_device_Inr)
  then show ?thesis
    using rtc_device.perform_inv [OF _ d'] rtc_device.perform_buffer [OF d'] assms(1)
    by (simp add: device_inv_def same_but_devices_def)
qed

lemma dispatch_inv:
  assumes "device_inv m" and "memory_inv bd m" and "dispatch_io bd am x m = Inr (m', buf)"
  shows "device_inv m' \<and> memory_inv bd m' \<and> m_memory m' = m_memory m \<and> m_disk m' = m_disk m"
proof (cases "device_for (io_port x)")
  case (Some dev)
  then have "perform_device am dev x m = Inr (m', buf)"
    using assms(3) by (auto simp: dispatch_io_def result_simps)
  from perform_device_inv [OF assms(1) device_for_exists [OF Some] this] assms(2)
  show ?thesis by (simp add: same_but_devices_def memory_inv_def)
next
  case None
  then obtain b where "m' = m\<lparr>m_board := b\<rparr>" using assms(3) by (auto simp: dispatch_io_def result_simps)
  then show ?thesis using assms(1,2) by (simp add: device_inv_def memory_inv_def)
qed

lemma check_a20_inv:
  assumes "device_inv m" and "memory_inv (ke_build ke) m" and "check_a20 ke m = Inr m'"
  shows "device_inv m' \<and> memory_inv (ke_build ke) m' \<and> m_board m' = m_board m \<and>
    m_lastA20 m' AND 2 = a20register (m_board m) AND 2 \<and> fb_flash (m_memory m') = fb_flash (m_memory m)"
proof -
  obtain a s where u: "update_a20 (ke_build ke) (ke_accept ke) (a20register (m_board m)) (m_lastA20 m) (fb_slots (m_memory m)) = Inr (a, s)"
    and m': "m' = (set_slots s m)\<lparr>m_lastA20 := a\<rparr>"
    using assms(3) by (auto simp: check_a20_def result_simps)
  have "slots_inv (ke_build ke) s" using update_a20_inv [OF _ u] assms(2) by (simp add: memory_inv_def)
  then show ?thesis
    using update_a20_consistent [OF _ u] assms(1,2)
    by (simp add: m' memory_inv_def device_inv_def set_slots_def)
qed

lemma check_disk_inv:
  assumes "device_inv m" and "memory_inv (ke_build ke) m" and "check_disk ke m = Inr m'"
    and "updateDiskMapping (m_board m) \<Longrightarrow> VIRTUAL_DISK (ke_build ke)"
  shows "device_inv m' \<and> memory_inv (ke_build ke) m' \<and> \<not> updateDiskMapping (m_board m') \<and>
    a20register (m_board m') = a20register (m_board m) \<and> m_lastA20 m' = m_lastA20 m \<and>
    fb_flash (m_memory m') = fb_flash (m_memory m)"
proof (cases "updateDiskMapping (m_board m)")
  case False
  then show ?thesis using assms by (simp add: check_disk_def)
next
  case True
  then have vd: "VIRTUAL_DISK (ke_build ke)" using assms(4) by simp
  then obtain off s where u: "update_disk_window (ke_accept ke) (ke_munmap ke) (ke_mmap ke)
        (selectedDiskLBA (m_board m)) (fb_slots (m_memory m)) = Inr (off, s)"
    and m': "m' = (set_slots s m)\<lparr>m_disk := Some off, m_board := (m_board m)\<lparr>updateDiskMapping := False\<rparr>\<rparr>"
    using assms(3) True by (auto simp: check_disk_def result_simps)
  have "slots_inv (ke_build ke) s" using update_disk_window_inv [OF _ vd u] assms(2) by (simp add: memory_inv_def)
  then show ?thesis
    using update_disk_window_Inr [OF u] assms(1,2) vd
    by (simp add: m' memory_inv_def device_inv_def set_slots_def a20_consistent_def)
qed

text \<open>Only the handler of the disk registers asks for a new window, and only such a build has it.\<close>

lemma handler_disk_request:
  assumes "call_handler nd h w a data len n b = Inr (b', data')" and "\<not> updateDiskMapping b" and "updateDiskMapping b'"
  shows "h = DiskRegisters \<and> w \<and> \<not> a AND 7 < 4 \<and> selectedDiskLBA b' = selectedDiskLBA b"
  using assms
  by (cases h) (auto simp: handlerTimerConfiguration_def handlerPOSTCode_def handlerKeyboard_def handlerUnhandled_def
      handlerLCD_def handlerProductCode_def handlerOptionCode_def handlerJumperRegister_def
      handlerManufacturerSpecific_def handlerPort1Pin_def handlerPort3Pin_def reads_constant_def
      handlerA20Gate_def handlerDiskRegisters_def result_simps split: if_splits)

lemma dispatch_disk_request:
  assumes "device_inv m" and "settled m" and "dispatch_io bd am x m = Inr (m', buf)" and "updateDiskMapping (m_board m')"
  shows "VIRTUAL_DISK bd"
proof (cases "device_for (io_port x)")
  case (Some dev)
  then have "perform_device am dev x m = Inr (m', buf)"
    using assms(3) by (auto simp: dispatch_io_def result_simps)
  from perform_device_inv [OF assms(1) device_for_exists [OF Some] this] assms(2,4)
  show ?thesis by (simp add: same_but_devices_def settled_def)
next
  case None
  then obtain b data where c: "call_handler (NDEBUG bd) (handler_for bd (io_port x)) (io_out x) (io_port x) (io_data x)
      (io_size x) (io_count x) (m_board m) = Inr (b, data)" and "m' = m\<lparr>m_board := b\<rparr>"
    using assms(3) by (auto simp: dispatch_io_def result_simps)
  then have "handler_for bd (io_port x) = DiskRegisters"
    using handler_disk_request [OF c] assms(2,4) by (simp add: settled_def)
  then have "serves bd DiskRegisters (unat (io_port x))" by (simp only: handler_for_iff)
  then show ?thesis by simp
qed

lemma settled_checks: "settled m \<Longrightarrow> check_a20 ke m = Inr m \<and> check_disk ke m = Inr m"
  by (simp add: check_a20_def update_a20_def check_disk_def settled_def set_slots_def)

lemma handle_io_inv:
  assumes "machine_inv (ke_build ke) m" and "handle_io ke am x m = Inr (m', buf)"
  shows "machine_inv (ke_build ke) m' \<and> fb_flash (m_memory m') = fb_flash (m_memory m)"
proof -
  obtain m1 m2 where m1: "dispatch_io (ke_build ke) am x m = Inr (m1, buf)" and m2: "check_a20 ke m1 = Inr m2"
    and m3: "check_disk ke m2 = Inr m'"
    using assms(2) by (auto simp: handle_io_def result_simps)
  have i1: "device_inv m1 \<and> memory_inv (ke_build ke) m1 \<and> m_memory m1 = m_memory m \<and> m_disk m1 = m_disk m"
    using dispatch_inv [OF _ _ m1] assms(1) by (simp add: machine_inv_def)
  have i2: "device_inv m2 \<and> memory_inv (ke_build ke) m2 \<and> m_board m2 = m_board m1 \<and>
      m_lastA20 m2 AND 2 = a20register (m_board m1) AND 2 \<and> fb_flash (m_memory m2) = fb_flash (m_memory m1)"
    using check_a20_inv [OF _ _ m2] i1 by simp
  have "updateDiskMapping (m_board m2) \<Longrightarrow> VIRTUAL_DISK (ke_build ke)"
    using dispatch_disk_request [OF _ _ m1] assms(1) i2 by (simp add: machine_inv_def)
  then show ?thesis using check_disk_inv [OF _ _ m3] i1 i2 by (simp add: machine_inv_def settled_def)
qed

lemma handle_exit_inv:
  assumes "machine_inv (ke_build ke) m" and "handle_exit ke am e m = Inr (m', buf)"
  shows "machine_inv (ke_build ke) m' \<and> fb_flash (m_memory m') = fb_flash (m_memory m)"
proof (cases e)
  case (ExitIo x)
  then show ?thesis using assms handle_io_inv by (simp add: handle_exit_def)
next
  case (ExitMmio x)
  then show ?thesis
    using assms
    by (simp add: handle_exit_def handle_mmio_def in_flash_window_False machine_inv_def device_inv_def
        memory_inv_def settled_def)
qed (use assms in \<open>auto simp: handle_exit_def machine_inv_def device_inv_def memory_inv_def settled_def\<close>)

lemma run_loop_inv:
  "machine_inv (ke_build ke) m \<Longrightarrow> run_loop ke rs m = Inr (stopped, m', outs) \<Longrightarrow>
     machine_inv (ke_build ke) m' \<and> fb_flash (m_memory m') = fb_flash (m_memory m)"
proof (induction rs arbitrary: m outs)
  case (Cons ar rs)
  obtain am r where ar: "ar = (am, r)" by (cases ar)
  show ?case
  proof (cases "m_requestExit m")
    case False
    show ?thesis
    proof (cases r)
      case (Exited e)
      then obtain m1 buf outs1 where h: "handle_exit ke am e m = Inr (m1, buf)"
        and "run_loop ke rs m1 = Inr (stopped, m', outs1)"
        using Cons.prems(2) False by (auto simp: ar result_simps)
      with Cons.IH [of m1] handle_exit_inv [OF Cons.prems(1) h] show ?thesis by fastforce
    next
      case (Eintr sigint)
      define m1 where "m1 = (if sigint then sigintHandler m else m)"
      have "machine_inv (ke_build ke) m1 \<and> m_memory m1 = m_memory m"
        using Cons.prems(1) by (simp add: m1_def)
      with Cons.IH [of m1] Cons.prems(2) Eintr False show ?thesis by (fastforce simp: ar m1_def)
    qed (use Cons.prems False in \<open>auto simp: ar\<close>)
  qed (use Cons.prems in \<open>auto simp: ar\<close>)
qed auto

section \<open>What the guest can rely on\<close>

theorem run_keeps_the_machine_consistent:
  assumes "build_ok (ke_build ke)" and "boot_slots (ke_build ke) accept = Inr s"
    and "length coms = 4" and "list_all port_inv coms" and "ports_inv coms w"
    and "run_loop ke rs (machine_init coms w nvram f s) = Inr (stopped, m, outs)"
  shows "machine_inv (ke_build ke) m"
proof -
  have "s = initial_slots (ke_build ke)" using assms(2) by (simp add: boot_slots_eq split: if_splits)
  then show ?thesis using run_loop_inv [OF machine_init_inv [OF assms(1,3-5)]] assms(6) by blast
qed

text \<open>
  C22. No run of the emulator ever changes the flash contents or its command state: the MMIO branch
  that decodes flash commands compares with 0x350000 where 0x3500000 is meant, and no address passes
  both tests.

  The flash chip cannot be programmed: its window is empty, so no execution reaches the command
  decoder, whatever the guest does.
\<close>

theorem flash_contents_never_change:
  assumes "machine_inv (ke_build ke) m" and "run_loop ke rs m = Inr (stopped, m', outs)"
  shows "fb_flash (m_memory m') = fb_flash (m_memory m)"
  using run_loop_inv [OF assms] by simp

definition byte_out :: "u16 \<Rightarrow> u8 \<Rightarrow> io_exit" where
  "byte_out port v = \<lparr>io_out = True, io_port = port, io_size = 1, io_count = 1, io_data = [v]\<rparr>"

definition byte_in :: "u16 \<Rightarrow> io_exit" where
  "byte_in port = \<lparr>io_out = False, io_port = port, io_size = 1, io_count = 1, io_data = [0]\<rparr>"

lemma no_device_for: "serves bd h (unat p) \<Longrightarrow> h \<noteq> Unhandled \<Longrightarrow> device_for p = None"
proof (rule ccontr)
  assume h: "serves bd h (unat p)" "h \<noteq> Unhandled" and "device_for p \<noteq> None"
  then obtain d where "unat p \<in> device_ports d" by (auto simp: device_for_iff)
  then have "handler_for bd p = Unhandled" using device_ports_static by (simp add: handler_for_iff)
  then show False using h by (simp add: handler_for_iff [symmetric])
qed

lemma dispatch_static:
  assumes "serves bd h (unat (io_port x))" and "h \<noteq> Unhandled"
  shows "dispatch_io bd am x m = and_then (call_handler (NDEBUG bd) h (io_out x) (io_port x) (io_data x)
      (io_size x) (io_count x) (m_board m)) (\<lambda>(b, data). Inr (m\<lparr>m_board := b\<rparr>, data))"
  using no_device_for [OF assms] assms(1) by (simp add: dispatch_io_def handler_for_iff [symmetric])

text \<open>
  C7. After a byte is written to port 0x92, guest addresses from 0x100000 up to the flash chip show the
  first 64 KiB of RAM, once, when bit 1 of the byte is clear, and the build's high memory, if it has
  any, when it is set; a read of the port returns the byte.

  The A20 port, from the guest's access to the address it then reaches.
\<close>

theorem a20_port_controls_the_wrap:
  assumes "machine_inv (ke_build ke) m" and "handle_io ke am (byte_out 0x92 v) m = Inr (m', buf)" and "x < 0x3300000"
  shows "guest_to_host (fb_slots (m_memory m')) (0x100000 + x) = above_one_megabyte (ke_build ke) (bit v 1) x \<and>
    (\<exists>m''. handle_io ke am (byte_in 0x92) m' = Inr (m'', [v]))"
proof -
  let ?bd = "ke_build ke"
  have "serves ?bd A20Gate (unat (0x92 :: u16))" by simp
  note static = dispatch_static [of ?bd A20Gate "byte_out 0x92 v" am m] dispatch_static [of ?bd A20Gate "byte_in 0x92" am m']
  have d: "dispatch_io ?bd am (byte_out 0x92 v) m = Inr (m\<lparr>m_board := (m_board m)\<lparr>a20register := v\<rparr>\<rparr>, [v])"
    by (subst static(1)) (simp_all add: byte_out_def handlerA20Gate_def assert_single_byte_def load8_def)
  obtain m2 where m2: "check_a20 ke (m\<lparr>m_board := (m_board m)\<lparr>a20register := v\<rparr>\<rparr>) = Inr m2"
    and m': "check_disk ke m2 = Inr m'" and buf: "buf = [v]"
    using assms(2) by (auto simp: handle_io_def d result_simps)
  have keep: "m_board m2 = (m_board m)\<lparr>a20register := v\<rparr>"
    using check_a20_inv [OF _ _ m2] assms(1) by (simp add: machine_inv_def device_inv_def memory_inv_def)
  then have "m' = m2" using m' assms(1) by (simp add: check_disk_def machine_inv_def settled_def)
  have inv: "machine_inv ?bd m'" using handle_io_inv [OF assms(1,2)] by simp
  have bit: "v AND 2 \<noteq> 0 \<longleftrightarrow> bit v 1" using and_exp_eq_0_iff_not_bit [of v 1] by simp
  have a20: "m_lastA20 m' AND 2 \<noteq> 0 \<longleftrightarrow> bit v 1"
    using inv keep \<open>m' = m2\<close> bit by (simp add: machine_inv_def settled_def)
  have "guest_to_host (fb_slots (m_memory m')) (0x100000 + x) = above_one_megabyte ?bd (bit v 1) x"
    using wrapped_address [of ?bd "fb_slots (m_memory m')" "m_lastA20 m'" x] inv assms(3) a20
    by (simp add: machine_inv_def memory_inv_def)
  moreover have "\<exists>m''. handle_io ke am (byte_in 0x92) m' = Inr (m'', [v])"
  proof -
    have r: "dispatch_io ?bd am (byte_in 0x92) m' = Inr (m', [v])"
      by (subst static(2))
        (simp_all add: byte_in_def handlerA20Gate_def assert_single_byte_def store8_def keep \<open>m' = m2\<close>)
    have "check_a20 ke m' = Inr m'"
      using inv by (simp add: check_a20_def update_a20_def machine_inv_def settled_def set_slots_def)
    then show ?thesis using inv r by (simp add: handle_io_def check_disk_def machine_inv_def settled_def)
  qed
  ultimately show ?thesis by blast
qed


text \<open>The chip select registers only take 16 bit accesses; a byte access ends the emulator.\<close>

theorem chip_select_byte_access_ends_the_emulator:
  assumes "unat port \<in> {0xF400..0xF43F}"
  shows "\<exists>msg. handle_io ke am (byte_out port v) m = Inl (ThrowRuntimeError msg) \<and>
    (\<exists>msg. handle_io ke am (byte_in port) m = Inl (ThrowRuntimeError msg))"
proof -
  define i where "i = (unat port - 0xF400) div 8"
  have "i < 8" "0xF400 + 8 * i \<le> unat port" "unat port \<le> 0xF407 + 8 * i" using assms unfolding i_def by auto
  then have "device_for port = Some (CsuDev i)" by (simp add: device_for_iff)
  then show ?thesis
    by (simp add: handle_io_def dispatch_io_def byte_out_def byte_in_def perform_device_def on_device_def
        performKVMExitOperation_def pio_write_def pio_read_def csu_ops_def DevicePio_def)
qed

text \<open>
  A string instruction makes one exit with a count above one. The devices ignore the count, so with
  the assertion compiled out only the first element takes effect.
\<close>

theorem repeated_access_acts_once:
  assumes "device_for (io_port x) = Some d" and "NDEBUG (ke_build ke)"
  shows "handle_io ke am (x\<lparr>io_count := n\<rparr>) m = handle_io ke am (x\<lparr>io_count := 1\<rparr>) m \<and>
    (n \<noteq> 1 \<longrightarrow> handle_io (ke\<lparr>ke_build := (ke_build ke)\<lparr>NDEBUG := False\<rparr>\<rparr>) am (x\<lparr>io_count := n\<rparr>) m = Inl AssertionFailed)"
  using assms
  by (simp add: handle_io_def dispatch_io_def c_assert_def perform_device_def on_device_def split: device.split)

section \<open>Accesses are served\<close>

text \<open>
  A byte access to any port is served, in a build without assertions: but for the chip selects, a
  read of the hex display, and an unaligned disk sector.
\<close>

definition generous :: "kvm_env \<Rightarrow> bool" where
  "generous ke \<longleftrightarrow> (\<forall>r. ke_accept ke r) \<and> ke_munmap ke \<and> (\<forall>off. PAGE_SIZE dvd off \<longrightarrow> ke_mmap ke off)"

lemma check_a20_served: "generous ke \<Longrightarrow> \<exists>m'. check_a20 ke m = Inr m'"
  by (auto simp: check_a20_def update_a20_def generous_def set_region_def)

lemma check_disk_served:
  assumes "generous ke" and "updateDiskMapping (m_board m) \<Longrightarrow> unat (selectedDiskLBA (m_board m)) mod 8 = 0"
  shows "\<exists>m'. check_disk ke m = Inr m'"
proof (cases "updateDiskMapping (m_board m)")
  case True
  then have "PAGE_SIZE dvd unat (selectedDiskLBA (m_board m)) * 512"
    using assms(2) by (simp add: PAGE_SIZE_def) presburger
  then show ?thesis
    using assms(1) by (auto simp: check_disk_def generous_def update_disk_window_def set_region_def Let_def)
qed (simp add: check_disk_def)

definition byte_access :: "io_exit \<Rightarrow> bool" where
  "byte_access x \<longleftrightarrow> io_size x = 1 \<and> io_count x = 1 \<and> length (io_data x) = 1"

definition served_byte :: "build \<Rightarrow> board \<Rightarrow> io_exit \<Rightarrow> bool" where
  "served_byte bd b x \<longleftrightarrow> unat (io_port x) \<notin> {0xF400..0xF43F} \<and> (io_out x \<or> unat (io_port x) \<notin> {0xE000..0xE007}) \<and>
     (VIRTUAL_DISK bd \<and> io_out x \<and> unat (io_port x) \<in> {0xD004..0xD007} \<longrightarrow> unat (selectedDiskLBA b) mod 8 = 0)"

lemma device_byte_served:
  assumes "device_inv m" and "device_for (io_port x) = Some d" and "byte_access x" and "served_byte bd b x"
  shows "\<exists>r. perform_device am d x m = Inr r"
proof -
  have port: "unat (io_port x) \<in> device_ports d" using assms(2) by (simp add: device_for_iff)
  note access = perform_device_def on_device_def performKVMExitOperation_def pio_write_def pio_read_def
    DevicePio_def byte_access_def
  show ?thesis
  proof (cases d)
    case PrescalerDev
    then show ?thesis using assms(1,3)
      by (simp add: access prescaler_ops_def prescaler_iowrite8_def set_prescalers_def device_inv_def)
  next
    case (ComDev i)
    then show ?thesis using assms(3)
      by (simp add: access serial_ops_def serial_iowrite8_def serial_ioread8_def Let_def split: prod.split)
  next
    case HexDev
    then have "io_out x" using port assms(4) by (simp add: served_byte_def)
    then show ?thesis using assms(3) HexDev by (simp add: access hex_ops_def)
  next
    case (CsuDev i)
    then show ?thesis using port assms(4) by (auto simp: served_byte_def split: if_splits)
  next
    case RtcDev
    have "rtc_inv (m_rtc m)" using assms(1) by (simp add: device_inv_def)
    from rtc_accesses_return [OF this, of "io_port x" "le_get 1 (io_data x)" "am_time am"]
    show ?thesis using assms(3) RtcDev by (auto simp: access rtc_ops_def)
  qed
qed

lemma low_disk_port: "unat (p :: u16) \<in> {0xD000..0xD003} \<Longrightarrow> p AND 7 < 4"
proof -
  assume "unat p \<in> {0xD000..0xD003}"
  then have "unat p = 0xD000 \<or> unat p = 0xD001 \<or> unat p = 0xD002 \<or> unat p = 0xD003" by auto
  then have "p = 0xD000 \<or> p = 0xD001 \<or> p = 0xD002 \<or> p = 0xD003" by (simp add: word_unat_eq_iff)
  then show ?thesis by auto
qed

text \<open>
  C3. With assertions compiled out and KVM granting its requests, every byte-wide port access is
  served: the loop goes on with a consistent machine and one byte of data, whatever the port. The
  exceptions are the chip select units, reads of the hex display, and a disk update at a sector that is
  not a multiple of eight.
\<close>

theorem byte_accesses_are_served:
  assumes "machine_inv (ke_build ke) m" and "generous ke" and "NDEBUG (ke_build ke)" and "byte_access x"
    and "served_byte (ke_build ke) (m_board m) x"
  shows "\<exists>m' buf. handle_io ke am x m = Inr (m', buf) \<and> machine_inv (ke_build ke) m' \<and> length buf = 1"
proof -
  have inv: "device_inv m" "memory_inv (ke_build ke) m" "settled m" using assms(1) by (simp_all add: machine_inv_def)
  have "\<exists>m1 buf. dispatch_io (ke_build ke) am x m = Inr (m1, buf) \<and> length buf = 1 \<and>
      (updateDiskMapping (m_board m1) \<longrightarrow> unat (selectedDiskLBA (m_board m1)) mod 8 = 0)"
  proof (cases "device_for (io_port x)")
    case (Some d)
    then obtain m1 buf where p: "perform_device am d x m = Inr (m1, buf)"
      using device_byte_served [OF inv(1) Some assms(4,5)] by force
    have "same_but_devices m m1 \<and> length buf = length (io_data x)"
      using perform_device_inv [OF inv(1) device_for_exists [OF Some] p] by simp
    then show ?thesis
      using Some p assms(3,4) inv(3)
      by (simp add: dispatch_io_def byte_access_def same_but_devices_def settled_def)
  next
    case None
    define h where "h = handler_for (ke_build ke) (io_port x)"
    have "disk_access_ok w (io_port x) (io_size x)" for w
      using and_3_less [of "io_port x"] assms(4) by (simp add: disk_access_ok_def byte_access_def)
    then obtain b data where c: "call_handler True h (io_out x) (io_port x) (io_data x) (io_size x) (io_count x) (m_board m) =
        Inr (b, data)" and len: "length data = length (io_data x)"
      using handlers_return [of "io_size x" "io_data x" h "io_out x" "io_port x" "io_count x" "m_board m"] assms(4)
      by (auto simp: byte_access_def)
    have "unat (selectedDiskLBA b) mod 8 = 0" if "updateDiskMapping b"
    proof -
      have hd: "h = DiskRegisters" "io_out x" "\<not> io_port x AND 7 < 4" "selectedDiskLBA b = selectedDiskLBA (m_board m)"
        using handler_disk_request [OF c _ that] inv(3) by (simp_all add: settled_def)
      then have "serves (ke_build ke) DiskRegisters (unat (io_port x))" by (simp only: h_def handler_for_iff)
      then have vd: "VIRTUAL_DISK (ke_build ke)" "unat (io_port x) \<in> {0xD000..0xD007}" by simp_all
      then have "unat (io_port x) \<in> {0xD004..0xD007}" using low_disk_port [of "io_port x"] hd(3) by fastforce
      then show ?thesis using assms(5) hd vd(1) by (simp add: served_byte_def)
    qed
    then show ?thesis using c len None assms(3,4) by (simp add: dispatch_io_def h_def byte_access_def)
  qed
  then obtain m1 buf where m1: "dispatch_io (ke_build ke) am x m = Inr (m1, buf)" "length buf = 1"
    and lba: "updateDiskMapping (m_board m1) \<longrightarrow> unat (selectedDiskLBA (m_board m1)) mod 8 = 0"
    by (elim exE conjE) (rule that)
  obtain m2 where m2: "check_a20 ke m1 = Inr m2" using check_a20_served [OF assms(2)] by blast
  have "device_inv m1 \<and> memory_inv (ke_build ke) m1" using dispatch_inv [OF inv(1,2) m1(1)] by simp
  then have "m_board m2 = m_board m1" using check_a20_inv [OF _ _ m2] by simp
  then obtain m3 where m3: "check_disk ke m2 = Inr m3" using check_disk_served [OF assms(2), of m2] lba by auto
  have "handle_io ke am x m = Inr (m3, buf)" by (simp add: handle_io_def m1 m2 m3)
  then show ?thesis using handle_io_inv [OF assms(1)] m1(2) by blast
qed

section \<open>An access touches one device\<close>

datatype device_state = PrescalerState "pit clock_prescaler" | ComState port | HexState hex_display
  | CsuState csu | RtcState rtc

fun state_of :: "device \<Rightarrow> machine \<Rightarrow> device_state" where
  "state_of PrescalerDev m = PrescalerState (m_prescaler m)"
| "state_of (ComDev i) m = ComState (m_coms m ! i)"
| "state_of HexDev m = HexState (m_hex m)"
| "state_of (CsuDev i) m = CsuState (m_csus m ! i)"
| "state_of RtcDev m = RtcState (m_rtc m)"

lemma perform_device_local:
  "perform_device am d x m = Inr (m', buf) \<Longrightarrow> e \<noteq> d \<Longrightarrow> state_of e m' = state_of e m"
  by (cases d; cases e) (auto simp: perform_device_def put_line_def dest!: on_device_Inr)

text \<open>
  C6. A port access that a device answers leaves the state of every other device, the static registers
  and the memory map as they were.
\<close>

theorem port_access_touches_one_device:
  assumes "machine_inv (ke_build ke) m" and "device_for (io_port x) = Some d" and "handle_io ke am x m = Inr (m', buf)"
  shows "(\<forall>e. e \<noteq> d \<longrightarrow> state_of e m' = state_of e m) \<and> m_net m' = m_net m \<and> m_board m' = m_board m \<and>
    m_memory m' = m_memory m"
proof -
  have inv: "device_inv m" "settled m" using assms(1) by (simp_all add: machine_inv_def)
  obtain m1 m2 where m1: "perform_device am d x m = Inr (m1, buf)" and m2: "check_a20 ke m1 = Inr m2"
    and m3: "check_disk ke m2 = Inr m'"
    using assms(2,3) by (auto simp: handle_io_def dispatch_io_def result_simps)
  have same: "same_but_devices m m1"
    using perform_device_inv [OF inv(1) device_for_exists [OF assms(2)] m1] by simp
  then have "settled m1" using inv(2) by (simp add: settled_def same_but_devices_def)
  then have "m' = m1" using m2 m3 settled_checks [of m1 ke] by simp
  then show ?thesis using same perform_device_local [OF m1] by (simp add: same_but_devices_def)
qed

section \<open>The end of the loop\<close>

text \<open>
  Once the loop has ended, what KVM would have returned later makes no difference; a loop that has
  failed has failed for good.
\<close>

lemma run_loop_Cons:
  "run_loop ke ((am, Exited e) # rs) m = (if m_requestExit m then Inr (True, m, []) else
     and_then (handle_exit ke am e m) (\<lambda>(m', data).
       and_then (run_loop ke rs m') (\<lambda>(stopped, m'', outs). Inr (stopped, m'', data # outs))))"
  by simp

theorem ended_loop_stays_ended:
  assumes "run_loop ke rs m = Inr (True, m', outs) \<or> run_loop ke rs m = Inl err"
  shows "run_loop ke (rs @ rs') m = run_loop ke rs m"
  using assms
proof (induction rs arbitrary: m outs)
  case Nil
  then show ?case by (cases rs') auto
next
  case (Cons ar rs)
  obtain am r where ar: "ar = (am, r)" by (cases ar)
  show ?case
  proof (cases "m_requestExit m")
    case False
    show ?thesis
    proof (cases r)
      case (Exited e)
      show ?thesis
      proof (cases "handle_exit ke am e m")
        case (Inr mb)
        obtain m1 b where mb: "mb = (m1, b)" by (cases mb)
        have "\<exists>outs1. run_loop ke rs m1 = Inr (True, m', outs1) \<or> run_loop ke rs m1 = Inl err"
          using Cons.prems False by (auto simp: ar Exited Inr mb result_simps)
        then show ?thesis using Cons.IH [of m1] False by (auto simp: ar Exited Inr mb)
      qed (simp add: ar Exited False)
    next
      case (Eintr sigint)
      then show ?thesis using Cons.IH Cons.prems False by (auto simp: ar)
    qed (simp add: ar False)
  qed (simp add: ar)
qed

section \<open>The theorems at concrete inputs\<close>

definition example_ambient :: ambient where
  "example_ambient = \<lparr>am_now = 800, am_time = example_tm, am_settime = example_settime\<rparr>"

definition example_env :: kvm_env where
  "example_env = \<lparr>ke_build = full_build, ke_accept = (\<lambda>_. True), ke_munmap = True, ke_mmap = (\<lambda>off. PAGE_SIZE dvd off)\<rparr>"

definition example_flash :: flash where
  "example_flash = \<lparr>flashState = Read, flashMemory = (\<lambda>i. if i = 0x7FFF0 then 0xEA else 0xFF)\<rparr>"

definition example_coms :: "port list" where
  "example_coms = map (\<lambda>i. detach (new_line i example_root (world_init 3))) [0..<4]"

definition example_machine :: machine where
  "example_machine = machine_init example_coms (world_init 3) None example_flash (initial_slots full_build)"

lemma example_coms_inv: "length example_coms = 4" "list_all port_inv example_coms" "ports_inv example_coms (world_init 3)"
  by (auto simp: example_coms_def list_all_iff port_inv_def new_line_def serial_init_def registers_init_inv ports_inv_def
      loops_inv_def loop_owns_def copy_loop_def tagged_def addrs_def world_init_def world_inv_def split: if_splits)

lemma example_build: "ke_build example_env = full_build" "NDEBUG (ke_build example_env)" "VIRTUAL_DISK (ke_build example_env)"
  by (simp_all add: example_env_def full_build_def)

lemma example_machine_inv: "machine_inv (ke_build example_env) example_machine"
  unfolding example_machine_def example_build(1) by (rule machine_init_inv) (simp_all add: example_coms_inv builds_ok)

lemma example_env_generous: "generous example_env"
  by (simp add: generous_def example_env_def)

lemma example_board: "m_board example_machine = board_init"
  by (simp add: example_machine_def machine_init_def)

lemma example_serves: "\<exists>m buf. handle_io example_env example_ambient (byte_out 0x92 0) example_machine = Inr (m, buf)"
proof -
  have "dispatch_io (ke_build example_env) example_ambient (byte_out 0x92 0) example_machine =
      Inr (example_machine\<lparr>m_board := board_init\<lparr>a20register := 0\<rparr>\<rparr>, [0])"
    by (subst dispatch_static [of "ke_build example_env" A20Gate])
      (simp_all add: byte_out_def handlerA20Gate_def assert_single_byte_def load8_def example_board)
  moreover obtain m2 where
    "check_a20 example_env (example_machine\<lparr>m_board := board_init\<lparr>a20register := 0\<rparr>\<rparr>) = Inr m2"
    using check_a20_served [OF example_env_generous] by blast
  moreover from this have "m_board m2 = board_init\<lparr>a20register := 0\<rparr>"
    by (auto simp: check_a20_def result_simps set_slots_def)
  ultimately show ?thesis by (simp add: handle_io_def check_disk_def board_init_def)
qed

theorem run_keeps_the_machine_consistent_witness:
  "\<exists>stopped m outs. run_loop example_env [(example_ambient, Eintr False), (example_ambient, Exited ExitHlt)]
     (machine_init example_coms (world_init 3) None example_flash (initial_slots full_build)) = Inr (stopped, m, outs) \<and> machine_inv full_build m"
proof -
  have "boot_slots full_build (\<lambda>_. True) = Inr (initial_slots full_build)" by (simp add: boot_slots_eq)
  moreover obtain stopped m outs where
    "run_loop example_env [(example_ambient, Eintr False), (example_ambient, Exited ExitHlt)]
      (machine_init example_coms (world_init 3) None example_flash (initial_slots full_build)) = Inr (stopped, m, outs)"
    by (simp add: handle_exit_def machine_init_def)
  ultimately show ?thesis
    using run_keeps_the_machine_consistent [of example_env, unfolded example_build(1), OF builds_ok(2)] example_coms_inv by blast
qed

theorem flash_contents_never_change_witness:
  "\<exists>m outs. run_loop example_env [(example_ambient, Exited (ExitMmio
        \<lparr>phys_addr = 0x3400555, mmio_is_write = True, mmio_len = 1, mmio_data = [0xAA]\<rparr>))] example_machine =
      Inr (False, m, outs) \<and> fb_flash (m_memory m) = example_flash"
proof -
  obtain m outs where r: "run_loop example_env [(example_ambient, Exited (ExitMmio
        \<lparr>phys_addr = 0x3400555, mmio_is_write = True, mmio_len = 1, mmio_data = [0xAA]\<rparr>))] example_machine =
      Inr (False, m, outs)"
    by (simp add: handle_exit_def handle_mmio_def in_flash_window_False example_machine_def machine_init_def)
  show ?thesis
    using flash_contents_never_change [OF example_machine_inv r] r
    by (auto simp: example_machine_def machine_init_def)
qed

theorem a20_port_controls_the_wrap_witness:
  "\<exists>m buf. handle_io example_env example_ambient (byte_out 0x92 0) example_machine = Inr (m, buf) \<and>
     guest_to_host (fb_slots (m_memory m)) 0x100010 = Some (RamBuffer, 0x10)"
proof -
  obtain m buf where r: "handle_io example_env example_ambient (byte_out 0x92 0) example_machine = Inr (m, buf)"
    using example_serves by blast
  show ?thesis using a20_port_controls_the_wrap [OF example_machine_inv r, of "0x10"] r by (auto simp: above_one_megabyte_def)
qed

theorem byte_accesses_are_served_witness:
  "\<exists>m buf. handle_io example_env example_ambient (byte_out 0xD004 1) example_machine = Inr (m, buf) \<and> machine_inv full_build m"
  using byte_accesses_are_served [OF example_machine_inv example_env_generous example_build(2), of "byte_out 0xD004 1" example_ambient]
  by (auto simp: example_build(1) byte_access_def byte_out_def served_byte_def example_board board_init_def)



theorem chip_select_byte_access_ends_the_emulator_witness:
  "\<exists>msg. handle_io example_env example_ambient (byte_out 0xF438 1) example_machine = Inl (ThrowRuntimeError msg)"
  using chip_select_byte_access_ends_the_emulator [of "0xF438" example_env example_ambient 1 example_machine] by auto

theorem repeated_access_acts_once_witness:
  "handle_io example_env example_ambient ((byte_out 0xE000 7)\<lparr>io_count := 5\<rparr>) example_machine =
   handle_io example_env example_ambient ((byte_out 0xE000 7)\<lparr>io_count := 1\<rparr>) example_machine"
proof -
  have "device_for (io_port (byte_out 0xE000 7)) = Some HexDev" by (simp add: device_for_iff byte_out_def)
  then show ?thesis
    using repeated_access_acts_once [OF _ example_build(2)] by blast
qed

theorem port_access_touches_one_device_witness:
  "\<exists>m buf. handle_io example_env example_ambient (byte_out 0xE000 7) example_machine = Inr (m, buf) \<and>
     m_hex m = [HexCode 1 7] \<and> m_rtc m = m_rtc example_machine"
proof -
  have d: "device_for (io_port (byte_out 0xE000 7)) = Some HexDev" by (simp add: device_for_iff byte_out_def)
  have s: "settled example_machine" using example_machine_inv by (simp add: machine_inv_def)
  obtain m buf where r: "handle_io example_env example_ambient (byte_out 0xE000 7) example_machine = Inr (m, buf)"
    and h: "m_hex m = [HexCode 1 7]"
    using d s
    by (simp add: handle_io_def dispatch_io_def perform_device_def on_device_def byte_out_def
        performKVMExitOperation_def pio_write_def hex_ops_def DevicePio_def le_get_def hex_iowrite8_def
        check_a20_def update_a20_def check_disk_def settled_def set_slots_def)
      (simp add: example_machine_def machine_init_def)
  show ?thesis using port_access_touches_one_device [OF example_machine_inv d r] r h by auto
qed

theorem ended_loop_stays_ended_witness:
  "run_loop example_env ([(example_ambient, Eintr True)] @ [(example_ambient, Exited ExitOther)]) example_machine =
   run_loop example_env [(example_ambient, Eintr True)] example_machine"
  by (rule ended_loop_stays_ended [where m' = "example_machine\<lparr>m_requestExit := True\<rparr>" and outs = "[]"])
    (simp add: example_machine_def machine_init_def sigintHandler_def)

end
