(* ===== verification/Boot.thy ===== *)
theory Boot
  imports Kvm_Machine
begin

text \<open>
  What \<open>main\<close> (src/main.cpp) does before its loop: the checked calls that set up KVM, the files and the memory, the
  constructor of the event loop (src/EventLoop.cpp), and the start of the four serial ports on it. The answers of
  the host to the calls are an argument.
\<close>

section \<open>The calls before the loop\<close>

text \<open>The fields of the segment registers that \<open>main\<close> assigns.\<close>

record sregs =
  cr0 :: u64
  cs_base :: u64
  cs_selector :: u16

datatype boot_call =
    OpenKvm | GetApiVersion | CheckUserMemory | CreateVm
  | OpenRom | MmapFlash nat | CloseRom
  | OpenOptionRom | MmapOptionRom nat | ReadOptionRom nat | CloseOptionRom | OpenDisk | MmapRam nat
  | SetUserMemoryRegion mem_region
  | CreateIrqchip | CreatePit2 | CreateVcpu | GetVcpuMmapSize | MmapVcpuRun | CheckCoalescedMmio
  | GetSregs | SetSregs sregs | SetRegs u64 | SetGuestDebug

text \<open>Which answers let \<open>main\<close> go on; the others make it return \<open>EXIT_FAILURE\<close>.\<close>

fun call_ok :: "boot_call \<Rightarrow> int \<Rightarrow> bool" where
  "call_ok GetApiVersion r \<longleftrightarrow> r \<noteq> -1 \<and> r = 12"
| "call_ok CheckUserMemory r \<longleftrightarrow> r \<noteq> -1 \<and> r \<noteq> 0"
| "call_ok (ReadOptionRom n) r \<longleftrightarrow> r = 0x2000"
| "call_ok CheckCoalescedMmio r \<longleftrightarrow> True"
| "call_ok CloseRom r \<longleftrightarrow> True"
| "call_ok CloseOptionRom r \<longleftrightarrow> True"
| "call_ok c r \<longleftrightarrow> r \<noteq> -1"

definition boot_sregs :: "sregs \<Rightarrow> sregs" where
  "boot_sregs s = s\<lparr>cr0 := 0, cs_base := 0x03470000, cs_selector := 0xF000\<rparr>"

text \<open>
  The calls in the order of the code: KVM, the files and the host buffers, the memory regions, then
  the virtual CPU; \<open>s0\<close> is what \<open>KVM_GET_SREGS\<close> stores. The option ROM and the disk are opened when the build has
  the virtual disk, and single stepping is switched on when it disassembles.
\<close>

definition host_calls :: "build \<Rightarrow> boot_call list" where
  "host_calls bd = [OpenKvm, GetApiVersion, CheckUserMemory, CreateVm, OpenRom, MmapFlash 0x80000, CloseRom] @
     (if VIRTUAL_DISK bd
      then [OpenOptionRom, MmapOptionRom 0x2000, ReadOptionRom 0x2000, CloseOptionRom, OpenDisk] else []) @
     [MmapRam (LOW_MEMORY_SIZE + HIGH_MEMORY_SIZE bd)]"

definition cpu_calls :: "build \<Rightarrow> sregs \<Rightarrow> boot_call list" where
  "cpu_calls bd s0 = [CreateIrqchip, CreatePit2, CreateVcpu, GetVcpuMmapSize, MmapVcpuRun, CheckCoalescedMmio,
      GetSregs, SetSregs (boot_sregs s0), SetRegs 0x0000FFF0] @ (if DISASSEMBLE bd then [SetGuestDebug] else [])"

definition setup_calls :: "build \<Rightarrow> sregs \<Rightarrow> boot_call list" where
  "setup_calls bd s0 = host_calls bd @ map SetUserMemoryRegion (boot_regions bd) @ cpu_calls bd s0"

lemmas setup_defs = setup_calls_def host_calls_def cpu_calls_def

text \<open>The calls made, and whether the last of them was reached with all answers in order.\<close>

fun perform_calls :: "(boot_call \<Rightarrow> int) \<Rightarrow> boot_call list \<Rightarrow> boot_call list \<times> bool" where
  "perform_calls answer [] = ([], True)"
| "perform_calls answer (c # cs) =
     (if call_ok c (answer c) then case perform_calls answer cs of (made, ok) \<Rightarrow> (c # made, ok)
      else ([c], False))"

section \<open>The event loop and the serial ports\<close>

text \<open>The results of the three calls of the constructor of \<open>EventLoopInternal\<close>.\<close>

record loop_results =
  lr_epoll :: fd
  lr_interrupt :: fd
  lr_ctl :: bool

definition construct_event_loop :: "loop_results \<Rightarrow> (event_loop \<times> 'h world) result" where
  "construct_event_loop res =
     (if lr_epoll res = -1 then Inl (ThrowRuntimeError ''failed to create epoll file descriptor'')
      else if lr_interrupt res = -1 then Inl (ThrowRuntimeError ''failed to create eventfd'')
      else if \<not> lr_ctl res then Inl (ThrowRuntimeError ''failed to add loop interrupt handler'')
      else Inr (\<lparr>mState = True, mHandlers = []\<rparr>, world_init (lr_interrupt res)))"

definition com_ports :: "(string \<times> u32) list" where
  "com_ports = [(''/tmp/3100.com1.socket'', 4), (''/tmp/3100.com2.socket'', 3),
     (''/tmp/3100.com3.socket'', 4), (''/tmp/3100.com4.socket'', 3)]"

text \<open>
  The ports start one after the other, each on the world the one before it left; the event thread and the guest
  come later. The result is the ports and the world.
\<close>

fun start_ports :: "(ctl_op \<Rightarrow> fd \<Rightarrow> bool) \<Rightarrow> fd \<Rightarrow> event_loop \<Rightarrow> nat \<Rightarrow> port_world \<Rightarrow>
    ((string \<times> u32) \<times> start_results) list \<Rightarrow> (port list \<times> port_world) result" where
  "start_ports ctl vmFd el i w [] = Inr ([], w)"
| "start_ports ctl vmFd el i w (((socketName, gsi), res) # ps) =
     and_then (start ctl res socketName vmFd gsi (new_line i el w)) (\<lambda>(ok, l).
       if ok then and_then (start_ports ctl vmFd el (Suc i) (net l) ps) (\<lambda>(coms, w'). Inr (detach l # coms, w'))
       else Inl ExitFailure)"

text \<open>
  All that comes before the loop. The result is the machine the loop starts with; \<open>page\<close> is what
  \<open>getpagesize\<close> returns.
\<close>

definition check_page_size :: "build \<Rightarrow> nat \<Rightarrow> unit result" where
  "check_page_size bd page = c_assert (NDEBUG bd) (PAGE_SIZE = page)"

definition main_setup :: "build \<Rightarrow> nat \<Rightarrow> (boot_call \<Rightarrow> int) \<Rightarrow> sregs \<Rightarrow> loop_results \<Rightarrow> (ctl_op \<Rightarrow> fd \<Rightarrow> bool) \<Rightarrow>
    start_results list \<Rightarrow> u8 list option \<Rightarrow> flash \<Rightarrow> machine result" where
  "main_setup bd page answer s0 lres ctl results nvram flash0 =
     and_then (check_page_size bd page) (\<lambda>_.
     if \<not> snd (perform_calls answer (setup_calls bd s0)) then Inl ExitFailure
     else and_then (boot_slots bd (\<lambda>r. answer (SetUserMemoryRegion r) \<noteq> -1)) (\<lambda>slots.
          and_then (construct_event_loop lres) (\<lambda>(el, w).
          and_then (start_ports ctl (answer CreateVm) el 0 w (zip com_ports results)) (\<lambda>(coms, w').
          Inr (machine_init coms w' nvram flash0 slots)))))"

section \<open>The setup\<close>

lemma perform_calls_prefix:
  "perform_calls answer cs =
     (if \<forall>c \<in> set cs. call_ok c (answer c) then (cs, True)
      else (takeWhile (\<lambda>c. call_ok c (answer c)) cs @ [hd (dropWhile (\<lambda>c. call_ok c (answer c)) cs)], False))"
  by (induction cs) auto

lemma regions_accepted:
  assumes "\<forall>c \<in> set (setup_calls bd s0). call_ok c (answer c)"
  shows "boot_slots bd (\<lambda>r. answer (SetUserMemoryRegion r) \<noteq> -1) = Inr (initial_slots bd)"
proof -
  have "answer (SetUserMemoryRegion r) \<noteq> -1" if "r \<in> set (boot_regions bd)" for r
  proof -
    have "SetUserMemoryRegion r \<in> set (setup_calls bd s0)" using that by (simp add: setup_calls_def)
    then have "call_ok (SetUserMemoryRegion r) (answer (SetUserMemoryRegion r))" using assms by blast
    then show ?thesis by simp
  qed
  then show ?thesis by (simp add: boot_slots_eq)
qed

text \<open>The ports keep the invariant of the event loop they share.\<close>

lemma start_ports_inv:
  assumes "ports_inv qs w" and "interest w (-1) = None" and "start_ports ctl vmFd el (length qs) w ps = Inr (cs, w')"
  shows "ports_inv (qs @ cs) w' \<and> length cs = length ps \<and> list_all port_inv cs"
  using assms
proof (induction ps arbitrary: qs w cs)
  case (Cons p ps)
  obtain nm gsi res where p: "p = ((nm, gsi), res)" by (metis prod.collapse)
  obtain l cs1 where l: "start ctl res nm vmFd gsi (new_line (length qs) el w) = Inr (True, l)"
    and cs1: "start_ports ctl vmFd el (Suc (length qs)) (net l) ps = Inr (cs1, w')" and cs: "cs = detach l # cs1"
    using Cons.prems(3) by (auto simp: p result_simps split: if_splits)
  note s = ports_inv_started [OF Cons.prems(1,2) l]
  have "start_ports ctl vmFd el (length (qs @ [detach l])) (net l) ps = Inr (cs1, w')" using cs1 by simp
  from Cons.IH [OF _ _ this] s show ?case by (simp add: cs port_inv_def)
qed simp

text \<open>All the descriptors a port may close.\<close>

definition held :: "serial \<Rightarrow> fd set" where
  "held c = watched (mEventLoop c) \<union> set (clients (fds c)) \<union>
     {server (fds c), irq (fds c), refresh (fds c), readTimer (fds c), writeTimer (fds c)}"

lemma close_line_fd_simps [simp]:
  "com (close_line_fd fd l) = com l" "net (close_line_fd fd l) = close_fd fd (net l)" "backlog (env (close_line_fd fd l)) = backlog (env l)"
  by (simp_all add: close_line_fd_def)

lemma close_fd_simps [simp]:
  "nodes (close_fd fd w) = nodes w" "next_node (close_fd fd w) = next_node w" "epoll_open (close_fd fd w) = epoll_open w"
  "interest (close_fd fd w) = (interest w)(fd := None)"
  by (simp_all add: close_fd_def)

text \<open>The descriptors of a port after its start.\<close>

definition port_fds :: "start_results \<Rightarrow> fd list" where
  "port_fds res = [r_socket res, r_readTimer res, r_writeTimer res]"

definition used_fds :: "start_results \<Rightarrow> fd list" where
  "used_fds res = port_fds res @ [r_irq res, r_refresh res]"

lemma started_held:
  assumes "start ctl res socketName vmFd gsi (new_line j el w) = Inr (True, l)"
    and "watched (mEventLoop (com l)) \<subseteq> {r_socket res, r_readTimer res, r_writeTimer res}"
  shows "held (com l) \<subseteq> set (used_fds res)" and "backlog (env l) = []"
proof -
  have l: "fds (com l) = \<lparr>clients = [], server = r_socket res, vm = vmFd, irq = r_irq res, refresh = r_refresh res,
      readTimer = r_readTimer res, writeTimer = r_writeTimer res\<rparr>" "backlog (env l) = []"
    using start_Inr_True [OF assms(1)]
    by (simp_all add: prepared_def stop_new_line) (simp_all add: new_line_def serial_init_def descriptors_init_def)
  show "held (com l) \<subseteq> set (used_fds res)" using assms(2) l by (auto simp: held_def used_fds_def port_fds_def)
  show "backlog (env l) = []" by (rule l(2))
qed

text \<open>The start leaves other descriptors alone.\<close>

lemma start_ports_elsewhere:
  assumes "ports_inv qs w" and "interest w (-1) = None" and "start_ports ctl vmFd el (length qs) w ps = Inr (cs, w')"
    and "epoll_open w" and "interest w i = x" and "i \<notin> set (concat (map (used_fds \<circ> snd) ps))"
  shows "epoll_open w' \<and> interest w' i = x \<and> (\<forall>c \<in> set cs. i \<notin> held (com c) \<and> backlog (env c) = [])"
  using assms
proof (induction ps arbitrary: qs w cs)
  case (Cons p ps)
  obtain nm gsi res where p: "p = ((nm, gsi), res)" by (metis prod.collapse)
  obtain l cs1 where l: "start ctl res nm vmFd gsi (new_line (length qs) el w) = Inr (True, l)"
    and cs1: "start_ports ctl vmFd el (Suc (length qs)) (net l) ps = Inr (cs1, w')" and cs: "cs = detach l # cs1"
    using Cons.prems(3) by (auto simp: p result_simps split: if_splits)
  have w: "world_inv w" using Cons.prems(1) by (simp add: ports_inv_def loops_inv_def)
  have none: "nodes w a \<noteq> Some (k, (length qs, h))" for a k h using Cons.prems(1) unfolding ports_inv_def by blast
  note s = started [OF l w Cons.prems(2) none] and h = started_held [OF l started(6) [OF l w Cons.prems(2) none]]
  have i: "i \<notin> held (com l)" using h(1) Cons.prems(6) by (auto simp: p)
  then have "i \<notin> watched (mEventLoop (com l))" by (simp add: held_def)
  then have new: "epoll_open (net l)" "interest (net l) i = x"
    using s(1) Cons.prems(4,5) by (simp_all add: own_step_def new_line_def)
  have inv: "ports_inv (qs @ [detach l]) (net l)" using ports_inv_started [OF Cons.prems(1,2) l] by simp
  have "start_ports ctl vmFd el (length (qs @ [detach l])) (net l) ps = Inr (cs1, w')" using cs1 by simp
  from Cons.IH [OF inv s(5) this new] Cons.prems(6) i h(2) show ?case by (simp add: cs p)
qed simp

text \<open>A port that is running with both directions live.\<close>

definition port_live :: "line \<Rightarrow> bool" where
  "port_live l \<longleftrightarrow> running l \<and> rx_live l \<and> tx_live l"

lemma port_live_elsewhere:
  assumes "ports_inv ps w" and "i < length ps" and "j < length ps" and "j \<noteq> i" and "own_step (attach (ps ! i) w) l'"
    and "watched (mEventLoop (com l')) \<inter> watched (mEventLoop (com (ps ! j))) = {}" and "port_live (attach (ps ! j) w)"
  shows "port_live (attach (ps ! j) (net l'))"
  using running_elsewhere [OF assms(1-6)] assms(7) by (simp add: port_live_def rx_live_def tx_live_def)

definition all_live :: "port list \<Rightarrow> port_world \<Rightarrow> bool" where
  "all_live ps w \<longleftrightarrow> ports_inv ps w \<and> apart ps \<and> (\<forall>i < length ps. port_live (attach (ps ! i) w))"

text \<open>The results of the calls of \<open>start\<close>, each with success.\<close>

definition calls_succeed :: "start_results \<Rightarrow> bool" where
  "calls_succeed res \<longleftrightarrow> r_bind res \<and> r_listen res \<and> r_irqfd res \<and> r_irq res \<noteq> -1 \<and> r_refresh res \<noteq> -1"

lemma all_live_started:
  assumes live: "all_live qs w" and el: "mState el" and w: "epoll_open w" "interest w (-1) = None" and ctl: "accepts ctl"
    and res: "calls_succeed res" "length nm < 108" "distinct (-1 # port_fds res)"
    and new: "\<forall>fd \<in> set (port_fds res). interest w fd = None \<and> (\<forall>q \<in> set qs. fd \<notin> watched (mEventLoop (com q)))"
  obtains l where "start ctl res nm vmFd gsi (new_line (length qs) el w) = Inr (True, l)" and "all_live (qs @ [detach l]) (net l)"
    and "epoll_open (net l)" and "interest (net l) (-1) = None" and "watched (mEventLoop (com l)) \<subseteq> set (port_fds res)"
    and "\<And>k. k \<notin> set (port_fds res) \<Longrightarrow> interest (net l) k = interest w k"
proof -
  have inv: "ports_inv qs w" and ap: "apart qs" and old: "\<And>j. j < length qs \<Longrightarrow> port_live (attach (qs ! j) w)"
    using live by (simp_all add: all_live_def)
  have wi: "world_inv w" using inv by (simp add: ports_inv_def loops_inv_def)
  have "start_ok res w" using res new by (simp add: start_ok_def calls_succeed_def port_fds_def)
  then obtain l where l: "start ctl res nm vmFd gsi (new_line (length qs) el w) = Inr (True, l)"
    and run: "running l" "rx_live l" "tx_live l"
    using start_establishes [OF el w(1) wi ctl _ res(2), of res vmFd gsi "length qs"] by blast
  have none: "nodes w a \<noteq> Some (k, (length qs, h))" for a k h using inv unfolding ports_inv_def by blast
  note s = started [OF l wi w(2) none] and inv' = ports_inv_started [OF inv w(2) l]
  let ?n = "detach (new_line (length qs) el w)"
  have wat: "watched (mEventLoop (com l)) \<subseteq> set (port_fds res)" using s(6) by (simp add: port_fds_def)
  have disj: "watched (mEventLoop (com l)) \<inter> watched (mEventLoop (com (qs ! j))) = {}" if "j < length qs" for j
    using wat new that by fastforce
  have base: "ports_inv (qs @ [?n]) w" using ports_inv_new [OF inv] .
  have "port_live (attach ((qs @ [detach l]) ! j) (net l))" if j: "j < length (qs @ [detach l])" for j
  proof (cases "j = length qs")
    case True
    then show ?thesis using run by (simp add: port_live_def)
  next
    case False
    then have j: "j < length qs" using j by simp
    have "port_live (attach ((qs @ [?n]) ! j) (net l))"
      by (rule port_live_elsewhere [OF base, of "length qs"])
        (use j old inv' disj [OF j] in \<open>simp_all add: nth_append\<close>)
    then show ?thesis using j by (simp add: nth_append)
  qed
  moreover have "apart (qs @ [detach l])"
    using ap disj by (auto simp: apart_def nth_append less_Suc_eq Int_commute)
  ultimately have "all_live (qs @ [detach l]) (net l)" using inv' by (simp add: all_live_def)
  moreover have "interest (net l) k = interest w k" if "k \<notin> set (port_fds res)" for k
  proof -
    have "k \<notin> watched (mEventLoop (com l))" using wat that by blast
    then show ?thesis using s(1) by (simp add: own_step_def new_line_def)
  qed
  ultimately show ?thesis using that [OF l] run(1) s(5) wat by (simp add: running_def)
qed

lemma start_ports_live:
  assumes "all_live qs w" and "mState el" and "epoll_open w" and "interest w (-1) = None" and "accepts ctl"
    and "\<forall>((nm, gsi), res) \<in> set ps. calls_succeed res \<and> length nm < 108"
    and "distinct (-1 # concat (map (port_fds \<circ> snd) ps))"
    and "\<forall>fd \<in> set (concat (map (port_fds \<circ> snd) ps)). interest w fd = None \<and> (\<forall>q \<in> set qs. fd \<notin> watched (mEventLoop (com q)))"
  shows "\<exists>cs w'. start_ports ctl vmFd el (length qs) w ps = Inr (cs, w') \<and> all_live (qs @ cs) w'"
  using assms(1,3,4,6-8)
proof (induction ps arbitrary: qs w)
  case (Cons p ps)
  obtain nm gsi res where p: "p = ((nm, gsi), res)" by (metis prod.collapse)
  have res: "calls_succeed res" "length nm < 108" "distinct (-1 # port_fds res)"
    and new: "\<forall>fd \<in> set (port_fds res). interest w fd = None \<and> (\<forall>q \<in> set qs. fd \<notin> watched (mEventLoop (com q)))"
    using Cons.prems(4-6) by (auto simp: p)
  obtain l where l: "start ctl res nm vmFd gsi (new_line (length qs) el w) = Inr (True, l)"
    and live: "all_live (qs @ [detach l]) (net l)" "epoll_open (net l)" "interest (net l) (-1) = None"
    and wat: "watched (mEventLoop (com l)) \<subseteq> set (port_fds res)"
    and same: "\<And>k. k \<notin> set (port_fds res) \<Longrightarrow> interest (net l) k = interest w k"
    by (rule all_live_started [OF Cons.prems(1) assms(2) Cons.prems(2,3) assms(5) res new]) blast
  let ?rest = "concat (map (port_fds \<circ> snd) ps)"
  have own: "set (port_fds res) \<inter> set ?rest = {}" using Cons.prems(5) by (auto simp: p)
  have rest: "\<forall>fd \<in> set ?rest. interest (net l) fd = None \<and>
      (\<forall>q \<in> set (qs @ [detach l]). fd \<notin> watched (mEventLoop (com q)))"
  proof
    fix fd assume fd: "fd \<in> set ?rest"
    then have other: "fd \<notin> set (port_fds res)" using own by blast
    have "interest w fd = None \<and> (\<forall>q \<in> set qs. fd \<notin> watched (mEventLoop (com q)))"
      using Cons.prems(6) fd by (simp add: p)
    then show "interest (net l) fd = None \<and> (\<forall>q \<in> set (qs @ [detach l]). fd \<notin> watched (mEventLoop (com q)))"
      using same [OF other] wat other by auto
  qed
  have "\<exists>cs w'. start_ports ctl vmFd el (length (qs @ [detach l])) (net l) ps = Inr (cs, w') \<and> all_live ((qs @ [detach l]) @ cs) w'"
    by (rule Cons.IH [OF live _ _ rest]) (use Cons.prems(4,5) in auto)
  then show ?case by (auto simp: p l)
qed simp

lemma main_setup_Inr:
  assumes "main_setup bd page answer s0 lres ctl results nvram flash0 = Inr m"
  obtains coms w where "\<forall>c \<in> set (setup_calls bd s0). call_ok c (answer c)" and "lr_interrupt lres \<noteq> -1"
    and "start_ports ctl (answer CreateVm) \<lparr>mState = True, mHandlers = []\<rparr> 0 (world_init (lr_interrupt lres))
           (zip com_ports results) = Inr (coms, w)"
    and "m = machine_init coms w nvram flash0 (initial_slots bd)"
proof -
  have ok: "\<forall>c \<in> set (setup_calls bd s0). call_ok c (answer c)"
    using assms by (auto simp: main_setup_def check_page_size_def perform_calls_prefix and_then_def split: if_splits sum.splits)
  then show ?thesis
    using assms that [OF ok]
    by (auto simp: main_setup_def check_page_size_def regions_accepted construct_event_loop_def result_simps split: if_splits)
qed

lemma no_ports:
  "ports_inv [] (world_init interruptFd)" "interruptFd \<noteq> -1 \<Longrightarrow> interest (world_init interruptFd :: port_world) (-1) = None"
  using world_init_inv [of interruptFd] by (simp_all add: ports_inv_def loops_inv_def) (simp_all add: world_init_def)

lemma main_setup_inv:
  assumes "main_setup bd page answer s0 lres ctl results nvram flash0 = Inr m" and "build_ok bd" and "length results = 4"
  shows "machine_inv bd m"
proof (rule main_setup_Inr [OF assms(1)])
  fix coms w
  assume i: "lr_interrupt lres \<noteq> -1"
    and c: "start_ports ctl (answer CreateVm) \<lparr>mState = True, mHandlers = []\<rparr> 0 (world_init (lr_interrupt lres))
      (zip com_ports results) = Inr (coms, w)" and m: "m = machine_init coms w nvram flash0 (initial_slots bd)"
  have "ports_inv ([] @ coms) w \<and> length coms = length (zip com_ports results) \<and> list_all port_inv coms"
    by (rule start_ports_inv) (use no_ports i c in simp_all)
  then show "machine_inv bd m" using assms(2,3) by (simp add: m machine_init_inv com_ports_def)
qed

lemma main_setup_elsewhere:
  assumes "main_setup bd page answer s0 lres ctl results nvram flash0 = Inr m" and "length results = 4"
    and "i \<notin> set (concat (map used_fds results))"
  shows "lr_interrupt lres \<noteq> -1 \<and> epoll_open (m_net m) \<and>
    interest (m_net m) i = (if i = lr_interrupt lres then Some (1, InterruptPtr) else None) \<and>
    (\<forall>p \<in> set (m_coms m). i \<notin> held (com p) \<and> backlog (env p) = [])"
proof (rule main_setup_Inr [OF assms(1)])
  fix coms w
  let ?x = "if i = lr_interrupt lres then Some (1, InterruptPtr) else None"
  assume i: "lr_interrupt lres \<noteq> -1"
    and c: "start_ports ctl (answer CreateVm) \<lparr>mState = True, mHandlers = []\<rparr> 0 (world_init (lr_interrupt lres))
      (zip com_ports results) = Inr (coms, w)" and m: "m = machine_init coms w nvram flash0 (initial_slots bd)"
  have eq: "map (used_fds \<circ> snd) (zip com_ports results) = map used_fds results"
    using assms(2) by (simp add: map_map [symmetric] com_ports_def del: map_map)
  have "i \<notin> set (concat (map (used_fds \<circ> snd) (zip com_ports results)))" unfolding eq by (rule assms(3))
  then have "epoll_open w \<and> interest w i = ?x \<and> (\<forall>c \<in> set coms. i \<notin> held (com c) \<and> backlog (env c) = [])"
    by (intro start_ports_elsewhere [of "[]", OF no_ports(1) no_ports(2) [OF i]]) (use c in \<open>simp_all add: world_init_def\<close>)
  then show ?thesis using i by (simp add: m machine_init_def)
qed

text \<open>A debug build on a host with other pages ends in the first line of \<open>main\<close>.\<close>

theorem setup_asserts_the_page_size:
  "main_setup bd page answer s0 lres ctl results nvram flash0 = Inl AssertionFailed \<longleftrightarrow>
     \<not> NDEBUG bd \<and> page \<noteq> PAGE_SIZE"
proof -
  have "start_ports ctl vmFd el i w ps \<noteq> Inl AssertionFailed" for vmFd el i w ps
  proof (induction ps arbitrary: i w)
    case (Cons p ps)
    obtain nm gsi res where p: "p = ((nm, gsi), res)" by (metis prod.collapse)
    have "start ctl res nm vmFd gsi l \<noteq> Inl AssertionFailed" for l by (simp add: start_def Let_def)
    then show ?case
      using Cons.IH by (auto simp: p and_then_def split: sum.splits)
  qed simp
  moreover have "boot_slots bd accept \<noteq> Inl AssertionFailed" for accept by (simp add: boot_slots_eq)
  moreover have "construct_event_loop lres \<noteq> Inl AssertionFailed" by (simp add: construct_event_loop_def)
  ultimately show ?thesis
    by (auto simp: main_setup_def check_page_size_def c_assert_def and_then_def split: sum.split)
qed

text \<open>
  The setup stops at the first call that fails, and then nothing was started and no exit is ever
  served.
\<close>

theorem setup_stops_at_the_first_failure:
  assumes "page = PAGE_SIZE" and "setup_calls bd s0 = before @ c # after" and "\<forall>b \<in> set before. call_ok b (answer b)" and "\<not> call_ok c (answer c)"
  shows "perform_calls answer (setup_calls bd s0) = (before @ [c], False) \<and>
    main_setup bd page answer s0 lres ctl results nvram flash0 = Inl ExitFailure"
proof -
  have "takeWhile (\<lambda>c. call_ok c (answer c)) (before @ c # after) = before"
    "dropWhile (\<lambda>c. call_ok c (answer c)) (before @ c # after) = c # after"
    using assms(3,4) by (simp_all add: takeWhile_append dropWhile_append)
  then have "perform_calls answer (setup_calls bd s0) = (before @ [c], False)"
    using assms(4) by (simp only: perform_calls_prefix assms(2)) auto
  then show ?thesis by (simp add: main_setup_def check_page_size_def assms(1))
qed

text \<open>No call is made before the calls in front of it have succeeded.\<close>

lemma made_after:
  "c \<in> set (fst (perform_calls answer (before @ after))) \<Longrightarrow> c \<notin> set before \<Longrightarrow>
     \<forall>b \<in> set before. call_ok b (answer b)"
  by (induction before) (auto split: if_splits prod.splits)

text \<open>
  C12. No virtual machine is created before the API version 12 and the user memory extension are
  confirmed, no virtual CPU before the option ROM was read and all memory regions accepted, and a
  failed call ends the program with EXIT_FAILURE, or before with a failed assertion when the pages of
  the host have another size.
\<close>

theorem setup_checks_before_it_creates:
  assumes "perform_calls answer (setup_calls bd s0) = (made, ok)"
  shows "(CreateVm \<in> set made \<longrightarrow> answer GetApiVersion = 12 \<and> answer CheckUserMemory \<notin> {-1, 0}) \<and>
    (CreateVcpu \<in> set made \<longrightarrow> (VIRTUAL_DISK bd \<longrightarrow> answer (ReadOptionRom 0x2000) = 0x2000) \<and>
       (\<forall>r \<in> set (boot_regions bd). answer (SetUserMemoryRegion r) \<noteq> -1)) \<and>
    (\<not> ok \<longrightarrow> main_setup bd page answer s0 lres ctl results nvram flash0 =
       Inl (if NDEBUG bd \<or> page = PAGE_SIZE then ExitFailure else AssertionFailed))"
proof (intro conjI impI)
  let ?before = "[OpenKvm, GetApiVersion, CheckUserMemory]"
  assume "CreateVm \<in> set made"
  then have "CreateVm \<in> set (fst (perform_calls answer (?before @ drop 3 (setup_calls bd s0))))"
    using assms by (simp add: setup_defs)
  from made_after [OF this] show "answer GetApiVersion = 12" "answer CheckUserMemory \<notin> {-1, 0}" by simp_all
next
  assume vcpu: "CreateVcpu \<in> set made"
  let ?before = "host_calls bd @ map SetUserMemoryRegion (boot_regions bd)"
  have "CreateVcpu \<in> set (fst (perform_calls answer (?before @ cpu_calls bd s0)))"
    using assms vcpu by (simp add: setup_calls_def)
  from made_after [OF this] have all: "\<forall>b \<in> set ?before. call_ok b (answer b)"
    by (fastforce simp: host_calls_def split: if_splits)
  have "call_ok (SetUserMemoryRegion r) (answer (SetUserMemoryRegion r))" if "r \<in> set (boot_regions bd)" for r
  proof -
    have "SetUserMemoryRegion r \<in> set ?before" using that by simp
    then show ?thesis using all by blast
  qed
  then show "\<forall>r \<in> set (boot_regions bd). answer (SetUserMemoryRegion r) \<noteq> -1" by simp
  show "VIRTUAL_DISK bd \<Longrightarrow> answer (ReadOptionRom 0x2000) = 0x2000" using all by (simp add: host_calls_def)
next
  assume "\<not> ok"
  then show "main_setup bd page answer s0 lres ctl results nvram flash0 =
      Inl (if NDEBUG bd \<or> page = PAGE_SIZE then ExitFailure else AssertionFailed)"
    using assms by (simp add: main_setup_def check_page_size_def c_assert_def)
qed

text \<open>
  When every call succeeds, the loop starts with a consistent machine whose four ports are live,
  and the first instruction the guest fetches is the one at the end of the flash chip.
\<close>

definition host_ready :: "build \<Rightarrow> nat \<Rightarrow> (boot_call \<Rightarrow> int) \<Rightarrow> sregs \<Rightarrow> loop_results \<Rightarrow> start_results list \<Rightarrow> bool" where
  "host_ready bd page answer s0 lres results \<longleftrightarrow>
     build_ok bd \<and> page = PAGE_SIZE \<and> (\<forall>c \<in> set (setup_calls bd s0). call_ok c (answer c)) \<and>
     lr_epoll lres \<noteq> -1 \<and> lr_ctl lres \<and> length results = 4 \<and> (\<forall>res \<in> set results. calls_succeed res) \<and>
     distinct (-1 # lr_interrupt lres # concat (map port_fds results))"

lemma main_setup_ready:
  assumes "host_ready bd page answer s0 lres results" and "accepts ctl"
  shows "\<exists>coms w. main_setup bd page answer s0 lres ctl results nvram flash0 =
      Inr (machine_init coms w nvram flash0 (initial_slots bd)) \<and> all_live coms w \<and> length coms = 4"
proof -
  let ?el = "\<lparr>mState = True, mHandlers = []\<rparr>" and ?w = "world_init (lr_interrupt lres)"
  have i: "lr_interrupt lres \<noteq> -1" and four: "length com_ports = length results"
    using assms(1) by (auto simp: host_ready_def com_ports_def)
  have names: "length nm < 108" if "(nm, gsi) \<in> set com_ports" for nm gsi
    using that by (auto simp: com_ports_def)
  have fds: "map (port_fds \<circ> snd) (zip com_ports results) = map port_fds results"
    using four by (simp add: map_map [symmetric] del: map_map)
  have "\<exists>cs w'. start_ports ctl (answer CreateVm) ?el (length ([] :: port list)) ?w (zip com_ports results) = Inr (cs, w') \<and>
      all_live ([] @ cs) w'"
  proof (rule start_ports_live [OF _ _ _ _ assms(2)])
    show "all_live [] ?w" using no_ports(1) by (simp add: all_live_def apart_def)
    show "\<forall>((nm, gsi), res) \<in> set (zip com_ports results). calls_succeed res \<and> length nm < 108"
      using assms(1) names by (auto simp: host_ready_def dest: set_zip_rightD set_zip_leftD)
    show "distinct (-1 # concat (map (port_fds \<circ> snd) (zip com_ports results)))"
      unfolding fds using assms(1) by (simp add: host_ready_def)
    show "\<forall>fd \<in> set (concat (map (port_fds \<circ> snd) (zip com_ports results))). interest ?w fd = None \<and>
        (\<forall>q \<in> set []. fd \<notin> watched (mEventLoop (com q)))"
      unfolding fds using assms(1) by (auto simp: host_ready_def world_init_def)
  qed (use no_ports(2) [OF i] world_init_inv in simp_all)
  then obtain coms w where coms: "start_ports ctl (answer CreateVm) ?el 0 ?w (zip com_ports results) = Inr (coms, w)"
    "all_live coms w" by auto
  have "length coms = 4"
    using start_ports_inv [of "[]" ?w ctl "answer CreateVm" ?el "zip com_ports results" coms w] no_ports i coms(1) four
    by (simp add: com_ports_def)
  then show ?thesis
    using assms(1) coms i regions_accepted [of bd s0 answer]
    by (auto simp: main_setup_def check_page_size_def host_ready_def perform_calls_prefix construct_event_loop_def)
qed

section \<open>The start\<close>

text \<open>
  C11. When every system call of the setup succeeds, the loop starts with a consistent machine whose
  four ports run, and the first instruction fetch, at cs.base + rip, reads byte 0x7FFF0 of the flash
  image.
\<close>

theorem emulator_starts_at_the_reset_vector:
  assumes "host_ready bd page answer s0 lres results" and "accepts ctl"
  shows "\<exists>m. main_setup bd page answer s0 lres ctl results nvram flash0 = Inr m \<and> machine_inv bd m \<and>
    length (m_coms m) = 4 \<and> (\<forall>i < 4. running (line_of m i)) \<and> \<not> m_requestExit m \<and>
    guest_to_host (fb_slots (m_memory m)) (unat (cs_base (boot_sregs s0) + 0xFFF0)) = Some (FlashBuffer, 0x7FFF0)"
proof -
  obtain coms w where m: "main_setup bd page answer s0 lres ctl results nvram flash0 =
      Inr (machine_init coms w nvram flash0 (initial_slots bd))"
    and coms: "all_live coms w" "length coms = 4"
    using main_setup_ready [OF assms] by blast
  have ok: "build_ok bd" and four: "length results = 4" using assms(1) by (simp_all add: host_ready_def)
  have "guest_to_host (initial_slots bd) 0x347FFF0 = Some (FlashBuffer, 0x7FFF0)"
    using guest_to_host_Some [OF initial_slots_inv [OF ok], of 4 regionFlash "0x347FFF0"]
    by (simp add: initial_slots_def covers_def region_defs)
  then show ?thesis
    using m main_setup_inv [OF m ok four] coms
    by (simp add: machine_init_def boot_sregs_def line_of_def all_live_def port_live_def)
qed

section \<open>The theorems at concrete inputs\<close>

text \<open>A host on which every call succeeds, and the descriptors it gives to the four ports.\<close>

definition example_answer :: "boot_call \<Rightarrow> int" where
  "example_answer c = (case c of GetApiVersion \<Rightarrow> 12 | ReadOptionRom n \<Rightarrow> 0x2000 | _ \<Rightarrow> 3)"

definition example_sregs :: sregs where
  "example_sregs = \<lparr>cr0 = 0x60000010, cs_base = 0xFFFF0000, cs_selector = 0xF000\<rparr>"

definition example_loop_results :: loop_results where
  "example_loop_results = \<lparr>lr_epoll = 4, lr_interrupt = 5, lr_ctl = True\<rparr>"

definition example_port_results :: "fd \<Rightarrow> start_results" where
  "example_port_results n = \<lparr>r_socket = n, r_bind = True, r_listen = True, r_readTimer = n + 1, r_writeTimer = n + 2,
     r_irq = n + 3, r_refresh = n + 4, r_irqfd = True\<rparr>"

definition example_host_results :: "start_results list" where
  "example_host_results = map example_port_results [10, 20, 30, 40]"

lemma example_calls_ok: "\<forall>c \<in> set (setup_calls full_build s0). call_ok c (example_answer c)"
  by (auto simp: setup_defs example_answer_def boot_regions_def)

lemma example_host_ready: "host_ready full_build 4096 example_answer example_sregs example_loop_results example_host_results"
  using example_calls_ok
  by (simp add: host_ready_def builds_ok(2) PAGE_SIZE_def example_loop_results_def example_host_results_def
      example_port_results_def calls_succeed_def port_fds_def)

lemma example_main_setup:
  "\<exists>m. main_setup full_build 4096 example_answer example_sregs example_loop_results example_ctl example_host_results None example_flash = Inr m"
  using main_setup_ready [OF example_host_ready accepts_example] by blast

theorem setup_checks_before_it_creates_witness:
  "perform_calls (example_answer(GetApiVersion := 11)) (setup_calls full_build example_sregs) = ([OpenKvm, GetApiVersion], False) \<and>
   main_setup full_build 4096 (example_answer(GetApiVersion := 11)) example_sregs example_loop_results example_ctl
     example_host_results None example_flash = Inl ExitFailure"
proof -
  have made: "perform_calls (example_answer(GetApiVersion := 11)) (setup_calls full_build example_sregs) = ([OpenKvm, GetApiVersion], False)"
    by (simp add: setup_defs example_answer_def)
  from setup_checks_before_it_creates [OF made, of 4096] made show ?thesis by (simp add: PAGE_SIZE_def)
qed

theorem setup_stops_at_the_first_failure_witness:
  "perform_calls (example_answer(GetApiVersion := 11)) (setup_calls full_build example_sregs) = ([OpenKvm, GetApiVersion], False) \<and>
   main_setup full_build 4096 (example_answer(GetApiVersion := 11)) example_sregs example_loop_results example_ctl
     example_host_results None example_flash = Inl ExitFailure"
  using setup_stops_at_the_first_failure [of 4096 full_build example_sregs "[OpenKvm]" GetApiVersion
      "drop 2 (setup_calls full_build example_sregs)" "example_answer(GetApiVersion := 11)"
      example_loop_results example_ctl example_host_results None example_flash]
  by (simp add: setup_defs example_answer_def PAGE_SIZE_def)

theorem emulator_starts_at_the_reset_vector_witness:
  "\<exists>m. main_setup full_build 4096 example_answer example_sregs example_loop_results example_ctl example_host_results None example_flash = Inr m \<and>
     guest_to_host (fb_slots (m_memory m)) 0x347FFF0 = Some (FlashBuffer, 0x7FFF0)"
  using emulator_starts_at_the_reset_vector [OF example_host_ready accepts_example, of None example_flash]
  by (auto simp: boot_sregs_def)

end
