(* ===== verification/Port_Widths.thy ===== *)
theory Port_Widths
  imports Kvm_Machine
begin

text \<open>
  Which widths a device answers (src/main.cpp, src/hardware). A device class overrides some of the eight virtual
  functions of \<open>DevicePio\<close>; an access of any other width throws in the base class, and nothing catches it. For
  each device of the table this is the complete account: an access is served, or it ends the emulator.
\<close>

fun answers :: "device \<Rightarrow> bool \<Rightarrow> nat \<Rightarrow> bool" where
  "answers PrescalerDev is_write n \<longleftrightarrow> n = 1 \<or> n = 2"
| "answers (ComDev i) is_write n \<longleftrightarrow> n = 1"
| "answers HexDev is_write n \<longleftrightarrow> is_write \<and> (n = 1 \<or> n = 2 \<or> n = 4 \<or> n = 8)"
| "answers (CsuDev i) is_write n \<longleftrightarrow> n = 2"
| "answers RtcDev is_write n \<longleftrightarrow> n = 1"

text \<open>The buffer the exit refers to holds the data of the access.\<close>

lemma perform_widths:
  assumes "device_inv m" and "io_size x \<le> length (io_data x)"
  shows "if answers d (io_out x) (io_size x) then \<exists>r. perform_device am d x m = Inr r
    else \<exists>msg. perform_device am d x m = Inl (ThrowRuntimeError msg)"
proof -
  note access = perform_device_def on_device_def performKVMExitOperation_def pio_write_def pio_read_def DevicePio_def
  show ?thesis
  proof (cases d)
    case PrescalerDev
    then show ?thesis using assms
      by (auto simp: access prescaler_ops_def prescaler_iowrite8_def prescaler_iowrite16_def set_prescalers_def device_inv_def)
  next
    case (ComDev i)
    then show ?thesis using assms(2)
      by (auto simp: access serial_ops_def serial_iowrite8_def serial_ioread8_def Let_def split: prod.split)
  next
    case HexDev
    then show ?thesis using assms(2) by (auto simp: access hex_ops_def)
  next
    case (CsuDev i)
    then show ?thesis using assms(2) by (auto simp: access csu_ops_def)
  next
    case RtcDev
    have "rtc_inv (m_rtc m)" using assms(1) by (simp add: device_inv_def)
    from rtc_accesses_return [OF this, of "io_port x" "le_get 1 (io_data x)" "am_time am"]
    show ?thesis using assms(2) RtcDev by (auto simp: access rtc_ops_def)
  qed
qed

text \<open>
  C4. For each device of the port table and each width and direction of an access: the loop goes on
  with a consistent machine when the device implements that access, and otherwise the emulator ends
  with the runtime_error of the base class. The prescaler answers one and two bytes, the serial ports
  and the clock one, the chip select units two, the hex display only writes.
\<close>

theorem devices_answer_their_widths:
  assumes "machine_inv (ke_build ke) m" and "generous ke" and "device_for (io_port x) = Some d"
    and "io_count x = 1" and "io_size x = length (io_data x)"
  shows "if answers d (io_out x) (io_size x)
    then \<exists>m' buf. handle_io ke am x m = Inr (m', buf) \<and> machine_inv (ke_build ke) m' \<and> length buf = io_size x
    else \<exists>msg. handle_io ke am x m = Inl (ThrowRuntimeError msg)"
proof -
  have inv: "device_inv m" "memory_inv (ke_build ke) m" "settled m" using assms(1) by (simp_all add: machine_inv_def)
  have access: "dispatch_io (ke_build ke) am x m = perform_device am d x m" using assms(3,4) by (simp add: dispatch_io_def)
  show ?thesis
  proof (cases "answers d (io_out x) (io_size x)")
    case True
    then obtain m1 buf where p: "perform_device am d x m = Inr (m1, buf)"
      using perform_widths [OF inv(1) eq_imp_le [OF assms(5)], of d am] by auto
    have kept: "same_but_devices m m1" "length buf = length (io_data x)"
      using perform_device_inv [OF inv(1) device_for_exists [OF assms(3)] p] by simp_all
    obtain m2 where m2: "check_a20 ke m1 = Inr m2" using check_a20_served [OF assms(2)] by blast
    have "device_inv m1 \<and> memory_inv (ke_build ke) m1" using dispatch_inv [OF inv(1,2)] access p by fastforce
    then have "m_board m2 = m_board m1" using check_a20_inv [OF _ _ m2] by simp
    then have "check_disk ke m2 = Inr m2"
      using kept(1) inv(3) by (simp add: check_disk_def same_but_devices_def settled_def)
    then have "handle_io ke am x m = Inr (m2, buf)" by (simp add: handle_io_def access p m2)
    then show ?thesis using handle_io_inv [OF assms(1)] kept(2) assms(5) True by auto
  next
    case False
    then show ?thesis using perform_widths [OF inv(1) eq_imp_le [OF assms(5)], of d am] by (auto simp: handle_io_def access)
  qed
qed

theorem devices_answer_their_widths_witness:
  "(\<exists>m buf. handle_io example_env example_ambient
      \<lparr>io_out = True, io_port = 0xF400, io_size = 2, io_count = 1, io_data = [0x34, 0x12]\<rparr> example_machine = Inr (m, buf)) \<and>
   (\<exists>msg. handle_io example_env example_ambient
      \<lparr>io_out = False, io_port = 0x71, io_size = 2, io_count = 1, io_data = [0, 0]\<rparr> example_machine =
      Inl (ThrowRuntimeError msg))"
proof -
  let ?csu = "\<lparr>io_out = True, io_port = 0xF400, io_size = 2, io_count = 1, io_data = [0x34, 0x12]\<rparr>"
  let ?rtc = "\<lparr>io_out = False, io_port = 0x71, io_size = 2, io_count = 1, io_data = [0, 0]\<rparr>"
  have "device_for (io_port ?csu) = Some (CsuDev 0)" "device_for (io_port ?rtc) = Some RtcDev"
    by (simp_all add: device_for_iff)
  then show ?thesis
    using devices_answer_their_widths [OF example_machine_inv example_env_generous, of ?csu "CsuDev 0" example_ambient]
      devices_answer_their_widths [OF example_machine_inv example_env_generous, of ?rtc RtcDev example_ambient]
    by auto
qed

end
