(* ===== verification/Run_Control.thy ===== *)
theory Run_Control
  imports Port_Widths
begin

text \<open>
  What the guest can do to the run loop of \<open>main\<close> (src/main.cpp), stated without the devices, the handlers and
  the memory slots: a small control state and, for each exit, its effect or the way it ends the emulator, given by
  the port number, the width and the direction alone. The loop refines this specification, with every error
  path: whatever \<open>KVM_RUN\<close> returns, both end at the same turn for the same reason, or are in states that agree,
  and the control state alone determines the guest's memory map.
\<close>

section \<open>The specification\<close>

text \<open>
  Whether the loop is to end, whether the A20 line is on, the four bytes of the sector register, and the offset of
  the disk window when one is open.
\<close>

record control =
  c_stop :: bool
  c_a20 :: bool
  c_sector :: "u8 list"
  c_window :: "nat option"

text \<open>The ports of devices, and the accesses the devices refuse.\<close>

definition device_port :: "nat \<Rightarrow> bool" where
  "device_port p \<longleftrightarrow> p \<in> {0x70, 0x71, 0xF804, 0xF805} \<union> {0x2E8..0x2EF} \<union> {0x2F8..0x2FF} \<union> {0x3E8..0x3EF} \<union> {0x3F8..0x3FF} \<union>
     {0xE000..0xE007} \<union> {0xF400..0xF43F}"

definition refused :: "bool \<Rightarrow> nat \<Rightarrow> nat \<Rightarrow> bool" where
  "refused out p n \<longleftrightarrow> device_port p \<and>
     (if p \<in> {0xF804, 0xF805} then n \<noteq> 1 \<and> n \<noteq> 2
      else if p \<in> {0xE000..0xE007} then \<not> (out \<and> n \<in> {1, 2, 4, 8})
      else if p \<in> {0xF400..0xF43F} then n \<noteq> 2
      else n \<noteq> 1)"

text \<open>The ports with a register of one byte, and the accesses that fail an assertion, where these are compiled in.\<close>

definition byte_port :: "nat \<Rightarrow> bool" where
  "byte_port p \<longleftrightarrow> p \<in> {0x74, 0x75, 0x77, 0x80, 0x92, 0xF834, 0xF860, 0xF870} \<union> {0x198..0x19F}"

definition disk_port :: "build \<Rightarrow> nat \<Rightarrow> bool" where
  "disk_port bd p \<longleftrightarrow> VIRTUAL_DISK bd \<and> p \<in> {0xD000..0xD007}"

definition aborts :: "build \<Rightarrow> io_exit \<Rightarrow> bool" where
  "aborts bd x \<longleftrightarrow> \<not> NDEBUG bd \<and> (let p = unat (io_port x) in
     (device_port p \<or> byte_port p \<or> disk_port bd p) \<and> io_count x \<noteq> 1 \<or> byte_port p \<and> io_size x \<noteq> 1)"

text \<open>How an access ends the emulator before it has any effect. The text of an exception is left out.\<close>

definition access_fault :: "build \<Rightarrow> io_exit \<Rightarrow> cpp_error option" where
  "access_fault bd x = (let p = unat (io_port x) in
     if aborts bd x then Some AssertionFailed
     else if refused (io_out x) p (io_size x) then Some (ThrowRuntimeError [])
     else if disk_port bd p \<and> \<not> (io_out x \<and> 0xD004 \<le> p) \<and> 4 < p mod 4 + io_size x then Some OutOfBounds
     else None)"

definition overwrite :: "nat \<Rightarrow> 'a list \<Rightarrow> 'a list \<Rightarrow> 'a list" where
  "overwrite i ys xs = take i xs @ ys @ drop (i + length ys) xs"

definition react_io :: "build \<Rightarrow> io_exit \<Rightarrow> control \<Rightarrow> control result" where
  "react_io bd x c = (let p = unat (io_port x) in
     case access_fault bd x of
       Some e \<Rightarrow> Inl e
     | None \<Rightarrow>
         if io_out x \<and> p = 0x92 then Inr (c\<lparr>c_a20 := bit (hd (io_data x)) 1\<rparr>)
         else if io_out x \<and> disk_port bd p then
           if p < 0xD004 then Inr (c\<lparr>c_sector := overwrite (p mod 4) (take (io_size x) (io_data x)) (c_sector c)\<rparr>)
           else if PAGE_SIZE dvd 512 * le_val (c_sector c) then Inr (c\<lparr>c_window := Some (512 * le_val (c_sector c))\<rparr>)
           else Inl ExitFailure
         else Inr c)"

fun react :: "build \<Rightarrow> kvm_exit \<Rightarrow> control \<Rightarrow> control result" where
  "react bd ExitHlt c = Inr (c\<lparr>c_stop := True\<rparr>)"
| "react bd ExitDebug c = Inr c"
| "react bd (ExitIo x) c = react_io bd x c"
| "react bd (ExitMmio x) c = Inr c"
| "react bd ExitOther c = Inl ExitFailure"

fun control_loop :: "build \<Rightarrow> run_result list \<Rightarrow> control \<Rightarrow> (bool \<times> control) result" where
  "control_loop bd [] c = Inr (c_stop c, c)"
| "control_loop bd (r # rs) c =
     (if c_stop c then Inr (True, c)
      else case r of
        Exited e \<Rightarrow> and_then (react bd e c) (control_loop bd rs)
      | Eintr sigint \<Rightarrow> control_loop bd rs (if sigint then c\<lparr>c_stop := True\<rparr> else c)
      | RunError \<Rightarrow> Inr (True, c))"

text \<open>The memory slots a control state stands for.\<close>

definition control_slots :: "build \<Rightarrow> control \<Rightarrow> mem_slots" where
  "control_slots bd c = (initial_slots bd)(3 := a20_region bd (c_a20 c),
     7 := (if VIRTUAL_DISK bd then Some (if c_window c = None then regionOptionRom_Boot else regionOptionRom_Disk) else None))"

text \<open>The state the setup leaves.\<close>

definition initial_state :: control where
  "initial_state = \<lparr>c_stop = False, c_a20 = True, c_sector = [0, 0, 0, 0], c_window = None\<rparr>"

section \<open>The machine and its control state\<close>

definition control_of :: "machine \<Rightarrow> control" where
  "control_of m = \<lparr>c_stop = m_requestExit m, c_a20 = bit (a20register (m_board m)) 1,
     c_sector = lba_bytes (selectedDiskLBA (m_board m)), c_window = m_disk m\<rparr>"

definition controls :: "build \<Rightarrow> control \<Rightarrow> machine \<Rightarrow> bool" where
  "controls bd c m \<longleftrightarrow> machine_inv bd m \<and> control_of m = c \<and> fb_slots (m_memory m) = control_slots bd c"

fun without_text :: "cpp_error \<Rightarrow> cpp_error" where
  "without_text (ThrowRuntimeError msg) = ThrowRuntimeError []"
| "without_text e = e"

text \<open>KVM and the host grant what is asked for, and \<open>mmap\<close> insists on whole pages.\<close>

definition granting :: "kvm_env \<Rightarrow> bool" where
  "granting ke \<longleftrightarrow> generous ke \<and> (\<forall>off. ke_mmap ke off \<longrightarrow> PAGE_SIZE dvd off)"

text \<open>The run page holds the data of the access.\<close>

fun exit_ok :: "kvm_exit \<Rightarrow> bool" where
  "exit_ok (ExitIo x) \<longleftrightarrow> 0 < io_size x \<and> io_size x \<le> length (io_data x)"
| "exit_ok e \<longleftrightarrow> True"

section \<open>One access\<close>

lemma masked_port: "unat (a AND 3 :: u16) = unat a mod 4" "unat (a AND 7 :: u16) = unat a mod 8"
proof -
  have "a AND 3 = take_bit 2 a" "a AND 7 = take_bit 3 a" by (simp_all add: take_bit_eq_mask mask_numeral)
  then show "unat (a AND 3 :: u16) = unat a mod 4" "unat (a AND 7 :: u16) = unat a mod 8"
    by (simp_all add: take_bit_eq_mod unat_mod)
qed

lemma low_disk_register: "unat a \<in> {0xD000..0xD007} \<Longrightarrow> (a AND 7 :: u16) < 4 \<longleftrightarrow> unat a < 0xD004"
  by (auto simp: word_less_nat_alt masked_port) presburger+

lemma device_port_iff: "device_port p \<longleftrightarrow> (\<exists>d. p \<in> device_ports d)"
proof
  assume dp: "device_port p"
  have csu: "p \<in> device_ports (CsuDev ((p - 0xF400) div 8))" if "p \<in> {0xF400..0xF43F}" using that by auto
  have "p \<in> device_ports PrescalerDev \<union> device_ports RtcDev \<union> device_ports HexDev \<union>
      device_ports (ComDev 0) \<union> device_ports (ComDev 1) \<union> device_ports (ComDev 2) \<union> device_ports (ComDev 3) \<union> {0xF400..0xF43F}"
    using dp by (simp add: device_port_def) blast
  then show "\<exists>d. p \<in> device_ports d" using csu by blast
next
  assume "\<exists>d. p \<in> device_ports d"
  then obtain d where "p \<in> device_ports d" by blast
  then show "device_port p" by (cases d) (auto simp: device_port_def split: if_splits)
qed

lemma answers_iff: "p \<in> device_ports d \<Longrightarrow> answers d out n \<longleftrightarrow> \<not> refused out p n"
  by (cases d) (auto simp: refused_def device_port_def split: if_splits)

lemma serves_ports:
  assumes "serves bd h p"
  shows "single_byte h \<longleftrightarrow> byte_port p" and "h = A20Gate \<longleftrightarrow> p = 0x92" and "h = DiskRegisters \<longleftrightarrow> disk_port bd p"
  using assms by (cases h; auto simp: single_byte_def byte_port_def disk_port_def)+

text \<open>The asserts of the handlers, apart from what the handlers do.\<close>

lemma call_handler_asserts:
  "call_handler nd h w a data n k b =
     (if \<not> nd \<and> (single_byte h \<and> (n \<noteq> 1 \<or> k \<noteq> 1) \<or> h = DiskRegisters \<and> k \<noteq> 1) then Inl AssertionFailed
      else call_handler True h w a data n k b)"
  by (cases h) (auto simp: single_byte_def handlerTimerConfiguration_def handlerPOSTCode_def
      handlerProductCode_def handlerOptionCode_def handlerJumperRegister_def
      handlerManufacturerSpecific_def handlerPort1Pin_def handlerPort3Pin_def reads_constant_def
      handlerA20Gate_def handlerDiskRegisters_def assert_single_byte_def c_assert_def)

text \<open>What the access leaves in the static variables the loop looks at.\<close>

definition board_after :: "build \<Rightarrow> io_exit \<Rightarrow> board \<Rightarrow> board \<Rightarrow> bool" where
  "board_after bd x b b' \<longleftrightarrow> (let p = unat (io_port x) in
     a20register b' = (if io_out x \<and> p = 0x92 then hd (io_data x) else a20register b) \<and>
     lba_bytes (selectedDiskLBA b') = (if io_out x \<and> disk_port bd p \<and> p < 0xD004
       then overwrite (p mod 4) (take (io_size x) (io_data x)) (lba_bytes (selectedDiskLBA b)) else lba_bytes (selectedDiskLBA b)) \<and>
     updateDiskMapping b' = (updateDiskMapping b \<or> io_out x \<and> disk_port bd p \<and> 0xD004 \<le> p))"

lemma handler_board:
  assumes "call_handler True h (io_out x) (io_port x) (io_data x) (io_size x) k b = Inr (b', data)"
    and "serves bd h (unat (io_port x))" and "0 < io_size x" and "io_size x \<le> length (io_data x)"
  shows "board_after bd x b b'"
proof (cases "h = DiskRegisters")
  case True
  then have p: "unat (io_port x) \<in> {0xD000..0xD007}" "disk_port bd (unat (io_port x))" "unat (io_port x) \<noteq> 0x92"
    using assms(2) by (auto simp: disk_port_def)
  note low = low_disk_register [OF p(1)]
  show ?thesis
    using assms(1,4) True p low
    by (auto simp: handlerDiskRegisters_def board_after_def result_simps memcpy_to_def overwrite_def lba_bytes_of_bytes
        masked_port Let_def split: if_splits)
next
  case False
  then have "\<not> disk_port bd (unat (io_port x))" using serves_ports(3) [OF assms(2)] by simp
  moreover have "io_data x \<noteq> []" using assms(3,4) by auto
  ultimately show ?thesis
    using assms(1,2) False
    by (cases h) (auto simp: board_after_def handlerTimerConfiguration_def handlerPOSTCode_def handlerKeyboard_def
        handlerUnhandled_def handlerLCD_def handlerProductCode_def handlerOptionCode_def handlerJumperRegister_def
        handlerManufacturerSpecific_def handlerPort1Pin_def handlerPort3Pin_def reads_constant_def handlerA20Gate_def
        load8_def hd_conv_nth result_simps Let_def split: if_splits)
qed

lemma device_access_outcome:
  assumes "device_inv m" and "device_for (io_port x) = Some d" and "io_size x \<le> length (io_data x)"
  shows "case dispatch_io bd am x m of
      Inl e \<Rightarrow> access_fault bd x = Some (without_text e)
    | Inr (m', data) \<Rightarrow> access_fault bd x = None \<and> board_after bd x (m_board m) (m_board m') \<and> same_but_devices m m'"
proof -
  let ?p = "unat (io_port x)"
  have port: "?p \<in> device_ports d" using assms(2) by (simp add: device_for_iff)
  then have dp: "device_port ?p" by (auto simp: device_port_iff)
  then have other: "\<not> byte_port ?p" "\<not> disk_port bd ?p" "?p \<noteq> 0x92"
    by (auto simp: device_port_def byte_port_def disk_port_def)
  have fault: "access_fault bd x = (if \<not> NDEBUG bd \<and> io_count x \<noteq> 1 then Some AssertionFailed
      else if answers d (io_out x) (io_size x) then None else Some (ThrowRuntimeError []))"
    using dp other by (simp add: access_fault_def aborts_def answers_iff [OF port] Let_def)
  have disp: "dispatch_io bd am x m =
      (if \<not> NDEBUG bd \<and> io_count x \<noteq> 1 then Inl AssertionFailed else perform_device am d x m)"
    using assms(2) by (simp add: dispatch_io_def c_assert_def)
  note widths = perform_widths [OF assms(1,3), of d am]
  show ?thesis
  proof (cases "perform_device am d x m")
    case (Inl e)
    then show ?thesis using widths fault disp by (auto split: if_splits)
  next
    case (Inr r)
    obtain m' data where r: "r = (m', data)" by (cases r)
    have "same_but_devices m m'"
      using perform_device_inv [OF assms(1) device_for_exists [OF assms(2)] Inr [unfolded r]] by simp
    moreover from this have "board_after bd x (m_board m) (m_board m')"
      using other by (simp add: same_but_devices_def board_after_def Let_def)
    ultimately show ?thesis using Inr widths fault disp r by (auto split: if_splits)
  qed
qed

lemma static_access_outcome:
  assumes "device_for (io_port x) = None" and "0 < io_size x" and "io_size x \<le> length (io_data x)"
  shows "case dispatch_io bd am x m of
      Inl e \<Rightarrow> access_fault bd x = Some (without_text e)
    | Inr (m', data) \<Rightarrow> access_fault bd x = None \<and> (\<exists>b. m' = m\<lparr>m_board := b\<rparr> \<and> board_after bd x (m_board m) b)"
proof -
  let ?p = "unat (io_port x)"
  define h where "h = handler_for bd (io_port x)"
  then have s: "serves bd h ?p" using handler_for_iff [of bd "io_port x" h] by simp
  note ports = serves_ports [OF s]
  have dp: "\<not> device_port ?p" using assms(1) device_for_iff [of "io_port x"] by (auto simp: device_port_iff)
  have ab: "aborts bd x \<longleftrightarrow> \<not> NDEBUG bd \<and> (single_byte h \<and> (io_size x \<noteq> 1 \<or> io_count x \<noteq> 1) \<or> h = DiskRegisters \<and> io_count x \<noteq> 1)"
    using dp ports by (auto simp: aborts_def Let_def)
  have bounds: "disk_access_ok (io_out x) (io_port x) (io_size x) \<longleftrightarrow>
      io_out x \<and> 0xD004 \<le> ?p \<or> ?p mod 4 + io_size x \<le> 4" if "h = DiskRegisters"
  proof -
    have "?p \<in> {0xD000..0xD007}" using s that by auto
    then show ?thesis by (auto simp: disk_access_ok_def low_disk_register masked_port)
  qed
  have fault: "access_fault bd x = (if aborts bd x then Some AssertionFailed
      else if h = DiskRegisters \<and> \<not> disk_access_ok (io_out x) (io_port x) (io_size x) then Some OutOfBounds else None)"
    using dp bounds ports(3) by (auto simp: access_fault_def refused_def Let_def)
  let ?call = "call_handler True h (io_out x) (io_port x) (io_data x) (io_size x) (io_count x) (m_board m)"
  have disp: "dispatch_io bd am x m = (if aborts bd x then Inl AssertionFailed
      else and_then ?call (\<lambda>(b, data). Inr (m\<lparr>m_board := b\<rparr>, data)))"
    using assms(1) by (auto simp: dispatch_io_def h_def [symmetric] call_handler_asserts [of "NDEBUG bd"] ab)
  show ?thesis
  proof (cases "h = DiskRegisters \<and> \<not> disk_access_ok (io_out x) (io_port x) (io_size x)")
    case True
    then have "?call = Inl OutOfBounds" using disk_registers_bounds(2) [OF assms(3)] by simp
    then show ?thesis using True fault disp by simp
  next
    case False
    then obtain b data where c: "?call = Inr (b, data)" using handlers_return [OF assms(2,3)] by blast
    have "board_after bd x (m_board m) b" by (rule handler_board [OF c s assms(2,3)])
    then show ?thesis using False fault disp c by auto
  qed
qed

lemma access_outcome:
  assumes "device_inv m" and "0 < io_size x" and "io_size x \<le> length (io_data x)"
  shows "case dispatch_io bd am x m of
      Inl e \<Rightarrow> access_fault bd x = Some (without_text e)
    | Inr (m', data) \<Rightarrow> access_fault bd x = None \<and> board_after bd x (m_board m) (m_board m') \<and> m_memory m' = m_memory m \<and>
        m_disk m' = m_disk m \<and> m_lastA20 m' = m_lastA20 m \<and> m_requestExit m' = m_requestExit m"
proof (cases "device_for (io_port x)")
  case (Some d)
  from device_access_outcome [OF assms(1) Some assms(3), where bd = bd and am = am] show ?thesis
    by (auto simp: same_but_devices_def split: sum.splits prod.splits)
next
  case None
  from static_access_outcome [OF None assms(2,3), where bd = bd and am = am and m = m] show ?thesis
    by (auto split: sum.splits prod.splits)
qed

section \<open>The loop\<close>

lemma bit_1_iff_and_2: "w AND 2 \<noteq> 0 \<longleftrightarrow> bit (w :: u8) 1"
  using and_exp_eq_0_iff_not_bit [of w 1] by simp

lemma control_slots_a20: "a20_consistent bd l (control_slots bd c) \<longleftrightarrow> a20_region bd (c_a20 c) = a20_region bd (l AND 2 \<noteq> 0)"
  by (simp add: a20_consistent_def control_slots_def)

lemma le_val_lba_bytes: "le_val (lba_bytes w) = unat w"
proof -
  have "unat w < 256 ^ 4" using unat_bound [of w] by simp
  then show ?thesis by (simp add: lba_bytes_def)
qed

lemma check_disk_granting:
  assumes "granting ke" and "VIRTUAL_DISK (ke_build ke)" and "updateDiskMapping (m_board m)"
  defines "off \<equiv> 512 * unat (selectedDiskLBA (m_board m))"
  shows "check_disk ke m = (if PAGE_SIZE dvd off
    then Inr ((set_slots ((fb_slots (m_memory m))(7 \<mapsto> regionOptionRom_Disk)) m)\<lparr>m_disk := Some off,
      m_board := (m_board m)\<lparr>updateDiskMapping := False\<rparr>\<rparr>)
    else Inl ExitFailure)"
proof -
  have accept: "ke_accept ke r" "ke_munmap ke" "ke_mmap ke o' \<longleftrightarrow> PAGE_SIZE dvd o'" for r o'
    using assms(1) by (auto simp: granting_def generous_def)
  show ?thesis
    using assms(2,3) by (simp add: check_disk_def update_disk_window_def set_region_def accept off_def Let_def mult.commute)
      (simp add: regionOptionRom_Unmap_def region_unmap_def regionOptionRom_Disk_def PAGE_SIZE_def)
qed

lemma io_exit_controls:
  assumes inv: "controls (ke_build ke) c m" and host: "granting ke" and ok: "0 < io_size x" "io_size x \<le> length (io_data x)"
  shows "case handle_io ke am x m of
      Inl e \<Rightarrow> react_io (ke_build ke) x c = Inl (without_text e)
    | Inr (m', data) \<Rightarrow> \<exists>c'. react_io (ke_build ke) x c = Inr c' \<and> controls (ke_build ke) c' m'"
proof (cases "dispatch_io (ke_build ke) am x m")
  case (Inl e)
  have "device_inv m" using inv by (simp add: controls_def machine_inv_def)
  from access_outcome [OF this ok, where bd = "ke_build ke" and am = am] Inl show ?thesis
    by (simp add: handle_io_def react_io_def Let_def)
next
  case (Inr md)
  let ?bd = "ke_build ke" and ?p = "unat (io_port x)"
  obtain m1 data where m1: "dispatch_io ?bd am x m = Inr (m1, data)" using Inr by (cases md) simp
  have m: "device_inv m" "memory_inv ?bd m" "settled m" and c: "control_of m = c"
    and slots: "fb_slots (m_memory m) = control_slots ?bd c"
    using inv by (simp_all add: controls_def machine_inv_def)
  have out: "access_fault ?bd x = None" "board_after ?bd x (m_board m) (m_board m1)" "m_memory m1 = m_memory m"
    "m_disk m1 = m_disk m" "m_lastA20 m1 = m_lastA20 m" "m_requestExit m1 = m_requestExit m"
    using access_outcome [OF m(1) ok, where bd = ?bd and am = am] m1 by simp_all
  have i1: "device_inv m1" "memory_inv ?bd m1" using dispatch_inv [OF m(1,2) m1] by simp_all
  have gen: "generous ke" using host by (simp add: granting_def)
  obtain m2 where m2: "check_a20 ke m1 = Inr m2" using check_a20_served [OF gen] by blast
  obtain a s where u: "update_a20 ?bd (ke_accept ke) (a20register (m_board m1)) (m_lastA20 m1) (fb_slots (m_memory m1)) = Inr (a, s)"
    and m2_eq: "m2 = (set_slots s m1)\<lparr>m_lastA20 := a\<rparr>"
    using m2 by (auto simp: check_a20_def result_simps)
  have a20: "a20_consistent ?bd (m_lastA20 m1) (fb_slots (m_memory m1))" using i1(2) by (simp add: memory_inv_def)
  define c1 where "c1 = c\<lparr>c_a20 := bit (a20register (m_board m1)) 1, c_sector := lba_bytes (selectedDiskLBA (m_board m1))\<rparr>"
  have s: "s = control_slots ?bd c1"
  proof
    fix n
    have "s 3 = a20_region ?bd (a20register (m_board m1) AND 2 \<noteq> 0)"
      using update_a20_consistent [OF a20 u] by (simp add: a20_consistent_def)
    then have "s 3 = a20_region ?bd (bit (a20register (m_board m1)) 1)" by (simp only: bit_1_iff_and_2)
    moreover have "n \<noteq> 3 \<Longrightarrow> s n = control_slots ?bd c n" using update_a20_consistent [OF a20 u] out(3) slots by simp
    ultimately show "s n = control_slots ?bd c1 n" by (auto simp: control_slots_def c1_def)
  qed
  have view: "control_of m2 = c1" "fb_slots (m_memory m2) = control_slots ?bd c1" "m_board m2 = m_board m1"
    using c out(4,6) by (auto simp: control_of_def c1_def m2_eq set_slots_def s)
  have pend: "updateDiskMapping (m_board m1) \<longleftrightarrow> io_out x \<and> disk_port ?bd ?p \<and> 0xD004 \<le> ?p"
    using out(2) m(3) by (simp add: board_after_def settled_def Let_def)
  have h: "handle_io ke am x m = and_then (check_disk ke m2) (\<lambda>m3. Inr (m3, data))"
    by (simp add: handle_io_def m1 m2)
  have c_eq: "c_a20 c = bit (a20register (m_board m)) 1" "c_sector c = lba_bytes (selectedDiskLBA (m_board m))"
    using c by (auto simp: control_of_def)
  show ?thesis
  proof (cases "updateDiskMapping (m_board m1)")
    case False
    then have "check_disk ke m2 = Inr m2" by (simp add: check_disk_def view(3))
    then have "handle_io ke am x m = Inr (m2, data)" by (simp add: h)
    moreover have "react_io ?bd x c = Inr c1"
      using out(1,2) False pend c_eq by (auto simp: react_io_def board_after_def c1_def disk_port_def Let_def)
    moreover have "machine_inv ?bd m2" using handle_io_inv [of ke m am x m2 data] calculation(1) inv by (simp add: controls_def)
    ultimately show ?thesis using view by (simp add: controls_def)
  next
    case True
    then have p: "io_out x" "disk_port ?bd ?p" "0xD004 \<le> ?p" "?p \<noteq> 0x92" using pend by (auto simp: disk_port_def)
    then have c1: "c1 = c" using out(2) c_eq by (simp add: board_after_def c1_def Let_def)
    let ?off = "512 * unat (selectedDiskLBA (m_board m2))"
    have off: "?off = 512 * le_val (c_sector c)" using view(1) by (auto simp: c1 le_val_lba_bytes control_of_def)
    have "VIRTUAL_DISK ?bd" "updateDiskMapping (m_board m2)" using p(2) True by (simp_all add: disk_port_def view(3))
    note disk = check_disk_granting [OF host this]
    have react: "react_io ?bd x c = (if PAGE_SIZE dvd ?off then Inr (c\<lparr>c_window := Some ?off\<rparr>) else Inl ExitFailure)"
      using out(1) p by (simp add: react_io_def off Let_def)
    show ?thesis
    proof (cases "PAGE_SIZE dvd ?off")
      case False
      then show ?thesis by (simp add: h disk react)
    next
      case dvd: True
      then obtain m3 where m3: "check_disk ke m2 = Inr m3" and hm: "handle_io ke am x m = Inr (m3, data)"
        by (simp add: h disk)
      then have "m3 = (set_slots ((control_slots ?bd c)(7 \<mapsto> regionOptionRom_Disk)) m2)\<lparr>m_disk := Some ?off,
          m_board := (m_board m2)\<lparr>updateDiskMapping := False\<rparr>\<rparr>"
        using disk dvd view(2) by (simp add: c1)
      then have "control_of m3 = c\<lparr>c_window := Some ?off\<rparr> \<and>
          fb_slots (m_memory m3) = control_slots ?bd (c\<lparr>c_window := Some ?off\<rparr>)"
        using view(1) p(2) by (auto simp: control_of_def c1 set_slots_def control_slots_def disk_port_def)
      moreover have "machine_inv ?bd m3" using handle_io_inv [OF _ hm] inv by (simp add: controls_def)
      ultimately show ?thesis using dvd by (simp add: hm react controls_def)
    qed
  qed
qed

lemma exit_controls:
  assumes inv: "controls (ke_build ke) c m" and "granting ke" and "exit_ok e"
  shows "case handle_exit ke am e m of
      Inl err \<Rightarrow> react (ke_build ke) e c = Inl (without_text err)
    | Inr (m', data) \<Rightarrow> \<exists>c'. react (ke_build ke) e c = Inr c' \<and> controls (ke_build ke) c' m'"
proof (cases e)
  case (ExitIo x)
  then have "handle_exit ke am e m = handle_io ke am x m" "react (ke_build ke) e c = react_io (ke_build ke) x c"
    "0 < io_size x" "io_size x \<le> length (io_data x)"
    using assms(3) by (simp_all add: handle_exit_def)
  then show ?thesis using io_exit_controls [OF assms(1,2), of x am] by (simp only:)
next
  case ExitHlt
  then show ?thesis
    using inv by (auto simp: handle_exit_def controls_def machine_inv_request control_of_def control_slots_def)
next
  case (ExitMmio x)
  have "m\<lparr>m_memory := m_memory m\<rparr> = m" by simp
  then show ?thesis using inv ExitMmio by (auto simp: handle_exit_def handle_mmio_def in_flash_window_False)
qed (use inv in \<open>simp_all add: handle_exit_def\<close>)

lemma sigint_controls: "controls bd c m \<Longrightarrow> controls bd (c\<lparr>c_stop := True\<rparr>) (sigintHandler m)"
  by (auto simp: controls_def control_of_def control_slots_def sigintHandler_def machine_inv_request)

text \<open>
  C9. On any returns of KVM_RUN, in any build, while KVM and the host grant requests for whole pages,
  the run loop refines a specification stated without devices, handlers and memory slots: it ends at
  the same turn with the same kind of exception, failed assertion, memory violation or exit status that
  the specification gives for the port, width, count and direction of the access, or it reaches a
  consistent machine with the specified stop request, A20 line, sector register and disk window, whose
  memory slots are exactly those that the control state stands for.
\<close>

theorem run_loop_refines_its_control:
  assumes "controls (ke_build ke) c m" and "granting ke" and "\<forall>e. Exited e \<in> set (map snd rs) \<longrightarrow> exit_ok e"
  shows "case run_loop ke rs m of
      Inl err \<Rightarrow> control_loop (ke_build ke) (map snd rs) c = Inl (without_text err)
    | Inr (stopped, m', outs) \<Rightarrow> \<exists>c'. control_loop (ke_build ke) (map snd rs) c = Inr (stopped, c') \<and> controls (ke_build ke) c' m'"
  using assms(1,3)
proof (induction rs arbitrary: m c)
  case Nil
  then show ?case by (auto simp: controls_def control_of_def)
next
  case (Cons ar rs)
  obtain am r where ar: "ar = (am, r)" by (cases ar)
  note IH = Cons.IH
  have stop: "m_requestExit m = c_stop c" using Cons.prems(1) by (auto simp: controls_def control_of_def)
  show ?case
  proof (cases "c_stop c")
    case True
    then show ?thesis using Cons.prems(1) stop by (simp add: ar)
  next
    case False
    show ?thesis
    proof (cases r)
      case RunError
      then show ?thesis using Cons.prems(1) stop False by (simp add: ar)
    next
      case (Eintr sigint)
      have "controls (ke_build ke) (if sigint then c\<lparr>c_stop := True\<rparr> else c) (if sigint then sigintHandler m else m)"
        using Cons.prems(1) sigint_controls [of "ke_build ke" c m] by simp
      moreover have "\<forall>e. Exited e \<in> set (map snd rs) \<longrightarrow> exit_ok e" using Cons.prems(2) by simp
      moreover have "run_loop ke (ar # rs) m = run_loop ke rs (if sigint then sigintHandler m else m)"
        "control_loop (ke_build ke) (map snd (ar # rs)) c =
          control_loop (ke_build ke) (map snd rs) (if sigint then c\<lparr>c_stop := True\<rparr> else c)"
        using Eintr stop False by (simp_all add: ar)
      ultimately show ?thesis using IH by (simp only:)
    next
      case (Exited e)
      then have "exit_ok e" using Cons.prems(2) by (simp add: ar)
      note step = exit_controls [OF Cons.prems(1) assms(2) this, of am]
      show ?thesis
      proof (cases "handle_exit ke am e m")
        case (Inl err)
        then show ?thesis using step Exited stop False by (simp add: ar)
      next
        case (Inr md)
        then obtain m1 data c1 where h: "handle_exit ke am e m = Inr (m1, data)" "react (ke_build ke) e c = Inr c1"
            "controls (ke_build ke) c1 m1"
          using step by (cases md) auto
        have "\<forall>e. Exited e \<in> set (map snd rs) \<longrightarrow> exit_ok e" using Cons.prems(2) by simp
        from IH [OF h(3) this] show ?thesis
          using h(1,2) Exited stop False by (auto simp: ar split: sum.splits prod.splits)
      qed
    qed
  qed
qed

lemma initial_control:
  "control_of (machine_init coms w nvram f s) = initial_state" "control_slots bd initial_state = initial_slots bd"
proof -
  have "(2 :: u8) AND 2 \<noteq> 0" by simp
  then have on: "bit (2 :: u8) 1" by (simp only: bit_1_iff_and_2)
  have lba: "lba_bytes 0 = [0, 0, 0, 0]" using le_bytes_le_val [of "[0, 0, 0, 0]" 4] by (simp add: lba_bytes_def)
  show "control_of (machine_init coms w nvram f s) = initial_state"
    using on by (simp add: control_of_def initial_state_def machine_init_def board_init_def lba)
  show "control_slots bd initial_state = initial_slots bd"
    by (rule ext) (simp add: control_slots_def initial_state_def initial_slots_def a20_region_def)
qed

lemma initial_memory: "fb_slots (m_memory (machine_init coms w nvram f s)) = s"
  by (simp add: machine_init_def)

section \<open>The theorems at concrete inputs\<close>

lemma example_machine_controls: "controls full_build initial_state example_machine"
  using example_machine_inv
  by (simp add: controls_def example_build(1)) (simp add: example_machine_def initial_control initial_memory)

text \<open>
  The guest turns the A20 line off, selects sector 8, opens the window and then reads the hex display, which ends
  the emulator.
\<close>

definition example_session :: "kvm_exit list" where
  "example_session = [ExitIo (byte_out 0x92 0), ExitIo (byte_out 0xD000 8), ExitIo (byte_out 0xD004 1)]"

definition example_returns :: "kvm_exit list \<Rightarrow> (ambient \<times> run_result) list" where
  "example_returns es = map (\<lambda>e. (example_ambient, Exited e)) es"

lemma example_react:
  "react full_build (ExitIo (byte_out 0x92 0)) initial_state = Inr (initial_state\<lparr>c_a20 := False\<rparr>)"
  "react full_build (ExitIo (byte_out 0xD000 8)) c = Inr (c\<lparr>c_sector := overwrite 0 [8] (c_sector c)\<rparr>)"
  "react full_build (ExitIo (byte_out 0xD004 1)) c = (if PAGE_SIZE dvd 512 * le_val (c_sector c)
     then Inr (c\<lparr>c_window := Some (512 * le_val (c_sector c))\<rparr>) else Inl ExitFailure)"
  "react full_build (ExitIo (byte_in 0xE000)) c = Inl (ThrowRuntimeError [])"
  by (simp_all add: react_io_def access_fault_def aborts_def refused_def device_port_def disk_port_def byte_out_def byte_in_def
      full_build_def)

theorem run_loop_refines_its_control_witness:
  "\<exists>m outs. run_loop example_env (example_returns example_session) example_machine = Inr (False, m, outs) \<and>
     m_disk m = Some 4096 \<and> fb_slots (m_memory m) 3 = Some regionRamWrap \<and>
     (\<exists>msg. run_loop example_env (example_returns (example_session @ [ExitIo (byte_in 0xE000)])) example_machine =
        Inl (ThrowRuntimeError msg))"
proof -
  have host: "granting example_env" using example_env_generous by (simp add: granting_def example_env_def)
  have ok: "exit_ok e" if "Exited e \<in> set (map snd (example_returns (example_session @ [ExitIo (byte_in 0xE000)])))" for e
    using that by (auto simp: example_returns_def example_session_def byte_out_def byte_in_def)
  then have ok': "exit_ok e" if "Exited e \<in> set (map snd (example_returns example_session))" for e
    using that by (simp add: example_returns_def)
  let ?c = "\<lparr>c_stop = False, c_a20 = False, c_sector = [8, 0, 0, 0], c_window = Some 4096\<rparr>"
  have page: "PAGE_SIZE dvd 4096" by (simp add: PAGE_SIZE_def)
  have spec: "control_loop full_build (map snd (example_returns example_session)) initial_state = Inr (False, ?c)"
    "control_loop full_build (map snd (example_returns (example_session @ [ExitIo (byte_in 0xE000)]))) initial_state =
       Inl (ThrowRuntimeError [])"
    using page by (simp_all add: example_returns_def example_session_def example_react del: react.simps)
      (simp_all add: initial_state_def overwrite_def example_react del: react.simps)
  note loop = run_loop_refines_its_control [OF example_machine_controls [folded example_build(1)] host, unfolded example_build(1)]
  from loop [of "example_returns example_session"] ok' spec(1)
  obtain m outs where m: "run_loop example_env (example_returns example_session) example_machine = Inr (False, m, outs)"
    and "controls full_build ?c m"
    by (auto split: sum.splits)
  then have "m_disk m = Some 4096 \<and> fb_slots (m_memory m) 3 = Some regionRamWrap"
    by (simp add: controls_def control_of_def control_slots_def a20_region_def)
  moreover have "\<exists>msg. run_loop example_env (example_returns (example_session @ [ExitIo (byte_in 0xE000)])) example_machine =
      Inl (ThrowRuntimeError msg)"
    using loop [of "example_returns (example_session @ [ExitIo (byte_in 0xE000)])"] ok spec(2)
    by (auto split: sum.splits elim: without_text.elims)
  ultimately show ?thesis using m by blast
qed

end
