(* ===== verification/Emulator.thy ===== *)
theory Emulator
  imports Boot Run_Control
begin

text \<open>
  The whole program as it runs (src/main.cpp): the machine the setup leaves, with exits of the virtual CPU, events of
  the ports' clients and timers and the interrupt signal in any order. The four ports share one event loop.
\<close>

section \<open>The program runs\<close>

text \<open>What happens to the machine: an exit, the signal, or a step of a port's other side.\<close>

datatype emulator_event = GuestExit kvm_exit | Sigint | PortEvent nat line_label

fun host_side :: "line_label \<Rightarrow> bool" where
  "host_side (Wrote a v) \<longleftrightarrow> False"
| "host_side (DidRead a) \<longleftrightarrow> False"
| "host_side lab \<longleftrightarrow> True"

text \<open>\<open>accept\<close> returns a descriptor that no port has a handler for.\<close>

definition unused :: "machine \<Rightarrow> fd \<Rightarrow> bool" where
  "unused m fd \<longleftrightarrow> (\<forall>p \<in> set (m_coms m). fd \<notin> watched (mEventLoop (com p)))"

inductive emulator_step :: "(ctl_op \<Rightarrow> fd \<Rightarrow> bool) \<Rightarrow> (nat \<Rightarrow> nat option \<Rightarrow> nat option) \<Rightarrow> kvm_env \<Rightarrow>
    machine \<Rightarrow> emulator_event \<Rightarrow> machine \<Rightarrow> bool"
  for ctl settime ke where
  exit_step: "\<not> m_requestExit m \<Longrightarrow> am_settime am = settime \<Longrightarrow> handle_exit ke am e m = Inr (m', data) \<Longrightarrow>
     emulator_step ctl settime ke m (GuestExit e) m'"
| sigint_step: "emulator_step ctl settime ke m Sigint (sigintHandler m)"
| port_step: "i < length (m_coms m) \<Longrightarrow> host_side lab \<Longrightarrow> (lab = Connected \<Longrightarrow> unused m (hd (backlog (env (line_of m i))))) \<Longrightarrow>
     line_step ctl settime (line_of m i) lab l' \<Longrightarrow> emulator_step ctl settime ke m (PortEvent i lab) (put_line i m l')"

inductive emulator_run :: "(ctl_op \<Rightarrow> fd \<Rightarrow> bool) \<Rightarrow> (nat \<Rightarrow> nat option \<Rightarrow> nat option) \<Rightarrow> kvm_env \<Rightarrow>
    (machine \<Rightarrow> emulator_event \<Rightarrow> bool) \<Rightarrow> machine \<Rightarrow> machine \<Rightarrow> bool"
  for ctl settime ke guard m0 where
  emulator_start: "emulator_run ctl settime ke guard m0 m0"
| emulator_next: "emulator_run ctl settime ke guard m0 m \<Longrightarrow> emulator_step ctl settime ke m ev m' \<Longrightarrow> guard m ev \<Longrightarrow>
     emulator_run ctl settime ke guard m0 m'"

section \<open>The emulator keeps its invariants\<close>

text \<open>The step of a serial port that an exit makes, if it makes one.\<close>

fun exit_label :: "kvm_exit \<Rightarrow> (nat \<times> line_label) option" where
  "exit_label (ExitIo x) =
     (case device_for (io_port x) of
        Some (ComDev i) \<Rightarrow> Some (i, if io_out x then Wrote (io_port x) (io_data x ! 0) else DidRead (io_port x))
      | _ \<Rightarrow> None)"
| "exit_label e = None"

lemma checks_coms:
  "check_a20 ke m = Inr m' \<Longrightarrow> m_coms m' = m_coms m \<and> m_net m' = m_net m"
  "check_disk ke m = Inr m' \<Longrightarrow> m_coms m' = m_coms m \<and> m_net m' = m_net m"
  by (auto simp: check_a20_def check_disk_def set_slots_def result_simps split: if_splits)

lemma perform_device_coms:
  assumes "perform_device am dev x m = Inr (m', buf)"
  shows "m_net m' = m_net m \<and> (case dev of
      ComDev i \<Rightarrow> \<exists>l'. m_coms m' = (m_coms m)[i := detach l'] \<and> net l' = m_net m \<and> mEventLoop (com l') = mEventLoop (com (m_coms m ! i)) \<and>
        line_step ctl (am_settime am) (line_of m i) (if io_out x then Wrote (io_port x) (io_data x ! 0) else DidRead (io_port x)) l'
    | _ \<Rightarrow> m_coms m' = m_coms m)"
proof (cases dev)
  case (ComDev i)
  with assms obtain d' where
    d': "performKVMExitOperation (serial_ops (am_settime am)) (line_of m i)
      (io_out x) (io_port x) (io_data x) (io_size x) = Inr (d', buf)" and m': "m' = put_line i m d'"
    by (auto simp: perform_device_def dest!: on_device_Inr)
  from com_access_step [OF d', of ctl] com_access_frame [OF d'] m' ComDev show ?thesis
    by (auto simp: put_line_def line_of_def)
qed (use assms in \<open>auto simp: perform_device_def dest!: on_device_Inr\<close>)

text \<open>An exit leaves the ports as they are or makes one step of one of them, which the event loop does not notice.\<close>

lemma exit_coms:
  assumes "handle_exit ke am e m = Inr (m', data)"
  shows "m_net m' = m_net m \<and> (case exit_label e of
      Some (i, lab) \<Rightarrow> \<exists>l'. m_coms m' = (m_coms m)[i := detach l'] \<and> net l' = m_net m \<and>
        mEventLoop (com l') = mEventLoop (com (m_coms m ! i)) \<and> line_step ctl (am_settime am) (line_of m i) lab l'
    | None \<Rightarrow> m_coms m' = m_coms m)"
proof (cases e)
  case (ExitIo x)
  then obtain m1 m2 where m1: "dispatch_io (ke_build ke) am x m = Inr (m1, data)" and m2: "check_a20 ke m1 = Inr m2"
    and m3: "check_disk ke m2 = Inr m'"
    using assms by (auto simp: handle_exit_def handle_io_def result_simps)
  have same: "m_coms m' = m_coms m1 \<and> m_net m' = m_net m1" using checks_coms(1) [OF m2] checks_coms(2) [OF m3] by simp
  show ?thesis
  proof (cases "device_for (io_port x)")
    case None
    then show ?thesis using m1 same ExitIo by (auto simp: dispatch_io_def result_simps)
  next
    case (Some dev)
    then have "perform_device am dev x m = Inr (m1, data)" using m1 by (auto simp: dispatch_io_def result_simps)
    from perform_device_coms [OF this, of ctl] show ?thesis using Some same ExitIo by (cases dev) simp_all
  qed
qed (use assms in \<open>auto simp: handle_exit_def result_simps\<close>)

text \<open>The guest transfers data with a divisor in the range of the timers.\<close>

fun paced_event :: "machine \<Rightarrow> emulator_event \<Rightarrow> bool" where
  "paced_event m (GuestExit e) \<longleftrightarrow> (case exit_label e of Some (i, lab) \<Rightarrow> paced (line_of m i) lab | None \<Rightarrow> True)"
| "paced_event m ev \<longleftrightarrow> True"

text \<open>
  A property of a port that its own steps keep, \<open>allowed\<close> permitting, and that the steps of a port with other
  descriptors leave alone, is kept by the emulator for all its ports.
\<close>

definition all_ports :: "(line \<Rightarrow> bool) \<Rightarrow> machine \<Rightarrow> bool" where
  "all_ports P m \<longleftrightarrow> (\<forall>i < length (m_coms m). P (line_of m i))"

lemma apart_update:
  assumes "apart ps" and "\<And>j. j < length ps \<Longrightarrow> j \<noteq> i \<Longrightarrow> watched (mEventLoop (com p)) \<inter> watched (mEventLoop (com (ps ! j))) = {}"
  shows "apart (ps[i := p])"
  unfolding apart_def
proof (intro allI impI)
  fix j k assume "j < length (ps[i := p])" "k < length (ps[i := p])" "j \<noteq> k"
  then show "watched (mEventLoop (com (ps[i := p] ! j))) \<inter> watched (mEventLoop (com (ps[i := p] ! k))) = {}"
    using assms(1) assms(2) [of j] assms(2) [of k]
    by (cases "j = i"; cases "k = i") (auto simp: apart_def)
qed

lemma attach_update:
  assumes "\<And>j. j < length ps \<Longrightarrow> j \<noteq> i \<Longrightarrow> P (attach (ps ! j) w)" and "i < length ps \<Longrightarrow> P l" and "net l = w"
    and "j < length ps"
  shows "P (attach (ps[i := detach l] ! j) w)"
  using assms attach_simps(6) [of l] by (cases "j = i") auto

locale port_property =
  fixes ctl :: "ctl_op \<Rightarrow> fd \<Rightarrow> bool" and settime :: "nat \<Rightarrow> nat option \<Rightarrow> nat option"
    and good :: "line \<Rightarrow> bool" and allowed :: "line \<Rightarrow> line_label \<Rightarrow> bool"
  assumes step_good: "line_step ctl settime l lab l' \<Longrightarrow> allowed l lab \<Longrightarrow> good l \<Longrightarrow> good l'"
    and host_allowed: "host_side lab \<Longrightarrow> allowed l lab"
    and elsewhere: "ports_inv ps w \<Longrightarrow> i < length ps \<Longrightarrow> j < length ps \<Longrightarrow> j \<noteq> i \<Longrightarrow> own_step (attach (ps ! i) w) l' \<Longrightarrow>
      watched (mEventLoop (com l')) \<inter> watched (mEventLoop (com (ps ! j))) = {} \<Longrightarrow> good (attach (ps ! j) w) \<Longrightarrow>
      good (attach (ps ! j) (net l'))"
begin

lemma emulator_step_good:
  assumes "emulator_step ctl settime ke m ev m'" and "ports_inv (m_coms m) (m_net m)" and "apart (m_coms m)" and "all_ports good m"
    and "\<And>e i lab. ev = GuestExit e \<Longrightarrow> exit_label e = Some (i, lab) \<Longrightarrow> allowed (line_of m i) lab"
  shows "apart (m_coms m') \<and> all_ports good m'"
  using assms(1)
proof cases
  case (exit_step am e data)
  show ?thesis
  proof (cases "exit_label e")
    case None
    then show ?thesis using exit_coms [OF exit_step(4), of ctl] assms(3,4) by (simp add: all_ports_def line_of_def)
  next
    case (Some ilab)
    obtain i lab where ilab: "ilab = (i, lab)" by (cases ilab)
    then obtain l' where l': "m_coms m' = (m_coms m)[i := detach l']" "m_net m' = m_net m" "net l' = m_net m"
      "mEventLoop (com l') = mEventLoop (com (m_coms m ! i))" "line_step ctl settime (line_of m i) lab l'"
      using exit_coms [OF exit_step(4), of ctl] Some exit_step(3) by auto
    have "allowed (line_of m i) lab" using assms(5) exit_step(1) Some ilab by blast
    then have "i < length (m_coms m) \<Longrightarrow> good l'"
      using assms(4) step_good [OF l'(5)] by (auto simp: all_ports_def)
    then have "all_ports good m'"
      using assms(4) l'(1-3) by (auto simp: all_ports_def line_of_def intro: attach_update)
    moreover have "apart (m_coms m')"
    proof (cases "i < length (m_coms m)")
      case True
      then show ?thesis unfolding l'(1)
        by (intro apart_update assms(3)) (use assms(3) l'(4) in \<open>simp add: apart_def\<close>)
    qed (use assms(3) l'(1) in \<open>simp add: list_update_beyond\<close>)
    ultimately show ?thesis by simp
  qed
next
  case sigint_step
  then show ?thesis using assms(3,4) by (simp add: sigintHandler_def all_ports_def line_of_def)
next
  case (port_step i lab l')
  note inv = assms(2) and i = port_step(3)
  have l: "net_inv (line_of m i)" "tagged (fds (com (line_of m i))) (line_of m i)"
    using ports_inv_net_inv [OF inv i] inv i by (simp_all add: line_of_def ports_inv_def)
  have own: "own_step (attach (m_coms m ! i) (m_net m)) l'"
    using line_step_own [OF port_step(6) l] by (simp add: line_of_def)
  have disj: "watched (mEventLoop (com l')) \<inter> watched (mEventLoop (com (m_coms m ! j))) = {}"
    if j: "j < length (m_coms m)" "j \<noteq> i" for j
  proof -
    have "lab = Connected \<Longrightarrow> hd (backlog (env (line_of m i))) \<notin> watched (mEventLoop (com (m_coms m ! j)))"
      using port_step(5) j(1) by (simp add: unused_def)
    moreover have "watched (mEventLoop (com (m_coms m ! i))) \<inter> watched (mEventLoop (com (m_coms m ! j))) = {}"
      using assms(3) i j by (simp add: apart_def)
    ultimately show ?thesis using line_step_watched [OF port_step(6)] by (auto simp: line_of_def split: if_splits)
  qed
  have "good l'" using step_good [OF port_step(6) host_allowed [OF port_step(4)]] assms(4) i by (simp add: all_ports_def)
  moreover have "good (attach (m_coms m ! j) (net l'))" if "j < length (m_coms m)" "j \<noteq> i" for j
    using elsewhere [OF inv i that own disj [OF that]] assms(4) that by (simp add: all_ports_def line_of_def)
  ultimately have "all_ports good m'"
    by (auto simp: port_step(2) all_ports_def line_of_def put_line_def intro: attach_update)
  then show ?thesis using apart_update [OF assms(3), of i "detach l'"] disj by (simp add: port_step(2) put_line_def)
qed

end

lemma step_port_inv: "line_step ctl settime l lab l' \<Longrightarrow> port_inv l \<Longrightarrow> port_inv l'"
proof (induction rule: line_step.induct)
  case (step_write l a v l')
  then show ?case by (blast intro: serial_iowrite8_inv)
next
  case (step_read l a l' v)
  then show ?case by (blast intro: serial_ioread8_inv)
next
  case (step_read_timeout l n)
  then show ?case by (intro handlers_port_inv) (simp add: port_inv_def)
next
  case (step_write_timeout l n)
  then show ?case by (intro handlers_port_inv) (simp add: port_inv_def)
next
  case (step_dial l fd)
  then show ?case by (simp add: port_inv_def)
next
  case (step_arrive l fd bs)
  then show ?case by (simp add: port_inv_def)
qed (simp_all add: handlers_port_inv)

interpretation sound_ports: port_property ctl settime port_inv "\<lambda>_ _. True" for ctl settime
  by unfold_locales (blast intro: step_port_inv, simp_all add: port_inv_def)

interpretation live_ports: port_property ctl settime
    "\<lambda>l. accepts ctl \<and> timerfd_spec settime \<longrightarrow> port_live l" paced for ctl settime
proof unfold_locales
  fix l lab l'
  assume "line_step ctl settime l lab l'" "paced l lab" "accepts ctl \<and> timerfd_spec settime \<longrightarrow> port_live l"
  then show "accepts ctl \<and> timerfd_spec settime \<longrightarrow> port_live l'"
    using line_step_running [of ctl settime l lab l'] line_step_live [of ctl settime l lab l']
    by (simp add: port_live_def)
next
  fix lab l assume "host_side lab" then show "paced l lab" by (cases lab) simp_all
qed (blast intro: port_live_elsewhere)

lemma port_step_inv:
  assumes "device_inv m" and "i < length (m_coms m)" and "line_step ctl settime (line_of m i) lab l'"
  shows "device_inv (put_line i m l')"
proof -
  note l = line_of_inv [OF assms(1,2)]
  show ?thesis
    using put_line_inv [OF assms(1,2)] line_step_own [OF assms(3) l(1,2)] own_step_change step_port_inv [OF assms(3) l(3)] by blast
qed

lemma emulator_step_inv:
  assumes "emulator_step ctl settime ke m ev m'" and "machine_inv (ke_build ke) m"
  shows "machine_inv (ke_build ke) m' \<and> fb_flash (m_memory m') = fb_flash (m_memory m)"
  using assms(1)
proof cases
  case (exit_step am e data)
  then show ?thesis using handle_exit_inv [OF assms(2)] by blast
next
  case sigint_step
  then show ?thesis using assms(2) by simp
next
  case (port_step i lab l')
  then show ?thesis
    using port_step_inv [of m i ctl settime lab l'] put_line_machine_inv [OF assms(2)] assms(2)
    by (simp add: machine_inv_def) (simp add: put_line_def)
qed

lemma emulator_run_inv:
  "emulator_run ctl settime ke guard m0 m \<Longrightarrow> machine_inv (ke_build ke) m0 \<Longrightarrow>
     machine_inv (ke_build ke) m \<and> fb_flash (m_memory m) = fb_flash (m_memory m0)"
proof (induction rule: emulator_run.induct)
  case (emulator_next m ev m')
  then show ?case using emulator_step_inv [OF emulator_next.hyps(2)] by simp
qed simp

text \<open>
  C1. From the setup on, in every interleaving of virtual CPU exits, interrupt signals and events of
  the serial ports' clients and timers, every device keeps its invariant, every memory slot holds one
  of its regions, the A20 wrap slot agrees with the A20 register, no disk update stays pending, and the
  flash holds what it held at the start; in every build.
\<close>

theorem emulator_stays_consistent:
  assumes "main_setup (ke_build ke) page answer s0 lres ctl results nvram flash0 = Inr m0" and "build_ok (ke_build ke)"
    and "length results = 4" and "emulator_run ctl settime ke guard m0 m"
  shows "machine_inv (ke_build ke) m \<and> fb_flash (m_memory m) = flash0"
proof -
  have "machine_inv (ke_build ke) m0" using assms(1-3) by (rule main_setup_inv)
  moreover have "fb_flash (m_memory m0) = flash0"
    by (rule main_setup_Inr [OF assms(1)]) (simp add: machine_init_def)
  ultimately show ?thesis using emulator_run_inv [OF assms(4)] by simp
qed

definition machine_live :: "machine \<Rightarrow> bool" where
  "machine_live m \<longleftrightarrow> all_live (m_coms m) (m_net m)"

lemma emulator_run_live:
  assumes "emulator_run ctl settime ke paced_event m0 m" and "accepts ctl" and "timerfd_spec settime"
    and "machine_inv (ke_build ke) m0" and "machine_live m0"
  shows "machine_live m"
  using assms(1)
proof (induction rule: emulator_run.induct)
  case (emulator_next m ev m')
  have inv: "ports_inv (m_coms m) (m_net m)" "ports_inv (m_coms m') (m_net m')"
    using emulator_run_inv [OF emulator_next.hyps(1) assms(4)] emulator_step_inv [OF emulator_next.hyps(2)]
    by (simp_all add: machine_inv_def device_inv_def)
  have "apart (m_coms m') \<and> all_ports (\<lambda>l. accepts ctl \<and> timerfd_spec settime \<longrightarrow> port_live l) m'"
  proof (rule live_ports.emulator_step_good [OF emulator_next.hyps(2) inv(1)])
    show "apart (m_coms m)" "all_ports (\<lambda>l. accepts ctl \<and> timerfd_spec settime \<longrightarrow> port_live l) m"
      using emulator_next.IH by (simp_all add: machine_live_def all_live_def all_ports_def line_of_def)
  qed (use emulator_next.hyps(3) in auto)
  then show ?case
    using assms(2,3) inv(2) by (simp add: machine_live_def all_live_def all_ports_def line_of_def)
qed (rule assms(5))

text \<open>
  C2. In every run of the emulator in which the guest transfers data with divisors between 1 and 11519,
  each of the four ports watches its socket for new clients, has only clients whose descriptors do not
  block, and is readable, or watches all its clients for input, or has its read timer armed with the
  handler registered; the same for the transmitter. No condition is ever lost.
\<close>

theorem ports_of_the_emulator_stay_live:
  assumes "host_ready (ke_build ke) page answer s0 lres results" and "accepts ctl" and "timerfd_spec settime"
    and "main_setup (ke_build ke) page answer s0 lres ctl results nvram flash0 = Inr m0"
    and "emulator_run ctl settime ke paced_event m0 m" and "i < length (m_coms m)" and "l = line_of m i"
  shows "listens l (server (fds (com l))) EPOLLIN ServerEvent \<and> set (clients (fds (com l))) \<subseteq> nonblocking (net l) \<and>
    (readable (regs (com l)) \<or> awaits l 0 \<or>
      (\<exists>n. timers (env l) (readTimer (fds (com l))) = Some n \<and> listens l (readTimer (fds (com l))) EPOLLIN ReadTimerEvent)) \<and>
    (writable (regs (com l)) \<or> awaits l 2 \<or>
      (\<exists>n. timers (env l) (writeTimer (fds (com l))) = Some n \<and> listens l (writeTimer (fds (com l))) EPOLLIN WriteTimerEvent))"
proof -
  have "machine_live m0"
    using main_setup_ready [OF assms(1,2), of nvram flash0] assms(4) by (auto simp: machine_live_def machine_init_def)
  moreover have "machine_inv (ke_build ke) m0"
    using main_setup_inv [OF assms(4)] assms(1) by (simp add: host_ready_def)
  ultimately have "machine_live m" using emulator_run_live [OF assms(5,2,3)] by blast
  then have "port_live l" using assms(6,7) by (simp add: machine_live_def all_live_def line_of_def)
  then show ?thesis using live_port_waits [of l] by (simp add: port_live_def) (auto simp: running_def)
qed

section \<open>The loop of \<open>main\<close> makes runs of the emulator\<close>

lemma emulator_run_prepend:
  assumes "emulator_run ctl settime ke guard m1 m'" and "emulator_step ctl settime ke m ev m1" and "guard m ev"
  shows "emulator_run ctl settime ke guard m m'"
  using assms(1)
proof (induction rule: emulator_run.induct)
  case emulator_start
  have "emulator_run ctl settime ke guard m m" by (rule emulator_run.emulator_start)
  then show ?case using assms(2,3) by (rule emulator_run.emulator_next)
next
  case (emulator_next m2 ev2 m3)
  then show ?case by (blast intro: emulator_run.emulator_next)
qed

text \<open>Whatever \<open>KVM_RUN\<close> returns, what holds of the runs of the emulator holds of the loop.\<close>

lemma run_loop_makes_runs:
  assumes "\<forall>(am, r) \<in> set rs. am_settime am = settime" and "run_loop ke rs m = Inr (stopped, m', outs)"
  shows "emulator_run ctl settime ke (\<lambda>_ _. True) m m'"
  using assms
proof (induction rs arbitrary: m outs)
  case (Cons ar rs)
  obtain am r where ar: "ar = (am, r)" by (cases ar)
  have settime: "am_settime am = settime" using Cons.prems(1) by (simp add: ar)
  show ?case
  proof (cases "m_requestExit m")
    case True
    then show ?thesis using Cons.prems(2) by (simp add: ar emulator_start)
  next
    case False
    show ?thesis
    proof (cases r)
      case (Exited e)
      then obtain m1 data outs1 where h: "handle_exit ke am e m = Inr (m1, data)"
        and l: "run_loop ke rs m1 = Inr (stopped, m', outs1)"
        using Cons.prems(2) False by (auto simp: ar result_simps)
      have "emulator_run ctl settime ke (\<lambda>_ _. True) m1 m'" using Cons.prems(1) l by (intro Cons.IH) auto
      then show ?thesis using exit_step [OF False settime h] by (rule emulator_run_prepend) simp
    next
      case (Eintr sigint)
      then have l: "run_loop ke rs (if sigint then sigintHandler m else m) = Inr (stopped, m', outs)"
        using Cons.prems(2) False by (simp add: ar)
      have "emulator_run ctl settime ke (\<lambda>_ _. True) (if sigint then sigintHandler m else m) m'"
        using Cons.prems(1) l by (intro Cons.IH) auto
      then show ?thesis
        using emulator_run_prepend [OF _ sigint_step, where guard = "\<lambda>_ _. True"] by (cases sigint) auto
    next
      case RunError
      then show ?thesis using Cons.prems(2) False by (simp add: ar emulator_start)
    qed
  qed
qed (simp add: emulator_start)

text \<open>From the setup on, the loop is the one that \<open>run_loop_refines_its_control\<close> specifies.\<close>

lemma setup_controls:
  assumes "main_setup bd page answer s0 lres ctl results nvram flash0 = Inr m" and "build_ok bd" and "length results = 4"
  shows "controls bd initial_state m"
proof -
  have "\<exists>coms w. m = machine_init coms w nvram flash0 (initial_slots bd)" by (rule main_setup_Inr [OF assms(1)]) blast
  then show ?thesis using main_setup_inv [OF assms] by (auto simp: controls_def initial_control initial_memory)
qed

section \<open>The theorems at concrete inputs\<close>

text \<open>After the setup a client connects to COM2 and sends a byte, and the user interrupts the emulator.\<close>

definition example_dial :: "machine \<Rightarrow> machine" where
  "example_dial m = put_line 1 m (upd_env (\<lambda>h. h\<lparr>backlog := backlog h @ [50]\<rparr>) (line_of m 1))"

lemma example_dialled:
  assumes "main_setup full_build 4096 example_answer example_sregs example_loop_results example_ctl example_host_results None
      example_flash = Inr m0"
  defines "m1 \<equiv> example_dial m0"
  shows "emulator_step example_ctl example_settime ke m0 (PortEvent 1 (Dialled 50)) m1"
    and "length (m_coms m1) = 4" and "m_net m1 = m_net m0" and "backlog (env (line_of m1 1)) = [50]"
    and "interest (m_net m0) 50 = None" and "unused m1 50"
    and "map_of (mHandlers (mEventLoop (com (line_of m1 1)))) 50 = None" and "com (line_of m1 1) = com (line_of m0 1)"
proof -
  have four: "length (m_coms m0) = 4"
    using main_setup_inv [OF assms(1) builds_ok(2)] by (simp add: example_host_results_def machine_inv_def device_inv_def)
  have new: "interest (m_net m0) 50 = None \<and> (\<forall>p \<in> set (m_coms m0). 50 \<notin> held (com p) \<and> backlog (env p) = [])"
    using main_setup_elsewhere [OF assms(1), of 50]
    by (simp add: example_host_results_def example_port_results_def example_loop_results_def used_fds_def port_fds_def)
  have com2: "backlog (env (m_coms m0 ! 1)) = []" "50 \<notin> watched (mEventLoop (com (m_coms m0 ! 1)))"
    using new four by (simp_all add: held_def)
  show "emulator_step example_ctl example_settime ke m0 (PortEvent 1 (Dialled 50)) m1"
    unfolding m1_def example_dial_def by (rule port_step) (use four in \<open>simp_all add: step_dial\<close>)
  show "length (m_coms m1) = 4" "m_net m1 = m_net m0" "backlog (env (line_of m1 1)) = [50]" "com (line_of m1 1) = com (line_of m0 1)"
    "map_of (mHandlers (mEventLoop (com (line_of m1 1)))) 50 = None"
    using four com2 by (simp_all add: m1_def example_dial_def put_line_def line_of_def unwatched)
  show "interest (m_net m0) 50 = None" using new by simp
  have "50 \<notin> watched (mEventLoop (com p))" if "p \<in> set (m_coms m0)" for p using new that by (simp add: held_def)
  then show "unused m1 50"
    using com2(2) set_update_subset_insert [of "m_coms m0" 1] by (fastforce simp: unused_def m1_def example_dial_def put_line_def line_of_def)
qed

lemma example_emulator_run:
  assumes "main_setup full_build 4096 example_answer example_sregs example_loop_results example_ctl example_host_results None
      example_flash = Inr m0"
  shows "\<exists>m. emulator_run example_ctl example_settime example_env paced_event m0 m \<and> m_requestExit m \<and> length (m_coms m) = 4 \<and>
    clients (fds (com (line_of m 1))) = set_insert 50 (clients (fds (com (line_of m0 1)))) \<and> inbox (env (line_of m 1)) 50 \<noteq> []"
proof -
  let ?step = "emulator_step example_ctl example_settime example_env" and ?run = "emulator_run example_ctl example_settime example_env paced_event m0"
  define m1 where "m1 = example_dial m0"
  note m1 = example_dialled [OF assms, folded m1_def]
  define l2 where "l2 = server_handler example_ctl EPOLLIN (line_of m1 1)"
  define m2 where "m2 = put_line 1 m1 l2"
  from emulator_start m1(1) have r1: "?run m1" by (rule emulator_next) simp
  have "interest (net (line_of m1 1)) 50 = None" using m1(3,5) by (simp add: line_of_def)
  then have "line_step example_ctl example_settime (line_of m1 1) Connected l2"
    unfolding l2_def using m1(4,7) by (intro step_connect) simp_all
  then have "?step m1 (PortEvent 1 Connected) m2"
    unfolding m2_def by (rule port_step [rotated 3]) (use m1(2,4,6) in simp_all)
  with r1 have r2: "?run m2" by (rule emulator_next) simp
  have m2: "length (m_coms m2) = 4" "line_of m2 1 = l2" using m1(2) by (simp_all add: m2_def put_line_def line_of_def)
  let ?l = "upd_env (\<lambda>h. h\<lparr>inbox := (inbox h)(50 := inbox h 50 @ [65])\<rparr>) l2"
  have "?step m2 (PortEvent 1 (Arrived 50 [65])) (put_line 1 m2 ?l)"
    by (rule port_step) (use m2 in \<open>simp_all add: step_arrive\<close>)
  with r2 have "?run (put_line 1 m2 ?l)" by (rule emulator_next) simp
  then have "?run (sigintHandler (put_line 1 m2 ?l))" by (rule emulator_next [OF _ sigint_step]) simp
  moreover have "clients (fds (com l2)) = set_insert 50 (clients (fds (com (line_of m0 1))))"
    using m1(4,8) by (simp add: l2_def server_handler_def accept_fd_def Let_def EPOLLIN_def EPOLLERR_def)
  ultimately show ?thesis using m2 by (fastforce simp: sigintHandler_def put_line_def line_of_def)
qed

theorem emulator_stays_consistent_witness:
  "\<exists>m0 m. main_setup full_build 4096 example_answer example_sregs example_loop_results example_ctl example_host_results None example_flash = Inr m0 \<and>
     emulator_run example_ctl example_settime example_env paced_event m0 m \<and> m_requestExit m \<and> machine_inv full_build m"
proof -
  obtain m0 where m0: "main_setup full_build 4096 example_answer example_sregs example_loop_results example_ctl example_host_results None
      example_flash = Inr m0"
    using example_main_setup by blast
  have four: "length example_host_results = 4" by (simp add: example_host_results_def)
  obtain m where run: "emulator_run example_ctl example_settime example_env paced_event m0 m" and "m_requestExit m"
    using example_emulator_run [OF m0] by blast
  then show ?thesis using emulator_stays_consistent [of example_env, unfolded example_build(1), OF m0 builds_ok(2) four run] m0 by blast
qed

text \<open>The transmitter waits for the new client, or is ready.\<close>

theorem ports_of_the_emulator_stay_live_witness:
  "\<exists>m0 m. main_setup full_build 4096 example_answer example_sregs example_loop_results example_ctl example_host_results None example_flash = Inr m0 \<and>
     emulator_run example_ctl example_settime example_env paced_event m0 m \<and> 50 \<in> set (clients (fds (com (line_of m 1)))) \<and>
     (writable (regs (com (line_of m 1))) \<or> awaits (line_of m 1) 2 \<or>
        (\<exists>n. timers (env (line_of m 1)) (writeTimer (fds (com (line_of m 1)))) = Some n))"
proof -
  obtain m0 where m0: "main_setup full_build 4096 example_answer example_sregs example_loop_results example_ctl example_host_results None
      example_flash = Inr m0"
    using example_main_setup by blast
  obtain m where run: "emulator_run example_ctl example_settime example_env paced_event m0 m" and "1 < length (m_coms m)"
    and "clients (fds (com (line_of m 1))) = set_insert 50 (clients (fds (com (line_of m0 1))))"
    using example_emulator_run [OF m0] by auto
  then have "50 \<in> set (clients (fds (com (line_of m 1))))" by (simp add: set_insert_def set_insort_key)
  then show ?thesis
    using ports_of_the_emulator_stay_live [of example_env, unfolded example_build(1),
        OF example_host_ready accepts_example example_settime_spec m0 run \<open>1 < length (m_coms m)\<close> refl] m0 run by blast
qed

end
