(* ===== verification/Event_Thread.thy ===== *)
theory Event_Thread
  imports Emulator
begin

text \<open>
  The event thread of the program (src/EventLoop.cpp) on the handlers that the four serial ports registered
  (src/hardware/Serial.cpp). Its turns are steps of the emulator, so that what holds of the emulator's runs holds of
  the program with its two threads.
\<close>

section \<open>The thread and the machine\<close>

definition put_net :: "port_world \<Rightarrow> machine \<Rightarrow> machine" where
  "put_net w m = m\<lparr>m_net := w\<rparr>"

text \<open>A handler is a closure over the port that registered it.\<close>

fun machine_invoke :: "(ctl_op \<Rightarrow> fd \<Rightarrow> bool) \<Rightarrow> nat \<times> serial_handler \<Rightarrow> u32 \<Rightarrow> machine \<Rightarrow> machine result" where
  "machine_invoke ctl (i, h) events m =
     and_then (serial_invoke ctl h events (line_of m i)) (\<lambda>l. Inr (put_line i m l))"

lemma invoke_own:
  assumes "device_inv m" and "i < length (m_coms m)"
  obtains l' where "serial_invoke ctl h e (line_of m i) = Inr l'" and "own_step (line_of m i) l'"
    and "tagged (fds (com l')) l'" and "port_inv l'"
proof -
  note l = line_of_inv [OF assms]
  show ?thesis
    using that l handlers_own [OF l(1)] handlers_tagged [OF l(1,2)] handlers_port_inv [OF l(3)]
    by (cases h) (simp_all add: serial_invoke_def)
qed

text \<open>Every registered handler belongs to a port, for one of its descriptors.\<close>

lemma node_port:
  assumes "device_inv m" and "nodes (m_net m) a = Some (k, (i, h))"
  shows "i < length (m_coms m)" and "map_of (mHandlers (mEventLoop (com (line_of m i)))) k = Some a"
    and "handler_of k (fds (com (line_of m i))) h"
proof -
  show i: "i < length (m_coms m)" using assms unfolding device_inv_def ports_inv_def by blast
  note l = line_of_inv [OF assms(1) i]
  have "nodes (net (line_of m i)) a = Some (k, (self (com (line_of m i)), h))"
    using assms(2) l(4) by (simp add: line_of_def)
  then have "(k, a) \<in> set (mHandlers (mEventLoop (com (line_of m i)))) \<and> handler_of k (fds (com (line_of m i))) h"
    using l(2) unfolding tagged_def by blast
  then show "map_of (mHandlers (mEventLoop (com (line_of m i)))) k = Some a" "handler_of k (fds (com (line_of m i))) h"
    using l(1) by (simp_all add: net_inv_def loop_owns_def)
qed

lemma machine_invoke_inv:
  assumes "machine_inv bd m" and "nodes (m_net m) a = Some (k, (i, h))"
  shows "\<exists>m'. machine_invoke ctl (i, h) e m = Inr m' \<and> machine_inv bd m'"
proof -
  have d: "device_inv m" using assms(1) by (simp add: machine_inv_def)
  have i: "i < length (m_coms m)" using node_port [OF d assms(2)] by simp
  obtain l' where l': "serial_invoke ctl h e (line_of m i) = Inr l'" "own_step (line_of m i) l'" "tagged (fds (com l')) l'" "port_inv l'"
    by (rule invoke_own [OF d i])
  have "device_inv (put_line i m l')" by (rule put_line_inv [OF d i own_step_change [OF l'(2)] l'(3,4)])
  then show ?thesis using put_line_machine_inv [OF assms(1)] l'(1) by simp
qed

lemma interrupt_machine_inv:
  assumes "machine_inv bd m"
  shows "machine_inv bd (put_net (interrupt_handler (m_net m)) m)"
proof -
  have inv: "ports_inv (m_coms m) (m_net m)" using assms by (simp add: machine_inv_def device_inv_def)
  then have old: "loops_inv (loops (m_coms m)) (m_net m)" by (simp add: ports_inv_def)
  then have "world_inv (interrupt_handler (m_net m))" by (intro interrupt_handler_inv) (simp add: loops_inv_def)
  then have "loops_inv (loops (m_coms m)) (interrupt_handler (m_net m))"
    by (rule loops_inv_world [OF old]) (simp add: interrupt_handler_def)
  moreover have "nodes (interrupt_handler (m_net m)) = nodes (m_net m)" by (simp add: interrupt_handler_def)
  ultimately have "ports_inv (m_coms m) (interrupt_handler (m_net m))" using inv by (simp add: ports_inv_def tagged_def)
  then show ?thesis
    using assms by (simp add: machine_inv_def memory_inv_def settled_def put_net_def device_inv_def)
qed

lemma machine_inv_world: "machine_inv bd m \<Longrightarrow> world_inv (m_net m)"
  by (simp only: machine_inv_def device_inv_def ports_inv_def loops_inv_def)

interpretation thread: event_client m_net put_net "machine_invoke ctl" "machine_inv bd" for ctl bd
proof unfold_locales
  fix s :: machine and fd ev a h e
  assume s: "machine_inv bd s" and n: "nodes (m_net s) a = Some (fd, h)"
  obtain i g where h: "h = (i, g)" by (cases h)
  show "\<exists>s'. machine_invoke ctl h e s = Inr s' \<and> machine_inv bd s'"
    using machine_invoke_inv [OF s n [unfolded h]] by (simp add: h)
qed (simp_all add: interrupt_machine_inv machine_inv_world)

text \<open>
  C16. In every state that the emulator reaches, the event thread that serves the four serial ports
  never calls through a dangling handler pointer and never reads past the events epoll_wait stored, for
  every sequence of ready events, and keeps the invariants of the machine.
\<close>

theorem event_thread_is_safe:
  assumes "main_setup (ke_build ke) page answer s0 lres ctl results nvram flash0 = Inr m0" and "build_ok (ke_build ke)"
    and "length results = 4" and "emulator_run ctl settime ke guard m0 m" and "epoll_wait_spec epoll_wait"
  shows "\<exists>m'. event_thread m_net put_net (machine_invoke ctl) epoll_wait k events m = Inr m' \<and> machine_inv (ke_build ke) m'"
proof (rule thread.thread_returns [OF assms(5)])
  have "machine_inv (ke_build ke) m0" using assms(1-3) by (rule main_setup_inv)
  then show "machine_inv (ke_build ke) m" using emulator_run_inv [OF assms(4)] by simp
qed

section \<open>A turn of the thread\<close>

text \<open>
  What is true on the host when the kernel reports an event: a listening socket has a connection, for which
  \<open>accept\<close> returns a descriptor nobody uses, and a timer has expired. The interrupt descriptor is written when
  the program ends and not before.
\<close>

fun due_handler :: "machine \<Rightarrow> nat \<Rightarrow> fd \<Rightarrow> u32 \<Rightarrow> serial_handler \<Rightarrow> bool" where
  "due_handler m i k e ServerEvent \<longleftrightarrow> e = EPOLLIN \<and> (case backlog (env (line_of m i)) of
     [] \<Rightarrow> False | fd # _ \<Rightarrow> fd \<noteq> -1 \<and> interest (m_net m) fd = None \<and> unused m fd)"
| "due_handler m i k e ReadTimerEvent \<longleftrightarrow> e = EPOLLIN \<and> timers (env (line_of m i)) k \<noteq> None"
| "due_handler m i k e WriteTimerEvent \<longleftrightarrow> e = EPOLLIN \<and> timers (env (line_of m i)) k \<noteq> None"
| "due_handler m i k e (ClientEvent fd) \<longleftrightarrow> True"

definition due :: "machine \<Rightarrow> u32 \<times> handler_ptr \<Rightarrow> bool" where
  "due m e \<longleftrightarrow> (case snd e of InterruptPtr \<Rightarrow> False | NodePtr a \<Rightarrow>
     (case nodes (m_net m) a of None \<Rightarrow> False | Some (k, (i, h)) \<Rightarrow> due_handler m i k (fst e) h))"

lemma due_call_steps:
  assumes inv: "device_inv m" and e: "event_of (m_net m) e" and due: "due m e"
    and call: "call_ptr m_net put_net (machine_invoke ctl) e m = Inr m'"
  shows "\<exists>i lab. host_side lab \<and> emulator_step ctl settime ke m (PortEvent i lab) m'"
proof -
  obtain a where a: "snd e = NodePtr a" using due by (cases "snd e") (simp_all add: due_def)
  obtain k ev where i: "interest (m_net m) k = Some (ev, NodePtr a)" and mask: "fst e AND NOT (ev OR 0x18) = 0"
    using e a by (auto simp: event_of_def)
  have "world_inv (m_net m)" using inv by (simp add: device_inv_def ports_inv_def loops_inv_def)
  then obtain j h where n: "nodes (m_net m) a = Some (k, (j, h))" using world_inv_ptr i by fastforce
  note port = node_port [OF inv n]
  let ?l = "line_of m j"
  obtain l' where l': "serial_invoke ctl h (fst e) ?l = Inr l'" by (simp add: serial_invoke_def)
  have m': "m' = put_line j m l'" using call by (simp add: call_ptr_def a n l')
  have step: ?thesis
    if "line_step ctl settime ?l lab l'" "host_side lab" "lab = Connected \<longrightarrow> unused m (hd (backlog (env ?l)))" for lab
    unfolding m' using port_step [OF port(1) that(2) _ that(1), of ke] that(2,3) by blast
  have d: "due_handler m j k (fst e) h" using due by (simp add: due_def a n)
  show ?thesis
  proof (cases h)
    case ServerEvent
    with d obtain fd rest where b: "fst e = EPOLLIN" "backlog (env ?l) = fd # rest" "fd \<noteq> -1" "interest (m_net m) fd = None" "unused m fd"
      by (auto split: list.splits)
    then have "map_of (mHandlers (mEventLoop (com ?l))) fd = None"
      using port(1) by (simp add: unused_def line_of_def flip: unwatched)
    then have "line_step ctl settime ?l Connected (server_handler ctl EPOLLIN ?l)"
      using b by (intro step_connect) (simp_all add: line_of_def)
    then have "line_step ctl settime ?l Connected l'" using b(1) l' ServerEvent by (simp add: serial_invoke_def)
    then show ?thesis by (rule step) (use b in simp_all)
  next
    case ReadTimerEvent
    then have "line_step ctl settime ?l ReadTimeout l'"
      using d port(3) l' by (auto simp: serial_invoke_def intro: step_read_timeout)
    then show ?thesis by (rule step) simp_all
  next
    case WriteTimerEvent
    then have "line_step ctl settime ?l WriteTimeout l'"
      using d port(3) l' by (auto simp: serial_invoke_def intro: step_write_timeout)
    then show ?thesis by (rule step) simp_all
  next
    case (ClientEvent fd)
    have "listens ?l fd ev (ClientEvent fd)"
      using port i n line_of_inv(4) [OF inv port(1)] ClientEvent by (simp add: listens_def line_of_def)
    then have "line_step ctl settime ?l (ClientReady fd (fst e)) l'"
      using step_ready [OF _ _ mask, of fd ?l ctl settime] port(3) l' ClientEvent by (simp add: serial_invoke_def)
    then show ?thesis by (rule step) simp_all
  qed
qed

section \<open>The program with its two threads\<close>

text \<open>
  A step of the program is a pass of the loop of \<open>main\<close>, a turn of the event thread with what \<open>epoll_wait\<close> returns
  it, a signal, or something the clients do.
\<close>

inductive program_step :: "(ctl_op \<Rightarrow> fd \<Rightarrow> bool) \<Rightarrow> (nat \<Rightarrow> nat option \<Rightarrow> nat option) \<Rightarrow> kvm_env \<Rightarrow>
    (machine \<Rightarrow> emulator_event \<Rightarrow> bool) \<Rightarrow> machine \<Rightarrow> machine \<Rightarrow> bool"
  for ctl settime ke guard where
  main_turn: "am_settime am = settime \<Longrightarrow> run_loop ke [(am, r)] m = Inr (stopped, m', outs) \<Longrightarrow>
     (\<And>e. r = Exited e \<Longrightarrow> guard m (GuestExit e)) \<Longrightarrow> program_step ctl settime ke guard m m'"
| thread_turn: "(\<And>ready. wait = Some ready \<Longrightarrow> ready \<noteq> [] \<and> event_of (m_net m) (hd ready) \<and> due m (hd ready)) \<Longrightarrow>
     event_thread m_net put_net (machine_invoke ctl) (\<lambda>_ _. wait) 1 events m = Inr m' \<Longrightarrow> program_step ctl settime ke guard m m'"
| signal: "program_step ctl settime ke guard m (sigintHandler m)"
| client_side: "lab = Dialled fd \<or> lab = Arrived fd bs \<Longrightarrow> emulator_step ctl settime ke m (PortEvent i lab) m' \<Longrightarrow>
     program_step ctl settime ke guard m m'"

inductive program_run :: "(ctl_op \<Rightarrow> fd \<Rightarrow> bool) \<Rightarrow> (nat \<Rightarrow> nat option \<Rightarrow> nat option) \<Rightarrow> kvm_env \<Rightarrow>
    (machine \<Rightarrow> emulator_event \<Rightarrow> bool) \<Rightarrow> machine \<Rightarrow> machine \<Rightarrow> bool"
  for ctl settime ke guard m0 where
  program_start: "program_run ctl settime ke guard m0 m0"
| program_next: "program_run ctl settime ke guard m0 m \<Longrightarrow> program_step ctl settime ke guard m m' \<Longrightarrow>
     program_run ctl settime ke guard m0 m'"

text \<open>Only the exits are restricted.\<close>

definition on_exits :: "(machine \<Rightarrow> emulator_event \<Rightarrow> bool) \<Rightarrow> bool" where
  "on_exits guard \<longleftrightarrow> (\<forall>m. guard m Sigint) \<and> (\<forall>m i lab. guard m (PortEvent i lab))"

lemma program_step_simulated:
  assumes "program_step ctl settime ke guard m m'" and "device_inv m" and "on_exits guard"
  shows "m' = m \<or> (\<exists>ev. emulator_step ctl settime ke m ev m' \<and> guard m ev)"
  using assms(1)
proof cases
  case (main_turn am r stopped outs)
  show ?thesis
  proof (cases "m_requestExit m")
    case True
    then show ?thesis using main_turn(2) by simp
  next
    case go: False
    show ?thesis
    proof (cases r)
      case (Exited e)
      then obtain data where "handle_exit ke am e m = Inr (m', data)"
        using main_turn(2) go by (auto simp: result_simps)
      then show ?thesis using exit_step [OF go main_turn(1)] main_turn(3) [OF Exited] by blast
    next
      case (Eintr sigint)
      then show ?thesis using main_turn(2) go assms(3) sigint_step [of ctl settime ke m] by (auto simp: on_exits_def split: if_splits)
    qed (use main_turn(2) go in simp)
  qed
next
  case (thread_turn wait events)
  show ?thesis
  proof (cases wait)
    case None
    then show ?thesis using thread_turn(2) by (cases "epoll_open (m_net m)") simp_all
  next
    case (Some ready)
    then obtain e es where e: "ready = e # es" "event_of (m_net m) e" "due m e"
      using thread_turn(1) by (cases ready) auto
    show ?thesis
    proof (cases "epoll_open (m_net m)")
      case True
      then have "call_ptr m_net put_net (machine_invoke ctl) e m = Inr m'"
        using thread_turn(2) by (simp add: Some e(1) wait_n_def result_simps)
      then show ?thesis using due_call_steps [OF assms(2) e(2,3)] assms(3) unfolding on_exits_def by blast
    qed (use thread_turn(2) in simp)
  qed
next
  case signal
  then show ?thesis using assms(3) sigint_step unfolding on_exits_def by blast
next
  case (client_side lab fd bs i)
  then show ?thesis using assms(3) unfolding on_exits_def by blast
qed

text \<open>
  C10. The two threads together, passes of the loop of main and turns of the event thread on what
  epoll_wait returns, in any interleaving and with clients that connect and send, make runs of the
  emulator's step relation, so that what holds of its runs holds of the program.
\<close>

theorem program_refines_the_emulator:
  assumes "program_run ctl settime ke guard m0 m" and "machine_inv (ke_build ke) m0" and "on_exits guard"
  shows "emulator_run ctl settime ke guard m0 m"
  using assms(1)
proof (induction rule: program_run.induct)
  case (program_next m m')
  have "device_inv m" using emulator_run_inv [OF program_next.IH assms(2)] by (simp add: machine_inv_def)
  from program_step_simulated [OF program_next.hyps(2) this assms(3)]
  show ?case using program_next.IH by (auto intro: emulator_next)
qed (rule emulator_start)

section \<open>The theorems at concrete inputs\<close>

text \<open>The kernel reports what is registered for descriptor 20, the socket of COM2.\<close>

definition example_ready :: "nat \<Rightarrow> port_world \<Rightarrow> (u32 \<times> handler_ptr) list option" where
  "example_ready k w = (case interest w 20 of None \<Rightarrow> None | Some e \<Rightarrow> Some [e])"

lemma event_of_registered: "interest w fd = Some (ev, p) \<Longrightarrow> event_of w (ev, p)"
proof -
  have "ev AND NOT (ev OR 0x18) = 0" by (rule bit_word_eqI) (simp add: bit_simps)
  then show "interest w fd = Some (ev, p) \<Longrightarrow> event_of w (ev, p)" unfolding event_of_def by auto
qed

lemma example_ready_spec: "epoll_wait_spec example_ready"
  by (auto simp: epoll_wait_spec_def example_ready_def event_of_registered split: option.splits)

lemma example_server:
  assumes "main_setup full_build 4096 example_answer example_sregs example_loop_results example_ctl example_host_results None
      example_flash = Inr m0"
  obtains k a where "interest (m_net m0) k = Some (EPOLLIN, NodePtr a)" and "nodes (m_net m0) a = Some (k, (1, ServerEvent))"
    and "epoll_open (m_net m0)" and "machine_inv full_build m0"
proof -
  have inv: "machine_inv full_build m0"
    using main_setup_inv [OF assms builds_ok(2)] by (simp add: example_host_results_def)
  have "all_live (m_coms m0) (m_net m0) \<and> length (m_coms m0) = 4"
    using main_setup_ready [OF example_host_ready accepts_example, of None example_flash] assms by (auto simp: machine_init_def)
  then have r: "running (line_of m0 1)" by (simp add: all_live_def port_live_def line_of_def)
  have d: "device_inv m0" using inv by (simp add: machine_inv_def)
  have "1 < length (m_coms m0)" using d by (simp add: device_inv_def)
  from line_of_inv(4) [OF d this] have "self (com (line_of m0 1)) = 1" .
  then show ?thesis using that inv r by (auto simp: running_def listens_def line_of_def)
qed

theorem event_thread_is_safe_witness:
  "\<exists>m0 m'. main_setup full_build 4096 example_answer example_sregs example_loop_results example_ctl example_host_results None example_flash = Inr m0 \<and>
     event_thread m_net put_net (machine_invoke example_ctl) example_ready 3 [] m0 = Inr m' \<and> machine_inv full_build m'"
proof -
  obtain m0 where m0: "main_setup full_build 4096 example_answer example_sregs example_loop_results example_ctl example_host_results None
      example_flash = Inr m0"
    using example_main_setup by blast
  have four: "length example_host_results = 4" by (simp add: example_host_results_def)
  show ?thesis
    using event_thread_is_safe [of example_env, unfolded example_build(1), OF m0 builds_ok(2) four emulator_start example_ready_spec] m0
    by blast
qed

text \<open>A client connects to COM2 and the thread accepts it.\<close>

theorem program_refines_the_emulator_witness:
  "\<exists>m0 m. main_setup full_build 4096 example_answer example_sregs example_loop_results example_ctl example_host_results None example_flash = Inr m0 \<and>
     program_run example_ctl example_settime example_env paced_event m0 m \<and>
     emulator_run example_ctl example_settime example_env paced_event m0 m \<and> 50 \<in> set (clients (fds (com (line_of m 1))))"
proof -
  obtain m0 where m0: "main_setup full_build 4096 example_answer example_sregs example_loop_results example_ctl example_host_results None
      example_flash = Inr m0"
    using example_main_setup by blast
  obtain k a where srv: "interest (m_net m0) k = Some (EPOLLIN, NodePtr a)" "nodes (m_net m0) a = Some (k, (1, ServerEvent))"
    "epoll_open (m_net m0)" and inv: "machine_inv full_build m0"
    by (rule example_server [OF m0])
  define m1 where "m1 = example_dial m0"
  note m1 = example_dialled [OF m0, folded m1_def]
  define m2 where "m2 = put_line 1 m1 (server_handler example_ctl EPOLLIN (line_of m1 1))"
  let ?run = "program_run example_ctl example_settime example_env paced_event m0"
  have "program_step example_ctl example_settime example_env paced_event m0 m1" using m1(1) by (rule client_side [rotated]) simp
  with program_start have r1: "?run m1" by (rule program_next)
  have "program_step example_ctl example_settime example_env paced_event m1 m2"
  proof (rule thread_turn [where wait = "Some [(EPOLLIN, NodePtr a)]" and events = "[]"])
    have "event_of (m_net m1) (EPOLLIN, NodePtr a)"
      using srv(1) m1(3) by (simp add: event_of_registered)
    moreover have "due m1 (EPOLLIN, NodePtr a)" using srv(2) m1(3-6) by (simp add: due_def)
    ultimately show "ready \<noteq> [] \<and> event_of (m_net m1) (hd ready) \<and> due m1 (hd ready)"
      if "Some [(EPOLLIN, NodePtr a)] = Some ready" for ready using that by auto
    show "event_thread m_net put_net (machine_invoke example_ctl) (\<lambda>_ _. Some [(EPOLLIN, NodePtr a)]) 1 [] m1 = Inr m2"
      using srv(2,3) m1(3) by (simp add: wait_n_def call_ptr_def serial_invoke_def m2_def)
  qed
  with r1 have r2: "?run m2" by (rule program_next)
  have "on_exits paced_event" by (simp add: on_exits_def)
  then have "emulator_run example_ctl example_settime example_env paced_event m0 m2"
    using program_refines_the_emulator [OF r2] inv by (simp add: example_build(1))
  moreover have "50 \<in> set (clients (fds (com (line_of m2 1))))"
    using m1(2,4) by (simp add: m2_def put_line_def line_of_def server_handler_def accept_fd_def Let_def EPOLLIN_def EPOLLERR_def
        set_insert_def set_insort_key)
  ultimately show ?thesis using m0 r2 by blast
qed

end
