(* ===== verification/Shut_Down.thy ===== *)
theory Shut_Down
  imports Event_Thread
begin

text \<open>
  The end of \<open>main\<close>: the device table destroys the serial ports (src/hardware/Serial.cpp), then the last
  \<open>EventLoop\<close> destroys \<open>EventLoopInternal\<close>, which signals the interrupt descriptor and joins the event thread
  (src/EventLoop.cpp). The thread makes its turns in between.
\<close>

section \<open>Stopping a port\<close>

lemma removeEvent_frame:
  assumes "removeEvent ctl fd el w = (el', w')"
  shows "epoll_open w' = epoll_open w" and "watched el' \<subseteq> watched el" and "nodes w' a = Some x \<Longrightarrow> nodes w a = Some x"
    and "(k, a) \<in> set (mHandlers el) \<Longrightarrow> k \<noteq> fd \<Longrightarrow> (k, a) \<in> set (mHandlers el')"
    and "loop_owns el w \<Longrightarrow> (k, a) \<in> set (mHandlers el) \<Longrightarrow> nodes w' a = Some (k, h) \<Longrightarrow> (k, a) \<in> set (mHandlers el')"
proof -
  show "epoll_open w' = epoll_open w" "watched el' \<subseteq> watched el" "nodes w' a = Some x \<Longrightarrow> nodes w a = Some x"
    and other: "(k, a) \<in> set (mHandlers el) \<Longrightarrow> k \<noteq> fd \<Longrightarrow> (k, a) \<in> set (mHandlers el')"
    using assms
    by (auto simp: removeEvent_def watched_def dest!: epoll_ctl_frame split: option.splits if_splits prod.splits)
  assume own: "loop_owns el w" "(k, a) \<in> set (mHandlers el)" "nodes w' a = Some (k, h)"
  show "(k, a) \<in> set (mHandlers el')"
  proof (cases "k = fd")
    case True
    then have "map_of (mHandlers el) fd = Some a" using own(1,2) by (simp add: loop_owns_def)
    then show ?thesis
      using assms own(2,3) by (auto simp: removeEvent_def split: option.splits if_splits prod.splits)
  qed (use own(2) other in blast)
qed

text \<open>
  The methods called when a port goes away only free handlers and only touch descriptors of the port: \<open>gone\<close> collects
  what holds of each of them, for a descriptor \<open>i\<close> that is not one of the port's.
\<close>

definition leaves :: "fd \<Rightarrow> descriptors \<Rightarrow> line \<Rightarrow> line \<Rightarrow> bool" where
  "leaves i d l l' \<longleftrightarrow> own_change l l' \<and> (tagged d l \<longrightarrow> tagged d l') \<and> port_inv l' = port_inv l \<and>
     epoll_open (net l') = epoll_open (net l) \<and> interest (net l') i = interest (net l) i \<and>
     watched (mEventLoop (com l')) \<subseteq> watched (mEventLoop (com l)) \<and> backlog (env l') = backlog (env l)"

lemma leaves_refl: "net_inv l \<Longrightarrow> leaves i d l l"
  using own_step_frame [of l l] by (simp add: leaves_def own_step_def)

lemma leaves_trans: "leaves i d l l1 \<Longrightarrow> leaves i d l1 l2 \<Longrightarrow> net_inv l \<Longrightarrow> leaves i d l l2"
  using own_change_trans [of l l1 l2] by (auto simp: leaves_def)

lemma leaves_net_inv: "leaves i d l l' \<Longrightarrow> net_inv l'"
  unfolding leaves_def by (blast intro: own_change_net_inv)

lemma remove_handler_leaves:
  assumes "net_inv l" and "fd \<noteq> i"
  shows "leaves i d l (remove_handler ctl fd l)"
proof -
  obtain el w where r: "removeEvent ctl fd (mEventLoop (com l)) (net l) = (el, w)" by fastforce
  have own: "loop_owns (mEventLoop (com l)) (net l)" using assms(1) by (simp add: net_inv_def)
  have l': "remove_handler ctl fd l = l\<lparr>com := (com l)\<lparr>mEventLoop := el\<rparr>, net := w\<rparr>" by (simp add: remove_handler_def r)
  have "local_step (mEventLoop (com l)) (net l) el w"
    by (rule removeEvent_local [OF _ own r]) (use assms(1) in \<open>simp add: net_inv_def\<close>)
  moreover have "tagged d l \<Longrightarrow> tagged d (remove_handler ctl fd l)"
    using removeEvent_frame(3,5) [OF r] own unfolding tagged_def l' by fastforce
  ultimately show ?thesis
    using removeEvent_frame(1-3) [OF r] removeEvent_elsewhere [OF r, of i] assms(2)
    by (auto simp: leaves_def own_change_def l' port_inv_def)
qed

lemma close_line_fd_leaves:
  assumes "net_inv l" and "fd \<noteq> i"
  shows "leaves i d l (close_line_fd fd l)"
proof -
  have "local_step (mEventLoop (com l)) (net l) (mEventLoop (com l)) (close_fd fd (net l))"
    using assms(1) close_fd_inv [of "net l" fd] by (simp add: local_step_def net_inv_def loop_owns_def)
  then show ?thesis using assms(2) by (simp add: leaves_def own_change_def tagged_def port_inv_def)
qed

lemma close_two_leaves:
  assumes "net_inv l" and "a \<noteq> i" and "b \<noteq> i"
  shows "leaves i d l (close_line_fd b (close_line_fd a l))"
proof -
  have s: "leaves i d l (close_line_fd a l)" by (rule close_line_fd_leaves [OF assms(1,2)])
  show ?thesis by (rule leaves_trans [OF s close_line_fd_leaves [OF leaves_net_inv [OF s] assms(3)] assms(1)])
qed

lemma remove_and_close_leaves:
  assumes "net_inv l" and "fd \<noteq> i"
  shows "leaves i d l (close_line_fd fd (remove_handler ctl fd l))"
proof -
  have s: "leaves i d l (remove_handler ctl fd l)" by (rule remove_handler_leaves [OF assms])
  show ?thesis by (rule leaves_trans [OF s close_line_fd_leaves [OF leaves_net_inv [OF s] assms(2)] assms(1)])
qed

lemma upd_fds_leaves: "net_inv l \<Longrightarrow> leaves i d l (upd_fds f l)"
  using own_step_frame [of l "upd_fds f l"] by (simp add: leaves_def own_step_def tagged_def port_inv_def)

lemma stop_leaves:
  assumes "net_inv l" and "i \<notin> held (com l)"
  shows "leaves i d l (stop ctl l)" and "fds (com (stop ctl l)) = (fds (com l))\<lparr>clients := [], server := -1\<rparr>"
proof -
  let ?f = "\<lambda>fd l. close_line_fd fd (remove_handler ctl fd l)"
  have all: "leaves i d l (fold ?f cs l) \<and> fds (com (fold ?f cs l)) = fds (com l)" if "net_inv l" "i \<notin> set cs" for cs l
    using that
  proof (induction cs arbitrary: l)
    case (Cons c cs)
    have s: "leaves i d l (?f c l)" using Cons.prems by (intro remove_and_close_leaves) simp_all
    then show ?case using Cons.IH [OF leaves_net_inv [OF s]] leaves_trans [OF s] Cons.prems by simp
  qed (simp add: leaves_refl)
  have i: "i \<notin> set (clients (fds (com l)))" "server (fds (com l)) \<noteq> i" "irq (fds (com l)) \<noteq> i" "refresh (fds (com l)) \<noteq> i"
    "readTimer (fds (com l)) \<noteq> i" "writeTimer (fds (com l)) \<noteq> i" using assms(2) by (auto simp: held_def)
  define l1 where "l1 = upd_fds (\<lambda>d. d\<lparr>clients := []\<rparr>) (fold ?f (clients (fds (com l))) l)"
  define l2 where "l2 = (if server (fds (com l)) \<noteq> -1 then upd_fds (\<lambda>d. d\<lparr>server := -1\<rparr>) (?f (server (fds (com l))) l1) else l1)"
  define l3 where "l3 = (if vm (fds (com l)) \<noteq> -1 \<and> irq (fds (com l)) \<noteq> -1
    then close_line_fd (refresh (fds (com l))) (close_line_fd (irq (fds (com l))) l2) else l2)"
  note c = all [OF assms(1) i(1)]
  have s1: "leaves i d l l1" and f1: "fds (com l1) = (fds (com l))\<lparr>clients := []\<rparr>"
    using c leaves_trans [OF conjunct1 [OF c] upd_fds_leaves [OF leaves_net_inv [OF conjunct1 [OF c]]] assms(1)]
    by (simp_all add: l1_def)
  note n1 = leaves_net_inv [OF s1]
  note a = remove_and_close_leaves [OF n1 i(2), where d = d and ctl = ctl]
  have "leaves i d l1 l2"
    using leaves_refl [OF n1] leaves_trans [OF a upd_fds_leaves [OF leaves_net_inv [OF a]] n1] by (simp add: l2_def)
  then have s2: "leaves i d l l2" by (rule leaves_trans [OF s1 _ assms(1)])
  have f2: "fds (com l2) = (fds (com l))\<lparr>clients := [], server := -1\<rparr>" using f1 by (simp add: l2_def)
  note n2 = leaves_net_inv [OF s2]
  have "leaves i d l2 l3" using leaves_refl [OF n2] close_two_leaves [OF n2 i(3,4)] by (simp add: l3_def)
  then have s3: "leaves i d l l3" by (rule leaves_trans [OF s2 _ assms(1)])
  have st: "stop ctl l = close_line_fd (writeTimer (fds (com l))) (close_line_fd (readTimer (fds (com l))) l3)"
    unfolding stop_def Let_def l1_def [symmetric] f1 by (simp add: l3_def l2_def)
  show "leaves i d l (stop ctl l)"
    unfolding st by (rule leaves_trans [OF s3 close_two_leaves [OF leaves_net_inv [OF s3] i(5,6)] assms(1)])
  show "fds (com (stop ctl l)) = (fds (com l))\<lparr>clients := [], server := -1\<rparr>" unfolding st using f2 by (simp add: l3_def)
qed

section \<open>Destroying a port\<close>

text \<open>The destructor of the port stops it; then the members are destroyed, the port's \<open>EventLoop\<close> among them.\<close>

definition destroy_port :: "(ctl_op \<Rightarrow> fd \<Rightarrow> bool) \<Rightarrow> line \<Rightarrow> line" where
  "destroy_port ctl l =
     (let l1 = stop ctl l
      in l1\<lparr>com := (com l1)\<lparr>mEventLoop := moved_from (mEventLoop (com l1))\<rparr>,
            net := destroy_loop ctl (mEventLoop (com l1)) (net l1)\<rparr>)"

lemma destroy_port_leaves:
  assumes "net_inv l" and "i \<notin> held (com l)" and "deletes ctl"
  shows "leaves i d l (destroy_port ctl l)" and "held (com (destroy_port ctl l)) \<subseteq> insert (-1) (held (com l))"
    and "tagged d l \<Longrightarrow> nodes (net (destroy_port ctl l)) a \<noteq> Some (k, (self (com l), h))"
proof -
  define l1 where "l1 = stop ctl l"
  define el where "el = mEventLoop (com l1)"
  have l': "destroy_port ctl l = l1\<lparr>com := (com l1)\<lparr>mEventLoop := moved_from el\<rparr>, net := destroy_loop ctl el (net l1)\<rparr>"
    by (simp add: destroy_port_def l1_def el_def Let_def)
  have s1: "leaves i d l l1" and f1: "fds (com l1) = (fds (com l))\<lparr>clients := [], server := -1\<rparr>"
    using stop_leaves [OF assms(1,2)] by (simp_all add: l1_def)
  have w: "world_inv (net l1)" and own: "loop_owns el (net l1)"
    using leaves_net_inv [OF s1] by (simp_all add: net_inv_def el_def)
  have loc: "local_step el (net l1) (moved_from el) (destroy_loop ctl el (net l1))"
    by (rule destroying.local [OF w own assms(3)]) simp
  note eff = delete_all_effect [OF assms(3) w, of "mHandlers el"]
  have nodes: "nodes (destroy_loop ctl el (net l1)) a = (if a \<in> addrs el then None else nodes (net l1) a)" for a
    using eff own by (auto simp: destroy_loop_eq [OF own] removeHandlers_def free_nodes_def addrs_def loop_owns_def)
  have "watched el \<subseteq> watched (mEventLoop (com l))" using s1 by (simp add: leaves_def el_def)
  then have i: "i \<notin> fst ` set (mHandlers el)" using assms(2) by (auto simp: held_def watched_def)
  have int: "interest (destroy_loop ctl el (net l1)) i = interest (net l1) i"
    and op: "epoll_open (destroy_loop ctl el (net l1)) = epoll_open (net l1)"
    using eff i by (simp_all add: destroy_loop_eq [OF own] removeHandlers_def free_nodes_def)
  have none: "nodes (net (destroy_port ctl l)) a \<noteq> Some (k, (self (com l), h))" if "tagged d l" for a k h d
  proof
    assume n: "nodes (net (destroy_port ctl l)) a = Some (k, (self (com l), h))"
    then have a: "nodes (net l1) a = Some (k, (self (com l), h))" "a \<notin> addrs el" by (simp_all add: l' nodes split: if_splits)
    have "leaves i d l l1" using stop_leaves(1) [OF assms(1,2)] by (simp add: l1_def)
    then have "tagged d l1" "self (com l1) = self (com l)" using that by (simp_all add: leaves_def own_change_def)
    then have "(k, a) \<in> set (mHandlers el)" using a(1) unfolding tagged_def el_def by metis
    then show False using a(2) by (force simp: addrs_def)
  qed
  then show "tagged d l \<Longrightarrow> nodes (net (destroy_port ctl l)) a \<noteq> Some (k, (self (com l), h))" .
  have self: "self (com (destroy_port ctl l)) = self (com l)" using s1 by (simp add: l' leaves_def own_change_def)
  have "own_change l1 (destroy_port ctl l)"
    using loc nodes by (auto simp: own_change_def l' el_def split: if_splits)
  then have "own_change l (destroy_port ctl l)"
    using own_change_trans [of l l1] s1 assms(1) by (simp add: leaves_def)
  then show "leaves i d l (destroy_port ctl l)"
    using s1 int op none [of d] self by (simp add: leaves_def l' port_inv_def tagged_def moved_from_def watched_def)
  show "held (com (destroy_port ctl l)) \<subseteq> insert (-1) (held (com l))"
    by (auto simp: held_def l' f1 moved_from_def watched_def)
qed

text \<open>
  The objects go in the order in which the table destroys them, \<open>ds\<close>, before each of them some turns of the event
  thread. The loop of \<open>main\<close> registered nothing itself.
\<close>

type_synonym waiting = "nat \<Rightarrow> port_world \<Rightarrow> (u32 \<times> handler_ptr) list option"

fun destroy_ports :: "(ctl_op \<Rightarrow> fd \<Rightarrow> bool) \<Rightarrow> ((waiting \<times> nat) \<times> nat) list \<Rightarrow> machine \<Rightarrow> machine result" where
  "destroy_ports ctl [] m = Inr m"
| "destroy_ports ctl (((epoll_wait, turns), i) # ds) m =
     and_then (event_thread m_net put_net (machine_invoke ctl) epoll_wait turns [] m)
       (\<lambda>m1. destroy_ports ctl ds (put_line i m1 (destroy_port ctl (line_of m1 i))))"

definition end_of_main :: "(ctl_op \<Rightarrow> fd \<Rightarrow> bool) \<Rightarrow> ((waiting \<times> nat) \<times> nat) list \<Rightarrow> (bool \<Rightarrow> waiting) \<Rightarrow> nat \<Rightarrow> machine \<Rightarrow> machine result" where
  "end_of_main ctl ds epoll_wait k m =
     and_then (destroy_ports ctl ds m) (destroy_internal True m_net put_net (machine_invoke ctl) epoll_wait k)"

section \<open>The interrupt descriptor stays registered\<close>

text \<open>
  The descriptor is on the interest list while the loop is open, no port holds it, and \<open>accept\<close> will not return its
  number, which is in use.
\<close>

definition stoppable :: "fd \<Rightarrow> machine \<Rightarrow> bool" where
  "stoppable i m \<longleftrightarrow> i \<noteq> -1 \<and> (epoll_open (m_net m) \<longrightarrow> interest (m_net m) i = Some (1, InterruptPtr)) \<and>
     (\<forall>p \<in> set (m_coms m). i \<notin> held (com p) \<and> i \<notin> set (backlog (env p)))"

text \<open>Handlers of the ports in \<open>G\<close> are gone.\<close>

definition gone :: "nat set \<Rightarrow> machine \<Rightarrow> bool" where
  "gone G m \<longleftrightarrow> (\<forall>a k j h. nodes (m_net m) a = Some (k, (j, h)) \<longrightarrow> j \<notin> G)"

lemma put_line_stoppable:
  assumes "stoppable i m" and "j < length (m_coms m)" and "epoll_open (net l) = epoll_open (m_net m)"
    and "interest (net l) i = interest (m_net m) i" and "i \<notin> held (com l)" and "i \<notin> set (backlog (env l))"
  shows "stoppable i (put_line j m l)"
  using assms set_update_subset_insert [of "m_coms m" j "detach l"] by (auto simp: stoppable_def put_line_def)

lemma conditions_backlog:
  "backlog (env (read_condition l)) = backlog (env l)" "backlog (env (write_condition l)) = backlog (env l)"
  by (simp_all add: read_condition_def write_condition_def triggerInterrupt_def Let_def)

lemma invoke_held:
  assumes "serial_invoke ctl h e l = Inr l'"
  shows "held (com l') \<union> set (backlog (env l')) \<subseteq> held (com l) \<union> set (backlog (env l))"
proof (cases h)
  case ServerEvent
  then have l': "l' = server_handler ctl e l" using assms by (simp add: serial_invoke_def)
  obtain fd g where acc: "accept_fd (env l) = (fd, g)" by fastforce
  show ?thesis
    using acc add_handler_watched [of ctl fd "mEventFlags (com l)" "ClientEvent fd" "l\<lparr>env := g\<rparr>"]
    by (auto simp: l' server_handler_def acc Let_def held_def accept_fd_def set_insert_def set_insort_key
        split: list.splits if_splits)
qed (use assms in \<open>auto simp: serial_invoke_def held_def read_timer_handler_def write_timer_handler_def
      handleClientEvent_def Let_def conditions_net conditions_backlog split: if_splits\<close>)

lemma machine_invoke_stoppable:
  assumes inv: "machine_inv bd m" and st: "stoppable i m" and g: "gone G m"
    and n: "nodes (m_net m) a = Some (k, (j, h))" and call: "machine_invoke ctl (j, h) e m = Inr m'"
  shows "stoppable i m' \<and> gone G m'"
proof -
  have d: "device_inv m" using inv by (simp add: machine_inv_def)
  have j: "j < length (m_coms m)" using node_port [OF d n] by simp
  obtain l' where l': "serial_invoke ctl h e (line_of m j) = Inr l'" "own_step (line_of m j) l'" "tagged (fds (com l')) l'" "port_inv l'"
    by (rule invoke_own [OF d j])
  have m': "m' = put_line j m l'" using call l'(1) by simp
  have "m_coms m ! j \<in> set (m_coms m)" using j by simp
  then have i: "i \<notin> held (com l') \<union> set (backlog (env l'))"
    using invoke_held [OF l'(1)] st by (auto simp: stoppable_def line_of_def)
  then have "i \<notin> watched (mEventLoop (com l'))" by (simp add: held_def)
  then have "epoll_open (net l') = epoll_open (m_net m)" "interest (net l') i = interest (m_net m) i"
    using l'(2) by (simp_all add: own_step_def line_of_def)
  then have "stoppable i m'" unfolding m' using put_line_stoppable [OF st j] i by simp
  moreover have "gone G m'"
    unfolding gone_def
  proof (intro allI impI)
    fix b k' j' h' assume b: "nodes (m_net m') b = Some (k', (j', h'))"
    have "nodes (net (line_of m j)) b = Some (k', (j', h')) \<or> j' = self (com (line_of m j))"
      using own_step_change [OF l'(2)] b unfolding m' own_change_def by (auto simp: put_line_def)
    then show "j' \<notin> G" using g n line_of_inv(4) [OF d j] unfolding gone_def by (auto simp: line_of_def)
  qed
  ultimately show ?thesis by simp
qed

interpretation joinable: stoppable_client m_net put_net "machine_invoke ctl"
    "\<lambda>m. machine_inv bd m \<and> stoppable i m \<and> gone G m" i
  for ctl bd i G
proof unfold_locales
  fix s :: machine and fd ev a h e
  assume s: "machine_inv bd s \<and> stoppable i s \<and> gone G s"
  show "world_inv (m_net s)" using s machine_inv_world by blast
  show "machine_inv bd (put_net (interrupt_handler (m_net s)) s) \<and> stoppable i (put_net (interrupt_handler (m_net s)) s) \<and>
      gone G (put_net (interrupt_handler (m_net s)) s)"
    using s interrupt_machine_inv [of bd s] by (simp add: stoppable_def gone_def put_net_def interrupt_handler_def)
  show "epoll_open (m_net s) \<Longrightarrow> interest (m_net s) i = Some (1, InterruptPtr)" using s by (simp add: stoppable_def)
  assume n: "nodes (m_net s) a = Some (fd, h)"
  obtain j g where h: "h = (j, g)" by (cases h)
  obtain s' where "machine_invoke ctl h e s = Inr s'" "machine_inv bd s'"
    using machine_invoke_inv [of bd s a fd j g ctl e] s n by (auto simp: h)
  then show "\<exists>s'. machine_invoke ctl h e s = Inr s' \<and> machine_inv bd s' \<and> stoppable i s' \<and> gone G s'"
    using machine_invoke_stoppable [of bd s i G a fd j g] s n by (simp add: h)
qed (simp add: put_net_def)

section \<open>The ports go and the thread ends\<close>

lemma destroyed_port:
  assumes inv: "machine_inv bd m" and st: "stoppable i m" and g: "gone G m" and "deletes ctl" and j: "j < length (m_coms m)"
  shows "machine_inv bd (put_line j m (destroy_port ctl (line_of m j))) \<and>
    stoppable i (put_line j m (destroy_port ctl (line_of m j))) \<and>
    gone (insert j G) (put_line j m (destroy_port ctl (line_of m j)))"
proof -
  let ?l = "line_of m j" and ?l' = "destroy_port ctl (line_of m j)"
  have d: "device_inv m" using inv by (simp add: machine_inv_def)
  note l = line_of_inv [OF d j]
  have "m_coms m ! j \<in> set (m_coms m)" using j by simp
  then have i: "i \<notin> held (com ?l)" "i \<notin> set (backlog (env ?l))" using st by (simp_all add: stoppable_def line_of_def)
  note del = destroy_port_leaves [OF l(1) i(1) assms(4)]
  note lv = del(1) [where d = "fds (com ?l)"] and none = del(3) [OF l(2)]
  have own: "own_change ?l ?l'" using lv by (simp add: leaves_def)
  have self: "self (com ?l') = j" using own l(4) by (simp add: own_change_def)
  have "tagged (fds (com ?l')) ?l'" using none l(4) self by (simp add: tagged_def)
  moreover have "port_inv ?l'" using lv l(3) by (simp add: leaves_def)
  ultimately have "machine_inv bd (put_line j m ?l')" using put_line_machine_inv [OF inv] put_line_inv [OF d j own] by blast
  moreover have "i \<notin> held (com ?l')" using del(2) i(1) st by (auto simp: stoppable_def)
  then have "stoppable i (put_line j m ?l')"
    using put_line_stoppable [OF st j] lv i(2) by (simp add: leaves_def line_of_def)
  moreover have "gone (insert j G) (put_line j m ?l')"
    unfolding gone_def
  proof (intro allI impI)
    fix b k j' h assume "nodes (m_net (put_line j m ?l')) b = Some (k, (j', h))"
    then have b: "nodes (net ?l') b = Some (k, (j', h))" by (simp add: put_line_def)
    have "j' \<noteq> j" using none b l(4) by auto
    moreover from this have "nodes (m_net m) b = Some (k, (j', h))" using own_change_foreign [OF own b] l(4) by (simp add: line_of_def)
    ultimately show "j' \<notin> insert j G" using g unfolding gone_def by blast
  qed
  ultimately show ?thesis by simp
qed

lemma destroy_ports_inv:
  assumes "deletes ctl" and "\<forall>((epoll_wait, turns), j) \<in> set ds. epoll_wait_spec epoll_wait \<and> j < 4"
    and "machine_inv bd m" and "stoppable i m" and "gone G m"
  shows "\<exists>m'. destroy_ports ctl ds m = Inr m' \<and> machine_inv bd m' \<and> stoppable i m' \<and> gone (G \<union> snd ` set ds) m'"
  using assms(2-5)
proof (induction ds arbitrary: m G)
  case (Cons d ds)
  obtain epoll_wait turns j where d: "d = ((epoll_wait, turns), j)" by (metis prod.collapse)
  have spec: "epoll_wait_spec epoll_wait" and j: "j < 4" using Cons.prems(1) by (simp_all add: d)
  obtain m1 where m1: "event_thread m_net put_net (machine_invoke ctl) epoll_wait turns [] m = Inr m1"
    "machine_inv bd m1" "stoppable i m1" "gone G m1"
    using joinable.thread_returns [OF spec, of bd m i G ctl turns "[]"] Cons.prems(2-4) by blast
  have "length (m_coms m1) = 4" using m1(2) by (simp add: machine_inv_def device_inv_def)
  then have s: "machine_inv bd (put_line j m1 (destroy_port ctl (line_of m1 j)))"
    "stoppable i (put_line j m1 (destroy_port ctl (line_of m1 j)))"
    "gone (insert j G) (put_line j m1 (destroy_port ctl (line_of m1 j)))"
    using destroyed_port [OF m1(2-4) assms(1)] j by simp_all
  have "\<forall>((epoll_wait, turns), j) \<in> set ds. epoll_wait_spec epoll_wait \<and> j < 4" using Cons.prems(1) by simp
  from Cons.IH [OF this s] show ?case by (simp add: d m1(1))
qed simp

section \<open>The machine of the program can be shut down\<close>

text \<open>What holds of the interrupt descriptor while the program runs, with clients that come and go.\<close>

definition unheld :: "fd \<Rightarrow> machine \<Rightarrow> bool" where
  "unheld i m \<longleftrightarrow> epoll_open (m_net m) \<and> interest (m_net m) i = Some (1, InterruptPtr) \<and>
     (\<forall>p \<in> set (m_coms m). i \<notin> held (com p))"

lemma server_held: "held (com (server_handler ctl e l)) \<subseteq> insert (fst (accept_fd (env l))) (held (com l))"
proof -
  obtain fd g where acc: "accept_fd (env l) = (fd, g)" by fastforce
  show ?thesis
    using add_handler_watched [of ctl fd "mEventFlags (com l)" "ClientEvent fd" "l\<lparr>env := g\<rparr>"]
    by (auto simp: server_handler_def acc Let_def held_def set_insert_def set_insort_key split: if_splits)
qed

lemma line_step_held:
  assumes "line_step ctl settime l lab l'" and "interest (net l) i \<noteq> None" and "i \<notin> held (com l)"
  shows "i \<notin> held (com l')"
  using assms(1)
proof cases
  case (step_connect fd rest)
  then have "fst (accept_fd (env l)) = fd" "fd \<noteq> i" using assms(2) by (auto simp: accept_fd_def)
  then show ?thesis using server_held [of ctl EPOLLIN l] assms(3) step_connect(2) by auto
next
  case (step_write a v)
  then show ?thesis using iowrite8_frame [of settime l a v l'] assms(3) by (simp add: held_def)
next
  case (step_read a v)
  then show ?thesis using ioread8_frame [of settime l a l' v] assms(3) by (simp add: held_def)
next
  case (step_ready fd ev e)
  then have "serial_invoke ctl (ClientEvent fd) e l = Inr l'" by (simp add: serial_invoke_def)
  then show ?thesis
    using assms(3) by (auto simp: serial_invoke_def held_def handleClientEvent_def Let_def conditions_net split: if_splits)
qed (use assms(3) in \<open>simp_all add: held_def timer_handler_effect\<close>)

lemma emulator_step_unheld:
  assumes "emulator_step ctl settime ke m ev m'" and "device_inv m" and "unheld i m"
  shows "unheld i m'"
  using assms(1)
proof cases
  case (exit_step am e data)
  show ?thesis
  proof (cases "exit_label e")
    case None
    then show ?thesis using exit_coms [OF exit_step(4), of ctl] assms(3) by (simp add: unheld_def)
  next
    case (Some jlab)
    obtain j lab where jlab: "jlab = (j, lab)" by (cases jlab)
    then obtain l' where l': "m_coms m' = (m_coms m)[j := detach l']" "m_net m' = m_net m"
      "line_step ctl (am_settime am) (line_of m j) lab l'"
      using exit_coms [OF exit_step(4), of ctl] Some by auto
    have "i \<notin> held (com l')" if "j < length (m_coms m)"
      using line_step_held [OF l'(3), of i] assms(3) that by (simp add: unheld_def line_of_def)
    then show ?thesis
      using assms(3) l'(1,2) set_update_subset_insert [of "m_coms m" j "detach l'"]
      by (cases "j < length (m_coms m)") (auto simp: unheld_def list_update_beyond)
  qed
next
  case sigint_step
  then show ?thesis using assms(3) by (simp add: unheld_def sigintHandler_def)
next
  case (port_step j lab l')
  note l = line_of_inv [OF assms(2) port_step(3)]
  have "m_coms m ! j \<in> set (m_coms m)" using port_step(3) by simp
  then have i: "i \<notin> held (com l')"
    using line_step_held [OF port_step(6), of i] assms(3) by (simp add: unheld_def line_of_def)
  then have "i \<notin> watched (mEventLoop (com l'))" by (simp add: held_def)
  then have "epoll_open (net l') = epoll_open (m_net m)" "interest (net l') i = interest (m_net m) i"
    using line_step_own [OF port_step(6) l(1,2)] by (simp_all add: own_step_def line_of_def)
  then show ?thesis
    using assms(3) i set_update_subset_insert [of "m_coms m" j "detach l'"]
    by (auto simp: port_step(2) unheld_def put_line_def)
qed

lemma emulator_run_unheld:
  "emulator_run ctl settime ke guard m0 m \<Longrightarrow> machine_inv (ke_build ke) m0 \<Longrightarrow> unheld i m0 \<Longrightarrow> unheld i m"
proof (induction rule: emulator_run.induct)
  case (emulator_next m ev m')
  then show ?case
    using emulator_step_unheld [OF emulator_next.hyps(2)] emulator_run_inv [OF emulator_next.hyps(1)] by (simp add: machine_inv_def)
qed

lemma main_setup_unheld:
  assumes "main_setup bd page answer s0 lres ctl results nvram flash0 = Inr m" and "length results = 4"
    and "lr_interrupt lres \<notin> set (concat (map used_fds results))"
  shows "unheld (lr_interrupt lres) m \<and> lr_interrupt lres \<noteq> -1"
  using main_setup_elsewhere [OF assms] by (simp add: unheld_def)

text \<open>
  C18. From every state that the emulator reaches main can end: whatever the order in which the four
  ports are destroyed and whatever turns the event thread makes in between, every handler is freed, no
  handler takes the interrupt descriptor off the interest list, and the join in the destructor of
  EventLoopInternal returns, at the latest when epoll_wait reports that descriptor first.
\<close>

theorem emulator_shuts_down:
  assumes "main_setup (ke_build ke) page answer s0 lres ctl results nvram flash0 = Inr m0" and "build_ok (ke_build ke)"
    and "length results = 4" and "lr_interrupt lres \<notin> set (concat (map used_fds results))" and "deletes ctl"
    and "emulator_run ctl settime ke guard m0 m" and "\<forall>p \<in> set (m_coms m). lr_interrupt lres \<notin> set (backlog (env p))"
    and "\<forall>((epoll_wait, turns), j) \<in> set ds. epoll_wait_spec epoll_wait \<and> j < 4" and "{..<4} \<subseteq> snd ` set ds"
    and "epoll_wait_spec (epoll_wait True)" and "waits_forever (lr_interrupt lres) (epoll_wait True)"
    and "interrupted_at (lr_interrupt lres) (epoll_wait True) j" and "j < k"
  shows "\<exists>m'. end_of_main ctl ds epoll_wait k m = Inr m' \<and> machine_inv (ke_build ke) m' \<and>
    nodes (m_net m') = Map.empty \<and> interest (m_net m') = Map.empty \<and> \<not> epoll_open (m_net m')"
proof -
  let ?i = "lr_interrupt lres" and ?G = "{} \<union> snd ` set ds"
  have m0: "machine_inv (ke_build ke) m0" using assms(1-3) by (rule main_setup_inv)
  have inv: "machine_inv (ke_build ke) m" using emulator_run_inv [OF assms(6) m0] by simp
  note u = main_setup_unheld [OF assms(1,3,4)]
  have "stoppable ?i m"
    using emulator_run_unheld [OF assms(6) m0, of ?i] u assms(7) by (simp add: unheld_def stoppable_def)
  then obtain m1 where m1: "destroy_ports ctl ds m = Inr m1" "machine_inv (ke_build ke) m1" "stoppable ?i m1" "gone ?G m1"
    using destroy_ports_inv [OF assms(5,8) inv, of ?i "{}"] by (auto simp: gone_def)
  obtain m' where m': "event_thread m_net put_net (machine_invoke ctl) (epoll_wait True) k [] m1 = Inr m'"
    "machine_inv (ke_build ke) m'" "gone ?G m'" "\<not> epoll_open (m_net m')"
    using joinable.thread_stops [OF assms(10-12), of "ke_build ke" m1 ?G k ctl "[]"] m1 assms(13) by blast
  have "nodes (m_net m') a = None" for a
  proof (cases "nodes (m_net m') a")
    case (Some x)
    then obtain f i h where "nodes (m_net m') a = Some (f, (i, h))" by (cases x) auto
    moreover from this have "i < 4"
      using node_port(1) [of m' a f i h] m'(2) by (simp add: machine_inv_def device_inv_def)
    ultimately have False using m'(3) assms(9) unfolding gone_def by blast
    then show ?thesis by simp
  qed simp
  moreover have "interest (m_net m') = Map.empty" using machine_inv_world [OF m'(2)] m'(4) by (simp add: world_inv_def)
  ultimately show ?thesis using m' m1(1) by (auto simp: end_of_main_def destroy_internal_def fun_eq_iff)
qed

text \<open>
  Freeing the handlers does not wait for the thread: an event that the thread took from the kernel before a port was
  destroyed, and dispatches afterwards, goes through a freed handler.
\<close>

theorem fetched_handler_may_be_freed:
  assumes "machine_inv bd m" and "stoppable i m" and "deletes ctl" and "nodes (m_net m) a = Some (k, (j, h))"
  shows "call_ptr m_net put_net (machine_invoke ctl) (e, NodePtr a) (put_line j m (destroy_port ctl (line_of m j))) = Inl DanglingHandler"
proof -
  have d: "device_inv m" using assms(1) by (simp add: machine_inv_def)
  have j: "j < length (m_coms m)" using node_port [OF d assms(4)] by simp
  note l = line_of_inv [OF d j]
  have "m_coms m ! j \<in> set (m_coms m)" using j by simp
  then have i: "i \<notin> held (com (line_of m j))" using assms(2) by (simp add: stoppable_def line_of_def)
  note del = destroy_port_leaves [OF l(1) i assms(3)]
  have own: "own_change (line_of m j) (destroy_port ctl (line_of m j))" using del(1) by (simp add: leaves_def)
  have "nodes (net (destroy_port ctl (line_of m j))) a = None"
  proof (cases "nodes (net (destroy_port ctl (line_of m j))) a")
    case (Some x)
    obtain k' j' h' where x: "x = (k', (j', h'))" by (metis prod.collapse)
    have "nodes (net (line_of m j)) a = Some (k', (j', h')) \<or> j' = j"
      using own Some l(4) by (simp add: own_change_def x)
    then have "j' = self (com (line_of m j))" using assms(4) l(4) by (auto simp: line_of_def)
    then show ?thesis using del(3) [OF l(2), of a k' h'] Some by (simp add: x)
  qed simp
  then show ?thesis by (simp add: call_ptr_def put_line_def)
qed

section \<open>The theorems at concrete inputs\<close>

text \<open>The interrupt is reported at the second call after it was signalled.\<close>

definition example_stop :: "bool \<Rightarrow> waiting" where
  "example_stop written k w =
     (if interest w 5 = Some (1, InterruptPtr) then Some [(if written \<and> k = 0 then 1 else 0, InterruptPtr)] else None)"

lemma example_stop_spec:
  "epoll_wait_spec (example_stop True)" "waits_forever 5 (example_stop True)" "interrupted_at 5 (example_stop True) 0"
proof -
  have "event_of w (0, InterruptPtr) \<and> event_of w (1, InterruptPtr)" if i: "interest w 5 = Some (1, InterruptPtr)" for w :: port_world
  proof -
    have "event_of w (0, InterruptPtr)" unfolding event_of_def using i by (intro exI [of _ 5] exI [of _ 1]) simp
    then show ?thesis using event_of_registered [OF i] by simp
  qed
  then show "epoll_wait_spec (example_stop True)" by (auto simp: epoll_wait_spec_def example_stop_def split: if_splits)
qed (simp_all add: waits_forever_def interrupted_at_def example_stop_def)

theorem emulator_shuts_down_witness:
  "\<exists>m0 m'. main_setup full_build 4096 example_answer example_sregs example_loop_results example_ctl example_host_results None example_flash = Inr m0 \<and>
     end_of_main example_ctl (map (Pair (example_ready, 1)) [3, 2, 0, 1]) example_stop 2 m0 = Inr m' \<and> nodes (m_net m') = Map.empty"
proof -
  obtain m0 where m0: "main_setup full_build 4096 example_answer example_sregs example_loop_results example_ctl example_host_results None
      example_flash = Inr m0"
    using example_main_setup by blast
  have m0': "main_setup (ke_build example_env) 4096 example_answer example_sregs example_loop_results example_ctl example_host_results
      None example_flash = Inr m0" and ok': "build_ok (ke_build example_env)"
    using m0 builds_ok(2) by (simp_all add: example_build(1))
  have four: "length example_host_results = 4" by (simp add: example_host_results_def)
  have i: "lr_interrupt example_loop_results = 5" by (simp add: example_loop_results_def)
  have free: "lr_interrupt example_loop_results \<notin> set (concat (map used_fds example_host_results))"
    by (simp add: example_loop_results_def example_host_results_def example_port_results_def used_fds_def port_fds_def)
  have "\<exists>m'. end_of_main example_ctl (map (Pair (example_ready, 1)) [3, 2, 0, 1]) example_stop 2 m0 = Inr m' \<and>
      machine_inv (ke_build example_env) m' \<and> nodes (m_net m') = Map.empty \<and> interest (m_net m') = Map.empty \<and> \<not> epoll_open (m_net m')"
  proof (rule emulator_shuts_down [OF m0' ok' four free example_ctl_deletes emulator_start, where j = 0, unfolded i])
    show "\<forall>p \<in> set (m_coms m0). 5 \<notin> set (backlog (env p))" using main_setup_elsewhere [OF m0 four free] by simp
    show "{..<4} \<subseteq> snd ` set (map (Pair (example_ready, 1 :: nat)) [3, 2, 0, 1 :: nat])" by (auto simp: numeral_eq_Suc less_Suc_eq)
  qed (use example_ready_spec example_stop_spec in \<open>simp_all add: example_build(1)\<close>)
  then show ?thesis using m0 by blast
qed

end
