(* ===== verification/Event_Registry.thy ===== *)
theory Event_Registry
  imports Event_Loop
begin

text \<open>
  What one \<open>EventLoop\<close> object promises the device that owns it: a map from descriptors to the events
  waited for and the handler called. \<open>addEvent\<close>, \<open>modifyEvent\<close> and \<open>removeEvent\<close> of
  src/EventLoop.cpp keep that map in three places, the object's hash map, the heap nodes the kernel
  holds pointers to and the kernel's interest list. The abstract operations are updates of the
  map; the theorem is that any sequence of calls implements them, results included.
\<close>

section \<open>The abstract registry\<close>

datatype 'h reg_op = Register fd u32 'h | Rearm fd u32 | Unregister fd

fun reg_fd :: "'h reg_op \<Rightarrow> fd" where
  "reg_fd (Register fd ev h) = fd"
| "reg_fd (Rearm fd ev) = fd"
| "reg_fd (Unregister fd) = fd"

text \<open>The value a call returns and the map after it; \<open>removeEvent\<close> returns nothing.\<close>

fun spec_op :: "'h reg_op \<Rightarrow> (fd \<rightharpoonup> u32 \<times> 'h) \<Rightarrow> bool \<times> (fd \<rightharpoonup> u32 \<times> 'h)" where
  "spec_op (Register fd ev h) m = (True, m(fd \<mapsto> (ev, h)))"
| "spec_op (Rearm fd ev) m =
     (case m fd of None \<Rightarrow> (False, m) | Some (_, h) \<Rightarrow> (True, m(fd \<mapsto> (ev, h))))"
| "spec_op (Unregister fd) m = (True, m(fd := None))"

fun spec_run :: "'h reg_op list \<Rightarrow> (fd \<rightharpoonup> u32 \<times> 'h) \<Rightarrow> bool list \<times> (fd \<rightharpoonup> u32 \<times> 'h)" where
  "spec_run [] m = ([], m)"
| "spec_run (x # xs) m =
     (case spec_op x m of (r, m1) \<Rightarrow> case spec_run xs m1 of (rs, m2) \<Rightarrow> (r # rs, m2))"

section \<open>The calls\<close>

fun reg_call :: "(ctl_op \<Rightarrow> fd \<Rightarrow> bool) \<Rightarrow> 'h reg_op \<Rightarrow> event_loop \<Rightarrow> 'h world \<Rightarrow> bool \<times> event_loop \<times> 'h world" where
  "reg_call ctl (Register fd ev h) el w = addEvent ctl fd ev h el w"
| "reg_call ctl (Rearm fd ev) el w = (case modifyEvent ctl fd ev el w of (r, w') \<Rightarrow> (r, el, w'))"
| "reg_call ctl (Unregister fd) el w = (True, removeEvent ctl fd el w)"

fun reg_calls :: "(ctl_op \<Rightarrow> fd \<Rightarrow> bool) \<Rightarrow> 'h reg_op list \<Rightarrow> event_loop \<Rightarrow> 'h world \<Rightarrow> bool list \<times> event_loop \<times> 'h world" where
  "reg_calls ctl [] el w = ([], el, w)"
| "reg_calls ctl (x # xs) el w =
     (case reg_call ctl x el w of (r, el1, w1) \<Rightarrow>
        case reg_calls ctl xs el1 w1 of (rs, el2, w2) \<Rightarrow> (r # rs, el2, w2))"

section \<open>The object and the kernel agree\<close>

text \<open>A descriptor is in the object's map exactly when it is on the interest list, under the same node.\<close>

definition tracks :: "event_loop \<Rightarrow> 'h world \<Rightarrow> fd \<Rightarrow> bool" where
  "tracks el w fd \<longleftrightarrow>
     (case map_of (mHandlers el) fd of
        None \<Rightarrow> interest w fd = None
      | Some a \<Rightarrow> \<exists>ev. interest w fd = Some (ev, NodePtr a))"

definition registry_inv :: "fd set \<Rightarrow> event_loop \<Rightarrow> 'h world \<Rightarrow> bool" where
  "registry_inv F el w \<longleftrightarrow> world_inv w \<and> loop_owns el w \<and> mState el \<and> epoll_open w \<and> (\<forall>fd \<in> F. tracks el w fd)"

definition permits :: "(ctl_op \<Rightarrow> fd \<Rightarrow> bool) \<Rightarrow> bool" where
  "permits ctl \<longleftrightarrow> (\<forall>opn fd. ctl opn fd)"

section \<open>One call\<close>

lemma registered_frame:
  assumes "interest w' k = interest w k"
    and "\<And>ev b. interest w k = Some (ev, NodePtr b) \<Longrightarrow> nodes w' b = nodes w b"
  shows "registered w' k = registered w k"
  using assms by (auto simp: registered_def split: option.splits prod.splits handler_ptr.splits)

lemma map_of_remove: "map_of (filter (\<lambda>(k, _). k \<noteq> fd) xs) k = (if k = fd then None else map_of xs k)"
  by (induction xs) auto

lemma pointed_node_fresh:
  "world_inv w \<Longrightarrow> interest w k = Some (ev, NodePtr b) \<Longrightarrow> b \<noteq> next_node w"
  by (fastforce simp: world_inv_def)

lemma pointed_node_distinct:
  "world_inv w \<Longrightarrow> interest w k = Some (ev, NodePtr b) \<Longrightarrow> interest w fd = Some (e, NodePtr a) \<Longrightarrow>
     k \<noteq> fd \<Longrightarrow> b \<noteq> a"
  using world_inv_ptr [of w k ev b] world_inv_ptr [of w fd e a] by auto

lemma unregister_step:
  assumes inv: "registry_inv F el w" and fd: "fd \<in> F" and ctl: "permits ctl"
    and r: "removeEvent ctl fd el w = (el', w')"
  shows "registry_inv F el' w' \<and> registered w' = (registered w)(fd := None) \<and>
    map_of (mHandlers el') fd = None \<and> interest w' fd = None"
proof -
  have w: "world_inv w" and own: "loop_owns el w" and st: "mState el" "epoll_open w"
    and tr: "\<And>k. k \<in> F \<Longrightarrow> tracks el w k"
    using inv by (auto simp: registry_inv_def)
  have kept: "world_inv w'" "loop_owns el' w'"
    using removeEvent_local [OF w own r] by (simp_all add: local_step_def)
  show ?thesis
  proof (cases "map_of (mHandlers el) fd")
    case None
    then have "interest w fd = None" using tr [OF fd] by (simp add: tracks_def)
    moreover from this have "(registered w)(fd := None) = registered w" by (auto simp: registered_def)
    ultimately show ?thesis using None r inv by (auto simp: removeEvent_def)
  next
    case (Some a)
    then obtain ev where ev: "interest w fd = Some (ev, NodePtr a)" using tr [OF fd] by (auto simp: tracks_def)
    have el': "el' = el\<lparr>mHandlers := filter (\<lambda>(k, _). k \<noteq> fd) (mHandlers el)\<rparr>"
      and w': "w' = w\<lparr>interest := (interest w)(fd := None), nodes := (nodes w)(a := None)\<rparr>"
      using r Some st ctl ev by (auto simp: removeEvent_def epoll_ctl_def permits_def domIff)
    have "registered w' k = (if k = fd then None else registered w k)" for k
    proof (cases "k = fd")
      case False
      then show ?thesis
        using pointed_node_distinct [OF w _ ev] by (auto simp: w' intro!: registered_frame)
    qed (simp add: w' registered_def)
    then have "registered w' = (registered w)(fd := None)" by (simp add: fun_eq_iff)
    moreover have "tracks el' w' k" if "k \<in> F" for k
      using tr [OF that] by (auto simp: tracks_def el' w' map_of_remove split: option.splits)
    ultimately show ?thesis
      using kept st by (simp add: registry_inv_def el' w' map_of_remove)
  qed
qed

lemma register_fresh_step:
  assumes inv: "registry_inv F el w" and fresh: "map_of (mHandlers el) fd = None" "interest w fd = None"
    and ctl: "permits ctl" and r: "addEvent ctl fd ev h el w = (ok, el', w')"
  shows "registry_inv F el' w' \<and> ok \<and> registered w' = (registered w)(fd \<mapsto> (ev, h))"
proof -
  have w: "world_inv w" and own: "loop_owns el w" and st: "mState el" "epoll_open w"
    and tr: "\<And>k. k \<in> F \<Longrightarrow> tracks el w k"
    using inv by (auto simp: registry_inv_def)
  have kept: "world_inv w'" "loop_owns el' w'"
    using addEvent_local [OF w own r] by (simp_all add: local_step_def)
  define n where "n = next_node w"
  have el': "el' = el\<lparr>mHandlers := (fd, n) # mHandlers el\<rparr>" and ok
    and w': "w' = w\<lparr>nodes := (nodes w)(n \<mapsto> (fd, h)), next_node := Suc n,
      interest := (interest w)(fd \<mapsto> (ev, NodePtr n)), nonblocking := insert fd (nonblocking w)\<rparr>"
    using r fresh st ctl
    by (auto simp: addEvent_def insert_handler_def setNonBlocking_def epoll_ctl_def permits_def n_def domIff)
  have "registered w' k = (if k = fd then Some (ev, h) else registered w k)" for k
  proof (cases "k = fd")
    case False
    then show ?thesis
      using pointed_node_fresh [OF w] by (auto simp: w' n_def intro!: registered_frame)
  qed (simp add: w' registered_def)
  then have "registered w' = (registered w)(fd \<mapsto> (ev, h))" by (simp add: fun_eq_iff)
  moreover have "tracks el' w' k" if "k \<in> F" for k
    using tr [OF that] by (auto simp: tracks_def el' w' split: option.splits)
  ultimately show ?thesis using kept st \<open>ok\<close> by (simp add: registry_inv_def el' w')
qed

lemma register_step:
  assumes inv: "registry_inv F el w" and fd: "fd \<in> F" and ctl: "permits ctl"
    and r: "addEvent ctl fd ev h el w = (ok, el', w')"
  shows "registry_inv F el' w' \<and> ok \<and> registered w' = (registered w)(fd \<mapsto> (ev, h))"
proof (cases "map_of (mHandlers el) fd")
  case None
  moreover from this have "interest w fd = None" using inv fd by (auto simp: registry_inv_def tracks_def)
  ultimately show ?thesis using register_fresh_step [OF inv _ _ ctl r] by simp
next
  case (Some a)
  obtain el1 w1 where r1: "removeEvent ctl fd el w = (el1, w1)" by fastforce
  note s1 = unregister_step [OF inv fd ctl r1]
  have again: "addEvent ctl fd ev h el1 w1 = (ok, el', w')"
    using r r1 Some inv s1 by (simp add: addEvent_def registry_inv_def)
  have "registry_inv F el' w' \<and> ok \<and> registered w' = (registered w1)(fd \<mapsto> (ev, h))"
    by (rule register_fresh_step [OF _ _ _ ctl again]) (simp_all add: s1)
  then show ?thesis using s1 by simp
qed

lemma rearm_step:
  assumes inv: "registry_inv F el w" and fd: "fd \<in> F" and ctl: "permits ctl"
    and r: "modifyEvent ctl fd ev el w = (ok, w')"
  shows "registry_inv F el w' \<and> (ok, registered w') = spec_op (Rearm fd ev) (registered w)"
proof -
  have w: "world_inv w" and own: "loop_owns el w" and st: "mState el" "epoll_open w"
    and tr: "\<And>k. k \<in> F \<Longrightarrow> tracks el w k"
    using inv by (auto simp: registry_inv_def)
  show ?thesis
  proof (cases "map_of (mHandlers el) fd")
    case None
    then have "interest w fd = None" using tr [OF fd] by (simp add: tracks_def)
    then show ?thesis using None r inv by (auto simp: modifyEvent_def registered_def)
  next
    case (Some a)
    then obtain e where e: "interest w fd = Some (e, NodePtr a)" using tr [OF fd] by (auto simp: tracks_def)
    then obtain h where h: "nodes w a = Some (fd, h)" using world_inv_ptr [OF w] by blast
    have w': "w' = w\<lparr>interest := (interest w)(fd \<mapsto> (ev, NodePtr a))\<rparr>" and ok
      using r Some st ctl e by (auto simp: modifyEvent_def epoll_ctl_def permits_def domIff)
    have "registered w' k = (if k = fd then Some (ev, h) else registered w k)" for k
    proof (cases "k = fd")
      case True
      then show ?thesis using h by (simp add: w' registered_def)
    qed (auto simp: w' intro!: registered_frame)
    then have "registered w' = (registered w)(fd \<mapsto> (ev, h))" by (simp add: fun_eq_iff)
    moreover have "registered w fd = Some (e, h)" using e h by (simp add: registered_def)
    moreover have "tracks el w' k" if "k \<in> F" for k
      using tr [OF that] Some by (auto simp: tracks_def w' split: option.splits)
    moreover have "world_inv w'" "loop_owns el w'"
      using modifyEvent_inv [OF w own r] own by (simp_all add: loop_owns_def)
    ultimately show ?thesis using st \<open>ok\<close> by (simp add: registry_inv_def w')
  qed
qed

section \<open>The object implements the map\<close>

lemma reg_call_simulates:
  assumes "registry_inv F el w" and "reg_fd x \<in> F" and "permits ctl" and "reg_call ctl x el w = (r, el', w')"
  shows "registry_inv F el' w' \<and> spec_op x (registered w) = (r, registered w')"
proof (cases x)
  case (Register fd ev h)
  then show ?thesis using register_step [OF assms(1), of fd ctl ev h r el' w'] assms(2-4) by simp
next
  case (Rearm fd ev)
  then obtain w1 where "modifyEvent ctl fd ev el w = (r, w1)" "el' = el" "w' = w1"
    using assms(4) by (auto split: prod.splits)
  then show ?thesis using rearm_step [OF assms(1), of fd ctl ev r w'] Rearm assms(2,3) by simp
next
  case (Unregister fd)
  then show ?thesis using unregister_step [OF assms(1), of fd ctl el' w'] assms(2-4) by simp
qed

lemma reg_calls_simulate:
  assumes "registry_inv F el w" and "reg_fd ` set xs \<subseteq> F" and "permits ctl"
    and "reg_calls ctl xs el w = (rs, el', w')"
  shows "registry_inv F el' w' \<and> spec_run xs (registered w) = (rs, registered w')"
  using assms
proof (induction xs arbitrary: el w rs)
  case (Cons x xs)
  obtain r el1 w1 where x: "reg_call ctl x el w = (r, el1, w1)" by (metis prod_cases3)
  obtain rs1 where xs: "reg_calls ctl xs el1 w1 = (rs1, el', w')" and rs: "rs = r # rs1"
    using Cons.prems(4) x by (auto split: prod.splits)
  have s: "registry_inv F el1 w1" "spec_op x (registered w) = (r, registered w1)"
    using reg_call_simulates [OF Cons.prems(1) _ Cons.prems(3) x] Cons.prems(2) by simp_all
  then show ?case using Cons.IH [OF s(1) _ Cons.prems(3) xs] Cons.prems(2) by (simp add: rs)
qed simp

text \<open>
  C19. Any sequence of addEvent, modifyEvent and removeEvent on an object that agrees with the kernel
  implements, results included, the updates of one abstract map from descriptors to events and
  handlers.
\<close>

theorem calls_implement_the_registry:
  assumes "registry_inv F el w" and "reg_fd ` set xs \<subseteq> F" and "permits ctl"
  shows "case reg_calls ctl xs el w of (rs, el', w') \<Rightarrow> spec_run xs (registered w) = (rs, registered w')"
proof -
  obtain rs el' w' where r: "reg_calls ctl xs el w = (rs, el', w')" by (metis prod_cases3)
  show ?thesis using reg_calls_simulate [OF assms r] by (simp add: r)
qed

theorem calls_implement_the_registry_witness:
  "case reg_calls example_ctl [Register 9 1 ''rx'', Rearm 7 4, Register 7 1 ''new'', Unregister 9, Rearm 9 1]
       example_loop example_world of (rs, el', w') \<Rightarrow>
     rs = [True, True, True, True, False] \<and> registered w' 7 = Some (1, ''new'') \<and> registered w' 9 = None"
proof -
  let ?xs = "[Register 9 1 ''rx'', Rearm 7 4, Register 7 1 ''new'', Unregister 9, Rearm 9 1]"
  have "registry_inv {7, 9} example_loop example_world"
    using example_inv by (simp add: registry_inv_def tracks_def) (simp add: example_loop_def example_world_def)
  then have sim: "case reg_calls example_ctl ?xs example_loop example_world of (rs, el', w') \<Rightarrow>
      spec_run ?xs (registered example_world) = (rs, registered w')"
    by (rule calls_implement_the_registry) (simp_all add: permits_def example_ctl_def)
  obtain rs el' w' where r: "reg_calls example_ctl ?xs example_loop example_world = (rs, el', w')"
    by (metis prod_cases3)
  have "registered example_world 7 = Some (1, ''old'')" by (simp add: registered_def example_world_def)
  then have "spec_run ?xs (registered example_world) =
      ([True, True, True, True, False], (registered example_world)(7 \<mapsto> (1, ''new''), 9 := None))"
    by (simp add: fun_eq_iff)
  then have "rs = [True, True, True, True, False] \<and> registered w' = (registered example_world)(7 \<mapsto> (1, ''new''), 9 := None)"
    using sim r by (simp del: spec_run.simps)
  then show ?thesis by (simp only: r prod.case) simp
qed

end
