(* ===== verification/Event_Sharing.thy ===== *)
theory Event_Sharing
  imports Event_Registry
begin

text \<open>
  Several \<open>EventLoop\<close> objects that are copies of one share its \<open>EventLoopInternal\<close>, one epoll descriptor and one
  interest list (src/EventLoop.cpp; the four serial ports of src/main.cpp are such a group). As long as the objects
  register different descriptors, each behaves as if the kernel's list were its own: the calls of all objects, in
  any interleaving, give every object the results and the registrations it gets when its calls run alone.
\<close>

section \<open>Calls of several objects\<close>

type_synonym 'h tagged = "nat \<times> 'h reg_op"

fun shared_calls :: "(ctl_op \<Rightarrow> fd \<Rightarrow> bool) \<Rightarrow> 'h tagged list \<Rightarrow> event_loop list \<Rightarrow> 'h world \<Rightarrow>
    bool list \<times> event_loop list \<times> 'h world" where
  "shared_calls ctl [] ls w = ([], ls, w)"
| "shared_calls ctl ((i, x) # xs) ls w =
     (case reg_call ctl x (ls ! i) w of (r, el, w1) \<Rightarrow>
        case shared_calls ctl xs (ls[i := el]) w1 of (rs, ls2, w2) \<Rightarrow> (r # rs, ls2, w2))"

text \<open>The calls of one object, and the results they returned.\<close>

definition calls_of :: "nat \<Rightarrow> 'h tagged list \<Rightarrow> 'h reg_op list" where
  "calls_of i xs = map snd (filter (\<lambda>(j, x). j = i) xs)"

definition results_of :: "nat \<Rightarrow> 'h tagged list \<Rightarrow> bool list \<Rightarrow> bool list" where
  "results_of i xs rs = map snd (filter (\<lambda>((j, x), r). j = i) (zip xs rs))"

text \<open>Each object uses descriptors of its own.\<close>

definition own_fds :: "(nat \<Rightarrow> fd set) \<Rightarrow> nat \<Rightarrow> 'h tagged list \<Rightarrow> bool" where
  "own_fds F n xs \<longleftrightarrow> (\<forall>(i, x) \<in> set xs. i < n \<and> reg_fd x \<in> F i)"

definition separate :: "(nat \<Rightarrow> fd set) \<Rightarrow> bool" where
  "separate F \<longleftrightarrow> (\<forall>i j. i \<noteq> j \<longrightarrow> F i \<inter> F j = {})"

definition sharing_inv :: "(nat \<Rightarrow> fd set) \<Rightarrow> event_loop list \<Rightarrow> 'h world \<Rightarrow> bool" where
  "sharing_inv F ls w \<longleftrightarrow> loops_inv ls w \<and> (\<forall>i < length ls. registry_inv (F i) (ls ! i) w)"

section \<open>One call leaves the other objects alone\<close>

lemma permits_deletes: "permits ctl \<Longrightarrow> deletes ctl"
  by (simp add: permits_def deletes_def)

lemma reg_call_interest:
  "reg_call ctl x el w = (r, el', w') \<Longrightarrow> k \<noteq> reg_fd x \<Longrightarrow> interest w' k = interest w k"
  by (cases x) (auto dest: addEvent_elsewhere removeEvent_elsewhere modifyEvent_elsewhere split: prod.splits)

lemma reg_call_loops_inv:
  assumes inv: "loops_inv ls w" and i: "i < length ls" and ctl: "permits ctl"
    and r: "reg_call ctl x (ls ! i) w = (r, el', w')"
  shows "loops_inv (ls[i := el']) w'"
proof (cases x)
  case (Register fd ev h)
  then have "loop_step ctl (Add i fd ev h) (ls, w) = (ls[i := el'], w')" using r by simp
  then show ?thesis by (rule loop_step_inv [OF inv permits_deletes [OF ctl], rotated]) (simp add: i)
next
  case (Rearm fd ev)
  then have "loop_step ctl (Modify i fd ev) (ls, w) = (ls[i := el'], w')"
    using r by (auto split: prod.splits)
  then show ?thesis by (rule loop_step_inv [OF inv permits_deletes [OF ctl], rotated]) (simp add: i)
next
  case (Unregister fd)
  then have "loop_step ctl (Remove i fd) (ls, w) = (ls[i := el'], w')" using r by simp
  then show ?thesis by (rule loop_step_inv [OF inv permits_deletes [OF ctl], rotated]) (simp add: i)
qed

lemma registry_inv_other:
  assumes inv: "registry_inv G el w" and loops: "world_inv w'" "loop_owns el w'" "epoll_open w'"
    and same: "\<And>k. k \<in> G \<Longrightarrow> interest w' k = interest w k"
  shows "registry_inv G el w'"
proof -
  have "tracks el w' k = tracks el w k" if "k \<in> G" for k using same [OF that] by (simp add: tracks_def split: option.split)
  then show ?thesis using inv loops by (simp add: registry_inv_def)
qed

text \<open>What one call does: the invariant is kept, and the map changes as the abstract operation says.\<close>

lemma shared_step:
  assumes inv: "sharing_inv F ls w" and F: "separate F" and i: "i < length ls" "reg_fd x \<in> F i"
    and ctl: "permits ctl" and r: "reg_call ctl x (ls ! i) w = (r, el', w')"
  shows "sharing_inv F (ls[i := el']) w' \<and> spec_op x (registered w) = (r, registered w')"
proof -
  have own: "registry_inv (F i) (ls ! i) w" using inv i by (simp add: sharing_inv_def)
  note one = reg_call_simulates [OF own i(2) ctl r]
  have loops: "loops_inv (ls[i := el']) w'"
    using inv i ctl r by (auto simp: sharing_inv_def intro: reg_call_loops_inv)
  have "registry_inv (F j) (ls[i := el'] ! j) w'" if j: "j < length ls" for j
  proof (cases "j = i")
    case False
    have "registry_inv (F j) (ls ! j) w'"
    proof (rule registry_inv_other)
      show "registry_inv (F j) (ls ! j) w" using inv j by (simp add: sharing_inv_def)
      show "world_inv w'" "epoll_open w'" using one by (simp_all add: registry_inv_def)
      have "ls[i := el'] ! j \<in> set (ls[i := el'])" using j by (intro nth_mem) simp
      then show "loop_owns (ls ! j) w'" using loops False by (simp add: loops_inv_def)
      show "interest w' k = interest w k" if "k \<in> F j" for k
      proof -
        have "k \<noteq> reg_fd x" using that i(2) F False unfolding separate_def by blast
        then show ?thesis by (rule reg_call_interest [OF r])
      qed
    qed
    then show ?thesis using False by simp
  qed (use one i in simp)
  then show ?thesis using loops one by (simp add: sharing_inv_def)
qed

section \<open>Each object sees a map of its own\<close>

lemma spec_op_own:
  "reg_fd x \<in> G \<Longrightarrow> spec_op x m = (r, m') \<Longrightarrow> spec_op x (m |` G) = (r, m' |` G)"
  by (cases x) (auto simp: restrict_map_def split: option.splits prod.splits)

lemma spec_op_foreign: "reg_fd x \<notin> G \<Longrightarrow> spec_op x m = (r, m') \<Longrightarrow> m' |` G = m |` G"
  by (cases x) (auto simp: restrict_map_def split: option.splits prod.splits)

lemma shared_view:
  assumes "sharing_inv F ls w" and "separate F" and "own_fds F (length ls) xs" and "permits ctl"
    and "shared_calls ctl xs ls w = (rs, ls', w')"
  shows "spec_run (calls_of i xs) (registered w |` F i) = (results_of i xs rs, registered w' |` F i)"
  using assms
proof (induction xs arbitrary: ls w rs)
  case Nil
  then show ?case by (simp add: calls_of_def results_of_def)
next
  case (Cons y xs)
  obtain j x where y: "y = (j, x)" by fastforce
  obtain r el1 w1 where x: "reg_call ctl x (ls ! j) w = (r, el1, w1)" by (metis prod_cases3)
  obtain rs1 where xs: "shared_calls ctl xs (ls[j := el1]) w1 = (rs1, ls', w')" and rs: "rs = r # rs1"
    using Cons.prems(5) x y by (auto split: prod.splits)
  have j: "j < length ls" "reg_fd x \<in> F j" and rest: "own_fds F (length (ls[j := el1])) xs"
    using Cons.prems(3) y by (auto simp: own_fds_def)
  have s: "sharing_inv F (ls[j := el1]) w1" "spec_op x (registered w) = (r, registered w1)"
    using shared_step [OF Cons.prems(1,2) j Cons.prems(4) x] by simp_all
  note IH = Cons.IH [OF s(1) Cons.prems(2) rest Cons.prems(4) xs]
  show ?case
  proof (cases "j = i")
    case True
    then show ?thesis using IH spec_op_own [OF _ s(2), of "F i"] j
      by (simp add: y rs calls_of_def results_of_def)
  next
    case False
    then have "registered w1 |` F i = registered w |` F i"
      using j Cons.prems(2) by (intro spec_op_foreign [OF _ s(2)]) (auto simp: separate_def)
    then show ?thesis using IH False by (simp add: y rs calls_of_def results_of_def)
  qed
qed

lemma spec_run_own:
  assumes "reg_fd ` set xs \<subseteq> G" and "spec_run xs m = (rs, m')"
  shows "spec_run xs (m |` G) = (rs, m' |` G)"
  using assms
proof (induction xs arbitrary: m rs)
  case (Cons x xs)
  obtain r m1 where x: "spec_op x m = (r, m1)" by fastforce
  obtain rs1 where xs: "spec_run xs m1 = (rs1, m')" and rs: "rs = r # rs1"
    using Cons.prems(2) x by (auto split: prod.splits)
  show ?case using Cons.IH [OF _ xs] spec_op_own [OF _ x] Cons.prems(1) by (simp add: rs)
qed simp

lemma calls_of_own: "own_fds F n xs \<Longrightarrow> reg_fd ` set (calls_of i xs) \<subseteq> F i"
  by (auto simp: own_fds_def calls_of_def)

text \<open>
  C20. EventLoop objects that share one kernel list and use different descriptors do not interfere: in
  every interleaving of their calls each object gets the results and the registrations that its own
  calls give it on a list of its own.
\<close>

theorem sharing_objects_act_alone:
  assumes "sharing_inv F ls w" and "separate F" and "own_fds F (length ls) xs" and "permits ctl"
    and "registry_inv (F i) el v" and "registered v |` F i = registered w |` F i"
  shows "case shared_calls ctl xs ls w of (rs, ls', w') \<Rightarrow>
    case reg_calls ctl (calls_of i xs) el v of (own_rs, el', v') \<Rightarrow>
      own_rs = results_of i xs rs \<and> registered v' |` F i = registered w' |` F i"
proof -
  obtain rs ls' w' where shared: "shared_calls ctl xs ls w = (rs, ls', w')" by (metis prod_cases3)
  obtain own_rs el' v' where alone: "reg_calls ctl (calls_of i xs) el v = (own_rs, el', v')" by (metis prod_cases3)
  note fds = calls_of_own [OF assms(3), of i]
  have "spec_run (calls_of i xs) (registered v) = (own_rs, registered v')"
    using reg_calls_simulate [OF assms(5) fds assms(4) alone] by simp
  from spec_run_own [OF fds this] show ?thesis
    using shared_view [OF assms(1-4) shared, of i] by (simp add: shared alone assms(6))
qed

text \<open>Two objects on one kernel list; the second one's calls come between the first one's.\<close>

definition example_calls :: "string tagged list" where
  "example_calls = [(0, Rearm 7 4), (1, Register 9 1 ''rx''), (0, Register 8 1 ''tx''), (1, Rearm 9 4), (0, Unregister 7)]"

definition example_fds :: "nat \<Rightarrow> fd set" where
  "example_fds i = (if i = 0 then {7, 8} else if i = 1 then {9, 10} else {})"

definition fresh_loop :: event_loop where
  "fresh_loop = \<lparr>mState = True, mHandlers = []\<rparr>"

lemma fresh_loop_inv: "loop_owns fresh_loop w" "addrs fresh_loop = {}"
  by (simp_all add: loop_owns_def fresh_loop_def addrs_def)

lemma example_sharing: "sharing_inv example_fds [example_loop, fresh_loop] example_world"
proof -
  have "tracks example_loop example_world k" if "k \<in> {7, 8}" for k
    using that by (auto simp: tracks_def example_loop_def example_world_def)
  moreover have "tracks fresh_loop example_world k" if "k \<in> {9, 10}" for k
    using that by (auto simp: tracks_def fresh_loop_def example_world_def)
  ultimately show ?thesis
    using example_inv fresh_loop_inv
    by (auto simp: sharing_inv_def loops_inv_def registry_inv_def example_fds_def less_Suc_eq
        example_loop_def fresh_loop_def) (simp_all add: example_world_def)
qed

lemma example_alone: "registry_inv {9, 10} fresh_loop (world_init 3 :: string world)"
  by (auto simp: registry_inv_def tracks_def fresh_loop_def world_init_def world_inv_def loop_owns_def)

theorem sharing_objects_act_alone_witness:
  "case shared_calls example_ctl example_calls [example_loop, fresh_loop] example_world of (rs, ls', w') \<Rightarrow>
     results_of 1 example_calls rs = [True, True] \<and> registered w' 9 = Some (4, ''rx'')"
proof -
  obtain rs ls' w' where r: "shared_calls example_ctl example_calls [example_loop, fresh_loop] example_world = (rs, ls', w')"
    by (metis prod_cases3)
  obtain own_rs el' v' where a: "reg_calls example_ctl (calls_of 1 example_calls) fresh_loop (world_init 3) = (own_rs, el', v')"
    by (metis prod_cases3)
  have F: "example_fds 1 = {9, 10}" by (simp add: example_fds_def)
  have "registered (world_init 3 :: string world) |` {9, 10} = registered example_world |` {9, 10}"
    by (auto simp: restrict_map_def registered_def world_init_def example_world_def)
  moreover have "own_fds example_fds (length [example_loop, fresh_loop]) example_calls"
    by (simp add: own_fds_def example_calls_def example_fds_def)
  moreover have "separate example_fds" by (auto simp: separate_def example_fds_def)
  moreover have "permits example_ctl" by (simp add: permits_def example_ctl_def)
  ultimately have "own_rs = results_of 1 example_calls rs \<and> registered v' |` {9, 10} = registered w' |` {9, 10}"
    using sharing_objects_act_alone [OF example_sharing, of example_calls example_ctl 1 fresh_loop "world_init 3"]
      example_alone by (simp add: r a F del: One_nat_def)
  moreover have "own_rs = [True, True] \<and> registered v' 9 = Some (4, ''rx'')"
    using a by (auto simp: calls_of_def example_calls_def addEvent_def modifyEvent_def insert_handler_def epoll_ctl_def
        fresh_loop_def world_init_def example_ctl_def registered_def)
  ultimately show ?thesis by (simp only: r prod.case) (metis insertI1 restrict_in)
qed

end
