(* ===== verification/Disassembler.thy ===== *)
theory Disassembler
  imports Memory_Regions
begin

text \<open>
  The tracing that \<open>main\<close> (src/main.cpp) adds to its loop when it is built with \<open>DISASSEMBLE\<close>: after an
  exit it finds the host buffer the instruction pointer is in and decodes eight instructions from
  there. The decoder is the Zydis library's, an argument: from the bytes it is given it returns the
  length of an instruction, or fails.
\<close>

section \<open>When it prints\<close>

text \<open>
  \<open>previousWasDebug\<close> before an exit, whether the exit was caused by single stepping, and the flag after
  it: the branch on the flag, then the case \<open>KVM_EXIT_DEBUG\<close> of the switch.
\<close>

definition disassembles :: "bool \<Rightarrow> bool \<Rightarrow> bool" where
  "disassembles previousWasDebug is_debug \<longleftrightarrow> \<not> previousWasDebug \<or> is_debug"

definition next_flag :: "bool \<Rightarrow> bool \<Rightarrow> bool" where
  "next_flag previousWasDebug is_debug =
     (let flag = (if disassembles previousWasDebug is_debug then previousWasDebug else False)
      in if is_debug then True else flag)"

fun printed :: "bool \<Rightarrow> bool list \<Rightarrow> bool list" where
  "printed flag [] = []"
| "printed flag (e # es) = disassembles flag e # printed (next_flag flag e) es"

section \<open>Where it looks\<close>

text \<open>\<open>codeBuffer\<close> is the buffer and \<open>cw_base\<close> its displacement; the pointer is null outside the windows.\<close>

record code_window =
  cw_buffer :: "host_buffer option"
  cw_base :: nat
  cw_offset :: u64
  cw_length :: u64

definition code_window :: "u64 \<Rightarrow> code_window" where
  "code_window ip =
     (if ip < 0xA0000 then
        \<lparr>cw_buffer = Some RamBuffer, cw_base = 0, cw_offset = ip, cw_length = 0xA0000 - ip\<rparr>
      else if 0xC8000 \<le> ip \<and> ip < 0xCA000 then
        \<lparr>cw_buffer = Some OptionRomBuffer, cw_base = 0, cw_offset = ip AND 0x1FFF, cw_length = 0x2000 - ip\<rparr>
      else if 0xE0000 \<le> ip \<and> ip < 0xF0000 then
        \<lparr>cw_buffer = Some FlashBuffer, cw_base = 0x60000, cw_offset = ip AND 0xFFFF, cw_length = 0x10000 - ip\<rparr>
      else if 0xF0000 \<le> ip \<and> ip < 0x100000 then
        \<lparr>cw_buffer = Some FlashBuffer, cw_base = 0x70000, cw_offset = ip AND 0xFFFF, cw_length = 0x10000 - ip\<rparr>
      else if 0x3400000 \<le> ip \<and> ip \<le> 0x34FFFFF then
        \<lparr>cw_buffer = Some FlashBuffer, cw_base = 0, cw_offset = ip AND 0x7FFFF,
         cw_length = 0x80000 - (ip AND 0x7FFFF)\<rparr>
      else \<lparr>cw_buffer = None, cw_base = 0, cw_offset = 0, cw_length = 0\<rparr>)"

section \<open>The eight instructions\<close>

datatype machine_mode = DecoderReal | DecoderP16 | DecoderP32

definition decoder_mode :: "u64 \<Rightarrow> bool \<Rightarrow> machine_mode" where
  "decoder_mode cr0 db = (if cr0 AND 1 \<noteq> 0 then if db then DecoderP32 else DecoderP16 else DecoderReal)"

text \<open>
  One turn passes the decoder a place in the buffer and a length, prints the address relative to the
  code segment's base, and moves on by the length of the instruction. The result lists, for each
  turn, the place and length passed and the address printed, if one was.
\<close>

fun decode_turns :: "(machine_mode \<Rightarrow> nat \<Rightarrow> u64 \<Rightarrow> nat option) \<Rightarrow> machine_mode \<Rightarrow> u64 \<Rightarrow> nat \<Rightarrow> nat \<Rightarrow>
    u64 \<Rightarrow> u64 \<Rightarrow> u64 \<Rightarrow> (nat \<times> u64 \<times> u64 option) list" where
  "decode_turns decode mode cs_base 0 base offset len ip = []"
| "decode_turns decode mode cs_base (Suc count) base offset len ip =
     (case decode mode (base + unat offset) len of
        None \<Rightarrow> [(base + unat offset, len, None)]
      | Some n \<Rightarrow> (base + unat offset, len, Some (ip - cs_base)) #
          decode_turns decode mode cs_base count base (offset + word_of_nat n) (len - word_of_nat n) (ip + word_of_nat n))"

definition disassemble :: "(machine_mode \<Rightarrow> nat \<Rightarrow> u64 \<Rightarrow> nat option) \<Rightarrow> u64 \<Rightarrow> bool \<Rightarrow> u64 \<Rightarrow> u64 \<Rightarrow>
    (nat \<times> u64 \<times> u64 option) list" where
  "disassemble decode cr0 db cs_base rip =
     (let ip = cs_base + rip; w = code_window ip
      in decode_turns decode (decoder_mode cr0 db) cs_base 8 (cw_base w) (cw_offset w) (cw_length w) ip)"

section \<open>Every step is printed once\<close>

lemma next_flag_eq: "next_flag flag e = e"
  by (auto simp: next_flag_def disassembles_def)

text \<open>
  An exit is left out exactly when it is not a single step and follows one: the instruction was
  printed after the step.
\<close>

theorem steps_are_printed_once:
  assumes "i < length es"
  shows "printed False es ! i \<longleftrightarrow> es ! i \<or> i = 0 \<or> \<not> es ! (i - 1)"
proof -
  have "printed flag es ! i \<longleftrightarrow> es ! i \<or> \<not> (flag # es) ! i" if "i < length es" for flag i
    using that
  proof (induction es arbitrary: flag i)
    case (Cons e es)
    then show ?case by (cases i) (auto simp: disassembles_def next_flag_eq)
  qed simp
  from this [OF assms, of False] show ?thesis by (cases i) auto
qed

section \<open>The window lies in the buffer\<close>

text \<open>What the library's manual says of the decoder: an instruction ends inside the bytes it was given.\<close>

definition decoder_spec :: "(machine_mode \<Rightarrow> nat \<Rightarrow> u64 \<Rightarrow> nat option) \<Rightarrow> bool" where
  "decoder_spec decode \<longleftrightarrow> (\<forall>mode a len n. decode mode a len = Some n \<longrightarrow> n \<le> unat len)"

lemma turns_in_bounds:
  assumes "decoder_spec decode" and "base + unat offset + unat len \<le> limit" and "limit < 2 ^ 64"
    and "(a, l, p) \<in> set (decode_turns decode mode cs_base count base offset len ip)"
  shows "a + unat l \<le> limit"
  using assms(2,4)
proof (induction count arbitrary: offset len ip)
  case (Suc count)
  show ?case
  proof (cases "decode mode (base + unat offset) len")
    case None
    then show ?thesis using Suc.prems by simp
  next
    case (Some n)
    then have n: "n \<le> unat len" using assms(1) by (simp add: decoder_spec_def)
    have fits: "n < 2 ^ 64" "unat offset + n < 2 ^ 64" using n Suc.prems(1) assms(3) by simp_all
    have off: "unat (offset + word_of_nat n) = unat offset + n"
      using fits by (simp add: unat_word_ariths unat_of_nat)
    have len: "unat (len - word_of_nat n) = unat len - n"
      using n fits(1) by (simp add: unat_sub word_le_nat_alt unat_of_nat)
    show ?thesis
    proof (cases "(a, l, p) = (base + unat offset, len, Some (ip - cs_base))")
      case True
      then show ?thesis using Suc.prems(1) by simp
    next
      case False
      then show ?thesis
        using Suc.IH [of "offset + word_of_nat n" "len - word_of_nat n" "ip + word_of_nat n"] Suc.prems Some n off len
        by auto
    qed
  qed
qed simp

lemma first_turn: "\<exists>p. (base + unat offset, len, p) \<in> set (decode_turns decode mode cs_base (Suc count) base offset len ip)"
  by (auto split: option.split)

lemma unat_low_bits: "unat (w AND mask n) = unat w mod 2 ^ n"
proof -
  have "unat (take_bit n w) = take_bit n (unat w)" by (rule unsigned_take_bit_eq)
  then show ?thesis by (simp only: take_bit_eq_mask [symmetric]) (simp add: take_bit_eq_mod)
qed

lemma mod_window:
  fixes c :: nat
  assumes "m dvd c" and "c \<le> x" and "x < c + m"
  shows "x mod m = x - c"
proof -
  obtain k where c: "c = m * k" using assms(1) by (elim dvdE)
  obtain d where x: "x = c + d" using assms(2) by (auto simp: le_iff_add)
  then show ?thesis using assms(3) by (simp add: c)
qed

lemma window_masks:
  "(0x1FFF :: u64) = mask 13" "(0xFFFF :: u64) = mask 16" "(0x7FFFF :: u64) = mask 19"
  by (simp_all add: mask_numeral)

lemma window_cases:
  assumes "cw_buffer (code_window ip) = Some b"
  shows "(unat ip < 0xA0000 \<and> b = RamBuffer \<and> cw_base (code_window ip) = 0 \<and>
      unat (cw_offset (code_window ip)) = unat ip \<and> unat (cw_length (code_window ip)) = 0xA0000 - unat ip) \<or>
    (0xC8000 \<le> unat ip \<and> unat ip < 0xCA000 \<and> b = OptionRomBuffer \<and> cw_base (code_window ip) = 0 \<and>
      unat (cw_offset (code_window ip)) = unat ip mod 0x2000 \<and>
      unat (cw_length (code_window ip)) = 2 ^ 64 + 0x2000 - unat ip) \<or>
    (0xE0000 \<le> unat ip \<and> unat ip < 0xF0000 \<and> b = FlashBuffer \<and> cw_base (code_window ip) = 0x60000 \<and>
      unat (cw_offset (code_window ip)) = unat ip mod 0x10000 \<and>
      unat (cw_length (code_window ip)) = 2 ^ 64 + 0x10000 - unat ip) \<or>
    (0xF0000 \<le> unat ip \<and> unat ip < 0x100000 \<and> b = FlashBuffer \<and> cw_base (code_window ip) = 0x70000 \<and>
      unat (cw_offset (code_window ip)) = unat ip mod 0x10000 \<and>
      unat (cw_length (code_window ip)) = 2 ^ 64 + 0x10000 - unat ip) \<or>
    (0x3400000 \<le> unat ip \<and> unat ip \<le> 0x34FFFFF \<and> b = FlashBuffer \<and> cw_base (code_window ip) = 0 \<and>
      unat (cw_offset (code_window ip)) = unat ip mod 0x80000 \<and>
      unat (cw_length (code_window ip)) = 0x80000 - unat ip mod 0x80000)"
proof -
  have sub: "unat (0x80000 - (ip AND mask 19)) = 0x80000 - unat ip mod 0x80000"
    by (simp add: unat_sub_if' unat_low_bits)
  show ?thesis
    using assms unfolding code_window_def window_masks
    by (auto simp: word_less_nat_alt word_le_nat_alt unat_sub_if' unat_low_bits sub split: if_splits)
qed

text \<open>
  C14. The buffer lengths passed to the decoder stay inside the host buffer exactly when the
  instruction pointer is in the flash window at 0x3400000, or below 0xA0000 in a build with at least
  192 KiB of high memory; in every other window the length runs past the end of the buffer.

  Only the window on the flash chip's own addresses has a length that ends with the buffer.
\<close>

theorem disassembly_in_bounds_iff:
  assumes "decoder_spec decode" and "build_ok bd" and "cw_buffer (code_window (cs_base + rip)) = Some b"
  shows "(\<forall>(a, l, p) \<in> set (disassemble decode cr0 db cs_base rip). a + unat l \<le> buffer_size bd b) \<longleftrightarrow>
    0x3400000 \<le> cs_base + rip \<and> cs_base + rip \<le> 0x34FFFFF \<or>
    cs_base + rip < 0xA0000 \<and> 0x30000 \<le> HIGH_MEMORY_SIZE bd"
proof -
  let ?ip = "cs_base + rip" and ?w = "code_window (cs_base + rip)"
  have size: "buffer_size bd b < 2 ^ 64" using assms(2) by (cases b) (simp_all add: build_ok_def LOW_MEMORY_SIZE_def PAGE_SIZE_def)
  have "(\<forall>(a, l, p) \<in> set (disassemble decode cr0 db cs_base rip). a + unat l \<le> buffer_size bd b) \<longleftrightarrow>
      cw_base ?w + unat (cw_offset ?w) + unat (cw_length ?w) \<le> buffer_size bd b"
  proof
    assume all: "\<forall>(a, l, p) \<in> set (disassemble decode cr0 db cs_base rip). a + unat l \<le> buffer_size bd b"
    obtain p where "(cw_base ?w + unat (cw_offset ?w), cw_length ?w, p) \<in> set (disassemble decode cr0 db cs_base rip)"
      using first_turn [where count = 7] by (fastforce simp: disassemble_def Let_def eval_nat_numeral)
    then show "cw_base ?w + unat (cw_offset ?w) + unat (cw_length ?w) \<le> buffer_size bd b" using all by blast
  next
    assume "cw_base ?w + unat (cw_offset ?w) + unat (cw_length ?w) \<le> buffer_size bd b"
    then show "\<forall>(a, l, p) \<in> set (disassemble decode cr0 db cs_base rip). a + unat l \<le> buffer_size bd b"
      using turns_in_bounds [OF assms(1) _ size] by (auto simp: disassemble_def Let_def)
  qed
  also have "\<dots> \<longleftrightarrow> 0x3400000 \<le> unat ?ip \<and> unat ?ip \<le> 0x34FFFFF \<or>
      unat ?ip < 0xA0000 \<and> 0x30000 \<le> HIGH_MEMORY_SIZE bd"
    using window_cases [OF assms(3)] by (auto simp: LOW_MEMORY_SIZE_def)
  finally show ?thesis by (simp add: word_le_nat_alt word_less_nat_alt)
qed

section \<open>The window shows the code that runs\<close>

text \<open>
  Whatever regions the run has put into the slots, a mapped address is disassembled from the byte the
  guest executes, unless that byte is the disk's: while the disk window is open the listing of the page
  at 0xC9000 is the option ROM's (\<open>open_window_is_listed_as_option_rom\<close>).
\<close>

lemma mapped_region:
  assumes "slots_inv bd s" and "guest_to_host s a = Some (b, off)"
  shows "\<exists>r \<in> {regionRam, regionRomDos, regionBios, regionRamWrap, regionRamWrapHighMem bd, regionFlash, regionFlashAlias,
      regionOptionRom, regionOptionRom_Boot, regionOptionRom_Disk}.
    covers r a \<and> b = mr_buffer r \<and> off = mr_offset r + (a - guest_phys_addr r)"
proof -
  obtain n r where r: "s n = Some r" "covers r a"
    using assms(2) guest_to_host_None [of s a] by fastforce
  then have "b = mr_buffer r \<and> off = mr_offset r + (a - guest_phys_addr r)"
    using guest_to_host_Some [OF assms(1) r] assms(2) by simp
  moreover have "r \<in> set (slot_regions bd n)" using assms(1) r(1) by (simp add: slots_inv_def)
  ultimately show ?thesis using r(2) by (auto simp: slot_regions_def split: if_splits)
qed

text \<open>
  C13. Whatever regions the run has put into the memory slots (gate A20 open or closed, the disk window
  open or not), the disassembler decodes a mapped instruction pointer from the byte of the host buffer
  that the guest executes, unless that byte is the disk's; from one megabyte up to the flash the code
  pointer is null.
\<close>

theorem disassembly_shows_the_guests_code:
  assumes "slots_inv bd s" and "guest_to_host s (unat (cs_base + rip)) = Some (b, off)" and "b \<noteq> DiskBuffer"
  shows "if 0x100000 \<le> cs_base + rip \<and> cs_base + rip < 0x3400000
    then cw_buffer (code_window (cs_base + rip)) = None
    else cw_buffer (code_window (cs_base + rip)) = Some b \<and> fst (hd (disassemble decode cr0 db cs_base rip)) = off"
proof -
  let ?ip = "cs_base + rip" and ?w = "code_window (cs_base + rip)"
  have ok: "build_ok bd" using assms(1) by (simp add: slots_inv_def)
  obtain r where r: "r \<in> {regionRam, regionRomDos, regionBios, regionRamWrap, regionRamWrapHighMem bd, regionFlash,
      regionFlashAlias, regionOptionRom, regionOptionRom_Boot, regionOptionRom_Disk}"
    and cov: "covers r (unat ?ip)" and b: "b = mr_buffer r" and off: "off = mr_offset r + (unat ?ip - guest_phys_addr r)"
    using mapped_region [OF assms(1,2)] by blast
  have disk: "r \<noteq> regionOptionRom_Disk" using assms(3) b by (auto simp: region_defs)
  show ?thesis
  proof (cases "0x100000 \<le> ?ip \<and> ?ip < 0x3400000")
    case True
    then show ?thesis by (auto simp: code_window_def word_less_nat_alt word_le_nat_alt)
  next
    case False
    then have low: "r \<noteq> regionRamWrapHighMem bd" "r \<noteq> regionRamWrap"
      using cov ok by (auto simp: covers_def region_defs build_ok_def word_less_nat_alt word_le_nat_alt)
    then have seven: "r \<in> {regionRam, regionRomDos, regionBios, regionFlash, regionFlashAlias, regionOptionRom, regionOptionRom_Boot}"
      using r disk by blast
    have range: "unat ?ip < 0xA0000 \<or> 0xC8000 \<le> unat ?ip \<and> unat ?ip < 0xCA000 \<or>
        0xE0000 \<le> unat ?ip \<and> unat ?ip < 0x100000 \<or> 0x3400000 \<le> unat ?ip \<and> unat ?ip \<le> 0x34FFFFF"
      using seven cov by (auto simp: covers_def region_defs)
    then obtain b' where b': "cw_buffer ?w = Some b'"
      by (auto simp: code_window_def word_less_nat_alt word_le_nat_alt)
    have "b' = b \<and> cw_base ?w + unat (cw_offset ?w) = off"
      using window_cases [OF b'] seven cov
      by (auto simp: covers_def region_defs b off
          mod_window [where m = "0x2000" and c = "0xC8000"] mod_window [where m = "0x10000" and c = "0xE0000"]
          mod_window [where m = "0x10000" and c = "0xF0000"] mod_window [where m = "0x80000" and c = "0x3400000"]
          mod_window [where m = "0x80000" and c = "0x3480000"])
    then have "cw_buffer ?w = Some b \<and> cw_base ?w + unat (cw_offset ?w) = off" using b' by simp
    moreover have "fst (hd (disassemble decode cr0 db cs_base rip)) = cw_base ?w + unat (cw_offset ?w)"
      by (simp add: disassemble_def Let_def eval_nat_numeral split: option.split)
    ultimately show ?thesis using False by simp
  qed
qed

theorem open_window_is_listed_as_option_rom:
  assumes "slots_inv bd s" and "s 7 = Some regionOptionRom_Disk"
    and "0xC9000 \<le> unat (cs_base + rip)" and "unat (cs_base + rip) < 0xCA000"
  shows "guest_to_host s (unat (cs_base + rip)) = Some (DiskBuffer, unat (cs_base + rip) - 0xC9000) \<and>
    cw_buffer (code_window (cs_base + rip)) = Some OptionRomBuffer"
  using guest_to_host_Some [OF assms(1,2), of "unat (cs_base + rip)"] assms(3,4)
  by (simp add: covers_def region_defs code_window_def word_less_nat_alt word_le_nat_alt)

section \<open>The theorems at concrete inputs\<close>

text \<open>A decoder that takes every byte for an instruction.\<close>

definition example_decode :: "machine_mode \<Rightarrow> nat \<Rightarrow> u64 \<Rightarrow> nat option" where
  "example_decode mode a len = (if len = 0 then None else Some 1)"

lemma example_decode_spec: "decoder_spec example_decode"
proof -
  have "1 \<le> unat len" if "len \<noteq> 0" for len :: u64 using that by (simp add: unat_gt_0 Suc_le_eq)
  then show ?thesis by (simp add: decoder_spec_def example_decode_def)
qed

theorem steps_are_printed_once_witness: "printed False [True, False, False, True] ! 1 = False"
  using steps_are_printed_once [of 1 "[True, False, False, True]"] by simp

theorem disassembly_in_bounds_iff_witness:
  "list_all (\<lambda>(a, l, p). a + unat l \<le> buffer_size full_build FlashBuffer) (disassemble example_decode 0 False 0x3470000 0xFFF0) \<and>
   \<not> list_all (\<lambda>(a, l, p). a + unat l \<le> buffer_size full_build FlashBuffer) (disassemble example_decode 0 False 0xF0000 0xE05B)"
  using disassembly_in_bounds_iff [OF example_decode_spec builds_ok(2), of "0x3470000" "0xFFF0" FlashBuffer 0 False]
    disassembly_in_bounds_iff [OF example_decode_spec builds_ok(2), of "0xF0000" "0xE05B" FlashBuffer 0 False]
  by (simp add: code_window_def list_all_iff)

theorem disassembly_shows_the_guests_code_witness:
  "fst (hd (disassemble example_decode 0 False 0xC8000 0x10)) = 0x10"
proof -
  let ?s = "(initial_slots full_build)(7 \<mapsto> regionOptionRom_Disk)"
  have "regionOptionRom_Disk \<in> set (slot_regions full_build 7)" by (simp add: slot_regions_def full_build_def)
  then have inv: "slots_inv full_build ?s" using initial_slots_inv [OF builds_ok(2)] by (simp add: slots_inv_def)
  then have "guest_to_host ?s 0xC8010 = Some (OptionRomBuffer, 0x10)"
    using guest_to_host_Some [OF inv, of 6 regionOptionRom "0xC8010"]
    by (simp add: initial_slots_def covers_def region_defs full_build_def)
  then show ?thesis
    using disassembly_shows_the_guests_code [OF inv, of "0xC8000" "0x10" OptionRomBuffer "0x10" example_decode 0 False] by simp
qed

end
