(* ===== verification/Spec2Isabelle.thy ===== *)
theory Spec2Isabelle
  imports Shut_Down Event_Sharing Port_Widths Disassembler
begin

text \<open>
  A model of the TS-3100 emulator, a C++ program that runs the firmware of an embedded 386EX
  computer on KVM: src/src/main.cpp sets up the virtual machine and serves its exits, the classes
  under src/src/hardware are the emulated devices, and src/src/EventLoop.cpp is the thread that
  drives the serial ports' sockets and timers. Paths below are relative to src/src.

  Theories, in the order of their imports.

  \<^item> \<open>Prelude\<close>: machine words, the errors of the program as values (an exception, a failed
    assertion, a division by zero, an access outside an array, a call through a dangling pointer, the return of
    \<open>EXIT_FAILURE\<close>), sequencing of fallible steps, bytes of a word, little-endian buffers, and the
    locale \<open>register_file\<close> of devices whose reads return the last write.
  \<^item> \<open>Address_Range\<close> (AddressRange.hpp): the interval order that serves as the key order of the two
    \<open>std::map\<close> tables, and \<open>emplace\<close> and \<open>find\<close> on a sorted list under an order of this kind (locale
    \<open>ordered_keys\<close>).
  \<^item> \<open>Device_Pio\<close> (hardware/DevicePio.hpp): the virtual functions as a record \<open>pio_ops\<close>, the defaults
    that throw, the dispatch on the width; locale \<open>pio_device\<close> for what a device owes the machine.
  \<^item> \<open>Hex_Display\<close>, \<open>Clock_Prescaler\<close> (locale \<open>prescalable\<close>), \<open>Interval_Timer\<close> (hardware/Timer.cpp),
    \<open>Chip_Select_Unit\<close>, \<open>Rtc_DS12887\<close>: the devices without a host side, one record of state each and
    one function per method.
  \<^item> \<open>Event_Loop\<close> (EventLoop.cpp): objects that own handlers, the heap nodes of their maps, the
    kernel's interest list that points to those nodes, every operation of the class, and the
    dispatching thread; locales \<open>owner_operation\<close> and \<open>event_client\<close>. \<open>Event_Registry\<close> shows that an
    object implements a map from descriptors to handlers, \<open>Event_Sharing\<close> that objects on one kernel list with
    different descriptors behave as if each had a list of its own; locale \<open>stoppable_client\<close> is what it takes for
    the thread to end.
  \<^item> \<open>Serial_16450\<close> (hardware/Serial.cpp): registers, interrupts, handlers, \<open>start\<close> and \<open>stop\<close>.
    \<open>Serial_Events\<close>: the port's behaviour over time as a step relation that interleaves the guest, the clients and
    the timers. \<open>Shared_Ports\<close>: several ports on the one epoll descriptor they share; what a method of one does is a
    step of its own handlers, which ports with other descriptors do not notice.
  \<^item> \<open>Build_Config\<close> (main.cpp, CMakeLists.txt): the options the program is built with, which the definitions of the
    code under \<open>#if\<close> take as an argument.
  \<^item> \<open>Memory_Regions\<close> (main.cpp): the memory slots, the regions \<open>main\<close> defines, what a guest address shows.
    \<open>Flash_Disk\<close>: the decoder of flash commands in the MMIO branch. \<open>Io_Handlers\<close>: the static port handlers and
    their table.
  \<^item> \<open>Kvm_Machine\<close> (main.cpp): the device table, the dispatch of an exit, the changes of the memory map that
    follow a port access, the run loop. \<open>Port_Widths\<close>: which accesses each device answers, and which end the emulator.
    \<open>Run_Control\<close>: a specification of the loop by ports, widths and a control state of four fields, with every way the
    emulator ends; the loop, with all that it calls, refines it.
  \<^item> \<open>Boot\<close> (main.cpp): the checked calls before the loop, the constructor of the event loop, the start of the four
    ports one after the other.
  \<^item> \<open>Emulator\<close> (main.cpp): the runs of the whole program as a step relation, in which exits of the virtual CPU, the
    interrupt signal and events of the ports' clients and timers come in any order; locale \<open>port_property\<close> lifts
    what every step of a port keeps to the emulator. The run loop makes runs of this relation.
  \<^item> \<open>Event_Thread\<close> (EventLoop.cpp, hardware/Serial.cpp): the dispatching thread on the handlers of the four ports, as
    an instance of \<open>event_client\<close>; its turns together with the passes of the run loop are shown to make runs of the
    emulator, so that what holds of these holds of the two threads. \<open>Shut_Down\<close>: the destructors at the end of
    \<open>main\<close>, with turns of the thread in between, free every handler, and the join returns (\<open>stoppable_client\<close>).
  \<^item> \<open>Disassembler\<close> (main.cpp, built with \<open>DISASSEMBLE\<close>): the window on the code and the loop over its instructions.

  How they interact: an exit of the virtual CPU reaches one device through \<open>pioDeviceTable\<close>, or one
  handler through \<open>ioHandlerTable\<close>; the handlers for port 0x92 and ports 0xD000 to 0xD007 leave requests in
  static variables that the loop turns into changes of the memory slots. The serial ports' other
  half runs in the event thread, under the port's mutex, so that a guest access and a handler are
  steps that do not overlap.

  What the lemmas show: each device keeps an invariant and returns, so the machine does; lookups
  find the device or handler whose range holds the port; each device behaves as its data sheet on
  the operations modelled, or is shown not to (the names of such theorems say how); handler pointers
  held by the kernel stay valid; the memory map is sound and shows what the A20 and disk registers
  ask for; and these facts hold in every run of the emulator from its setup on.

  Bounds and fuel: the run loop and the event thread are functions of a list or number of turns, and
  what is proved of them is proved for every such list or number. No other function needs fuel.

  Arguments of the model: KVM's answers, the clock and the local time, the result of \<open>epoll_wait\<close> and of the
  calls \<open>start\<close> makes, which requests \<open>epoll_ctl\<close> and the memory calls refuse, and the normalisation \<open>timerfd_settime\<close>
  applies, and the instruction decoder of the Zydis library. What is assumed of them is what their manual pages say and is named in each theorem (\<open>epoll_wait_spec\<close>,
  \<open>timerfd_spec\<close>, \<open>deletes\<close>, \<open>accepts\<close>,
  \<open>permits\<close>, \<open>host_ready\<close>, \<open>decoder_spec\<close>, \<open>generous\<close>, \<open>granting\<close>, \<open>waits_forever\<close>, \<open>interrupted_at\<close>). The model is one of every build:
  with and without \<open>NDEBUG\<close>, \<open>VIRTUAL_DISK\<close> and \<open>DISASSEMBLE\<close>, and for every \<open>HIGH_MEMORY_SIZE\<close> of whole pages that ends
  below the flash chip (\<open>build_ok\<close>).

  Not modelled: the text the program prints; the guest's instructions;
  the contents of the files that \<open>main\<close> opens; the formatting of disassembled instructions; the option ROM and the
  tools, which are assembly for the guest. Methods of the ports are atomic steps, which they are as far as they hold
  the port's mutex, and the setup has started the four ports before the model's event thread takes its first turn.
  Two races this leaves out: \<open>start\<close> adds the timers' handlers without the mutex while the event
  thread may already be accepting a client, and a handler may be freed between the return of \<open>epoll_wait\<close> and
  the call; what then happens is \<open>fetched_handler_may_be_freed\<close>.
\<close>

end
